(* ===== verification/Prelude.thy ===== *)
theory Prelude
  imports
    Main
    "HOL-Library.AList"
    "HOL-Library.Char_ord"
    "HOL-Library.List_Lexorder"
    "HOL-Library.Multiset"
    "HOL-Library.Signed_Division"
begin

text \<open>
  The vocabulary every component of the distsched model shares: Go's fixed-width integers, its
  time and duration arithmetic, Go maps as association lists together with Go's unspecified map
  iteration order, error values, and the generic lemmas the component theories build on.

  A Go \<open>string\<close> is a \<^typ>\<open>string\<close> (a list of bytes); Go's \<open><\<close> on strings is the lexicographic
  order on bytes, which is the \<^theory_text>\<open>linorder\<close> instance of \<open>List_Lexorder\<close> over \<open>Char_ord\<close>.
  A Go \<open>map[string]T\<close> that the code iterates over is an association list with distinct keys,
  read by \<^const>\<open>map_of\<close> and written by \<^const>\<open>AList.update\<close> and \<^const>\<open>AList.delete\<close>.
\<close>

named_theorems go_simps \<open>unfolding rules for Go's arithmetic and maps\<close>
named_theorems wire_simps \<open>getters of the protobuf messages\<close>
named_theorems frame \<open>fields of the server state an operation leaves alone\<close>

section \<open>Integers, times and durations\<close>

text \<open>
  Go's signed integers wrap around. \<open>time.Duration\<close> is an \<open>int64\<close> number of nanoseconds. An
  instant is a number of nanoseconds since the Unix epoch; a missing \<open>*timestamppb.Timestamp\<close>
  reads as the epoch.
\<close>

type_synonym time = int
type_synonym duration = int
type_synonym timestamp = "time option"
type_synonym goerr = string

definition i32 :: "int \<Rightarrow> int" where
  "i32 x = signed_take_bit 31 x"

definition i64 :: "int \<Rightarrow> int" where
  "i64 x = signed_take_bit 63 x"

definition max_int64 :: int where
  "max_int64 = 2 ^ 63 - 1"

definition min_int64 :: int where
  "min_int64 = - (2 ^ 63)"

text \<open>\<open>Time.Sub\<close> saturates at the bounds of \<open>time.Duration\<close>.\<close>

definition time_sub :: "time \<Rightarrow> time \<Rightarrow> duration" where
  "time_sub a b = max min_int64 (min max_int64 (a - b))"

definition AsTime :: "timestamp \<Rightarrow> time" where
  "AsTime t = (case t of None \<Rightarrow> 0 | Some x \<Rightarrow> x)"

definition AsDuration :: "duration option \<Rightarrow> duration" where
  "AsDuration d = (case d of None \<Rightarrow> 0 | Some x \<Rightarrow> x)"

abbreviation millisecond :: duration where "millisecond \<equiv> 1000000"
abbreviation second :: duration where "second \<equiv> 1000000000"
abbreviation minute :: duration where "minute \<equiv> 60000000000"

lemma AsTime_simps [simp]: "AsTime None = 0" "AsTime (Some t) = t"
  by (simp_all add: AsTime_def)

lemma AsDuration_simps [simp]: "AsDuration None = 0" "AsDuration (Some t) = t"
  by (simp_all add: AsDuration_def)

lemma i32_id: "- (2 ^ 31) \<le> x \<Longrightarrow> x < 2 ^ 31 \<Longrightarrow> i32 x = x"
  by (simp add: i32_def signed_take_bit_int_eq_self)

lemma i64_id: "- (2 ^ 63) \<le> x \<Longrightarrow> x < 2 ^ 63 \<Longrightarrow> i64 x = x"
  by (simp add: i64_def signed_take_bit_int_eq_self)

lemma i32_range: "- (2 ^ 31) \<le> i32 x \<and> i32 x < 2 ^ 31"
  using signed_take_bit_int_greater_eq_minus_exp [of 31 x]
    signed_take_bit_int_less_exp [of 31 x]
  by (simp add: i32_def)

lemma time_sub_pos_iff: "0 < time_sub a b \<longleftrightarrow> b < a"
  by (auto simp: time_sub_def min_int64_def max_int64_def)

section \<open>Go maps\<close>

lemma map_of_update [simp]: "map_of (AList.update k v m) = (map_of m)(k \<mapsto> v)"
  by (simp add: update_conv')

lemma map_of_delete [simp]: "map_of (AList.delete k m) = (map_of m)(k := None)"
  by (simp add: delete_conv')

lemma set_keys_delete: "fst ` set (AList.delete k m) = fst ` set m - {k}"
  by (induction m) auto

lemma set_keys_update: "fst ` set (AList.update k v m) = insert k (fst ` set m)"
  by (induction m) auto

lemma keys_delete [simp]: "map fst (AList.delete k m) = filter (\<lambda>x. x \<noteq> k) (map fst m)"
  by (induction m) auto

text \<open>
  The order of \<open>for k := range m\<close> is unspecified and differs between two loops over one map.
  \<open>order\<close> stands for the run-time's choice; only a choice that visits every key exactly once is
  possible, so any other value of \<open>order\<close> falls back to the map's own order.
\<close>

definition range_keys :: "(nat \<Rightarrow> string list \<Rightarrow> string list) \<Rightarrow> nat \<Rightarrow> (string \<times> 'v) list \<Rightarrow> string list"
  where
  "range_keys order n m =
     (let ks = map fst m; ks' = order n ks in if mset ks' = mset ks then ks' else ks)"

lemma mset_range_keys [simp]: "mset (range_keys order n m) = mset (map fst m)"
  by (simp add: range_keys_def Let_def)

lemma set_range_keys [simp]: "set (range_keys order n m) = fst ` set m"
proof -
  have "set_mset (mset (range_keys order n m)) = set_mset (mset (map fst m))"
    by (simp only: mset_range_keys)
  then show ?thesis by (simp only: set_mset_mset set_map)
qed

lemma length_range_keys [simp]: "length (range_keys order n m) = length m"
  by (metis length_map mset_range_keys size_mset)

lemma distinct_range_keys [simp]: "distinct (range_keys order n m) \<longleftrightarrow> distinct (map fst m)"
  using mset_eq_imp_distinct_iff mset_range_keys by blast

section \<open>Lists and options\<close>

lemma fold_keeps: "(\<And>x s. g (f x s) = g s) \<Longrightarrow> g (fold f xs s) = g s"
  by (induction xs arbitrary: s) auto

lemma swap_update_nth:
  assumes "i < length xs" "j < length xs" "k < length xs"
  shows "xs[i := xs ! j, j := xs ! i] ! k =
    (if k = i then xs ! j else if k = j then xs ! i else xs ! k)"
  using assms by (auto simp: nth_list_update)

lemma mset_swap_update:
  assumes "i < length xs" "j < length xs"
  shows "mset (xs[i := xs ! j, j := xs ! i]) = mset xs"
  using assms mset_swap [of i xs j]
  by (cases "i = j") (simp_all add: list_update_swap)

lemma set_swap_update:
  assumes "i < length xs" "j < length xs"
  shows "set (xs[i := xs ! j, j := xs ! i]) = set xs"
  using mset_swap_update [OF assms] by (metis set_mset_mset)

lemma distinct_swap_update:
  assumes "i < length xs" "j < length xs"
  shows "distinct (xs[i := xs ! j, j := xs ! i]) = distinct xs"
  using mset_swap_update [OF assms] mset_eq_imp_distinct_iff by blast

end
