(* ===== verification/Heap_List.thy ===== *)
theory Heap_List
  imports Prelude
begin

text \<open>
  The array algorithms of Go's \<open>container/heap\<close> on a plain list over a linear order: sifting an
  element up and down, and when each repairs a heap that is broken at one position only. The
  ready queue (theory \<open>Ready_Queue\<close>) runs the same algorithms on a slice of pointers; its
  lemmas reduce to the ones here.
\<close>

definition parent :: "nat \<Rightarrow> nat" where
  "parent i = (i - 1) div 2"

definition exchange :: "'a list \<Rightarrow> nat \<Rightarrow> nat \<Rightarrow> 'a list" where
  "exchange xs i j = xs[i := xs ! j, j := xs ! i]"

lemma length_exchange [simp]: "length (exchange xs i j) = length xs"
  by (simp add: exchange_def)

lemma nth_exchange:
  "i < length xs \<Longrightarrow> j < length xs \<Longrightarrow> k < length xs \<Longrightarrow>
   exchange xs i j ! k = (if k = i then xs ! j else if k = j then xs ! i else xs ! k)"
  unfolding exchange_def by (rule swap_update_nth)

lemma mset_exchange [simp]:
  "i < length xs \<Longrightarrow> j < length xs \<Longrightarrow> mset (exchange xs i j) = mset xs"
  unfolding exchange_def by (rule mset_swap_update)

lemma parent_less: "0 < i \<Longrightarrow> parent i < i"
  by (auto simp: parent_def)

lemma parent_children: "parent (2 * i + 1) = i" "parent (2 * i + 2) = i"
  by (auto simp: parent_def)

lemma child_cases: "0 < c \<Longrightarrow> parent c = i \<Longrightarrow> c = 2 * i + 1 \<or> c = 2 * i + 2"
  by (auto simp: parent_def)

section \<open>Sifting\<close>

function sift_up :: "'a::linorder list \<Rightarrow> nat \<Rightarrow> 'a list" where
  "sift_up xs j =
     (if parent j = j \<or> \<not> xs ! j < xs ! parent j then xs
      else sift_up (exchange xs (parent j) j) (parent j))"
  by pat_completeness auto
termination
  by (relation "measure snd") (auto simp: parent_def)

function sift_down :: "'a::linorder list \<Rightarrow> nat \<Rightarrow> nat \<Rightarrow> 'a list \<times> nat" where
  "sift_down xs i n =
     (let j1 = 2 * i + 1 in
      if n \<le> j1 then (xs, i)
      else let j = (if j1 + 1 < n \<and> xs ! (j1 + 1) < xs ! j1 then j1 + 1 else j1) in
        if \<not> xs ! j < xs ! i then (xs, i) else sift_down (exchange xs i j) j n)"
  by pat_completeness auto
termination
  by (relation "measure (\<lambda>(xs, i, n). n - i)") (auto simp: Let_def split: if_splits)

declare sift_up.simps [simp del] sift_down.simps [simp del]

section \<open>Heaps with one defect\<close>

text \<open>The first \<open>n\<close> elements form a min-heap.\<close>

definition is_heap :: "'a::linorder list \<Rightarrow> nat \<Rightarrow> bool" where
  "is_heap xs n \<longleftrightarrow> (\<forall>c<n. 0 < c \<longrightarrow> xs ! parent c \<le> xs ! c)"

text \<open>Only the element at \<open>j\<close> may be smaller than its parent.\<close>

definition up_defect :: "'a::linorder list \<Rightarrow> nat \<Rightarrow> nat \<Rightarrow> bool" where
  "up_defect xs n j \<longleftrightarrow> j < n \<and>
     (\<forall>c<n. 0 < c \<and> c \<noteq> j \<longrightarrow> xs ! parent c \<le> xs ! c) \<and>
     (0 < j \<longrightarrow> (\<forall>c<n. 0 < c \<and> parent c = j \<longrightarrow> xs ! parent j \<le> xs ! c))"

text \<open>Only the element at \<open>i\<close> may be out of place, in either direction.\<close>

definition node_defect :: "'a::linorder list \<Rightarrow> nat \<Rightarrow> nat \<Rightarrow> bool" where
  "node_defect xs n i \<longleftrightarrow> i < n \<and>
     (\<forall>c<n. 0 < c \<and> c \<noteq> i \<and> parent c \<noteq> i \<longrightarrow> xs ! parent c \<le> xs ! c) \<and>
     (0 < i \<longrightarrow> (\<forall>c<n. 0 < c \<and> parent c = i \<longrightarrow> xs ! parent i \<le> xs ! c))"

lemma up_defect_step:
  assumes "up_defect xs n j" "n \<le> length xs" "parent j \<noteq> j" "xs ! j < xs ! parent j"
  shows "up_defect (exchange xs (parent j) j) n (parent j)"
proof -
  have j: "0 < j" "parent j < j" "j < n"
    using assms parent_less [of j] by (auto simp: up_defect_def parent_def)
  then have at: "k < n \<Longrightarrow> exchange xs (parent j) j ! k =
      (if k = parent j then xs ! j else if k = j then xs ! parent j else xs ! k)" for k
    using assms(2) by (simp add: nth_exchange)
  have keep: "xs ! parent c \<le> xs ! c" if "c < n" "0 < c" "c \<noteq> j" for c
    using assms(1) that by (auto simp: up_defect_def)
  have below: "xs ! parent j \<le> xs ! c" if "c < n" "0 < c" "parent c = j" for c
    using assms(1) that j by (auto simp: up_defect_def)
  have 1: "exchange xs (parent j) j ! parent c \<le> exchange xs (parent j) j ! c"
    if c: "c < n" "0 < c" "c \<noteq> parent j" for c
  proof -
    have pc: "parent c < n" using c parent_less [of c] by linarith
    show ?thesis
      using assms(4) keep [OF c(1,2)] below [OF c(1,2)] c
      by (auto simp: at [OF pc] at [OF c(1)] less_imp_le
          intro: order_trans [OF less_imp_le [OF assms(4)]])
  qed
  have 2: "exchange xs (parent j) j ! parent (parent j) \<le> exchange xs (parent j) j ! c"
    if c: "0 < parent j" "c < n" "0 < c" "parent c = parent j" for c
  proof -
    have ppj: "parent (parent j) < parent j" using parent_less c(1) by blast
    then have "exchange xs (parent j) j ! parent (parent j) = xs ! parent (parent j)"
      using j at [of "parent (parent j)"] by auto
    moreover have "xs ! parent (parent j) \<le> xs ! parent j"
      using keep [of "parent j"] j c(1) by auto
    moreover have "xs ! parent j \<le> exchange xs (parent j) j ! c"
      using c keep [of c] at [OF c(2)] parent_less [of c] by auto
    ultimately show ?thesis by (auto intro: order_trans)
  qed
  show ?thesis
    using j 1 2 by (auto simp: up_defect_def)
qed

lemma sift_up_correct:
  "up_defect xs n j \<Longrightarrow> n \<le> length xs \<Longrightarrow>
   is_heap (sift_up xs j) n \<and> mset (sift_up xs j) = mset xs \<and> length (sift_up xs j) = length xs \<and>
   (\<forall>k \<ge> n. k < length xs \<longrightarrow> sift_up xs j ! k = xs ! k)"
proof (induction xs j rule: sift_up.induct)
  case (1 xs j)
  show ?case
  proof (cases "parent j = j \<or> \<not> xs ! j < xs ! parent j")
    case True
    then have "is_heap xs n"
      using 1(2) by (auto simp: is_heap_def up_defect_def parent_def)
    with True show ?thesis by (simp add: sift_up.simps [of xs j])
  next
    case False
    have j: "j < n" "parent j < j"
      using 1(2) False parent_less [of j] by (auto simp: up_defect_def parent_def)
    have "up_defect (exchange xs (parent j) j) n (parent j)"
      using up_defect_step 1(2,3) False by blast
    with 1(1) [OF False] 1(3) j show ?thesis
      using False by (auto simp: sift_up.simps [of xs j] nth_exchange)
  qed
qed

lemma node_defect_step:
  assumes d: "node_defect xs n i" and n: "n \<le> length xs"
    and j: "0 < j" "j < n" "parent j = i" "xs ! j < xs ! i"
    and least: "\<And>c. c < n \<Longrightarrow> 0 < c \<Longrightarrow> parent c = i \<Longrightarrow> xs ! j \<le> xs ! c"
  shows "node_defect (exchange xs i j) n j"
    and "exchange xs i j ! parent j \<le> exchange xs i j ! j"
proof -
  have i: "i < j" using parent_less j by blast
  have at: "k < n \<Longrightarrow> exchange xs i j ! k =
      (if k = i then xs ! j else if k = j then xs ! i else xs ! k)" for k
    using n i j(2) by (simp add: nth_exchange)
  have keep: "xs ! parent c \<le> xs ! c" if "c < n" "0 < c" "c \<noteq> i" "parent c \<noteq> i" for c
    using d that by (auto simp: node_defect_def)
  have below: "xs ! parent i \<le> xs ! c" if "0 < i" "c < n" "0 < c" "parent c = i" for c
    using d that by (auto simp: node_defect_def)
  have "exchange xs i j ! parent c \<le> exchange xs i j ! c"
    if c: "c < n" "0 < c" "c \<noteq> j" "parent c \<noteq> j" for c
  proof -
    have pc: "parent c < n" "parent c < c" using c parent_less [of c] by auto
    show ?thesis
      using c pc keep [OF c(1,2)] least [OF c(1,2)] below [of j] j i
      by (auto simp: at [OF pc(1)] at [OF c(1)])
  qed
  moreover have "exchange xs i j ! parent j \<le> exchange xs i j ! c"
    if c: "c < n" "0 < c" "parent c = j" for c
    using c keep [of c] at [of c] at [of i] parent_less [of c] i j by auto
  ultimately show "node_defect (exchange xs i j) n j"
    using j(2) by (auto simp: node_defect_def)
  show "exchange xs i j ! parent j \<le> exchange xs i j ! j"
    using j i at [of i] at [of j] by auto
qed

text \<open>The child \<open>sift_down\<close> looks at: the smaller one.\<close>

definition lesser_child :: "'a::linorder list \<Rightarrow> nat \<Rightarrow> nat \<Rightarrow> nat" where
  "lesser_child xs i n =
     (if 2 * i + 2 < n \<and> xs ! (2 * i + 2) < xs ! (2 * i + 1) then 2 * i + 2 else 2 * i + 1)"

lemma sift_down_unfold:
  "sift_down xs i n =
     (if n \<le> 2 * i + 1 \<or> \<not> xs ! lesser_child xs i n < xs ! i then (xs, i)
      else sift_down (exchange xs i (lesser_child xs i n)) (lesser_child xs i n) n)"
  by (subst sift_down.simps) (simp add: lesser_child_def Let_def)

lemma lesser_child_props:
  assumes "2 * i + 1 < n"
  shows "0 < lesser_child xs i n" "lesser_child xs i n < n" "parent (lesser_child xs i n) = i"
    "i < lesser_child xs i n"
  using assms parent_children [of i] by (auto simp: lesser_child_def)

lemma lesser_child_least:
  assumes "c < n" "0 < c" "parent c = i"
  shows "xs ! lesser_child xs i n \<le> xs ! c"
  using child_cases [OF assms(2,3)] assms(1) by (auto simp: lesser_child_def)

lemma lesser_child_stop:
  assumes "n \<le> 2 * i + 1 \<or> \<not> xs ! lesser_child xs i n < xs ! i" "c < n" "0 < c" "parent c = i"
  shows "xs ! i \<le> xs ! c"
  using assms(1) child_cases [OF assms(3,4)] assms(2)
    order_trans [OF _ lesser_child_least [OF assms(2-4)], of "xs ! i" xs]
  by (auto simp: not_less)

lemma sift_down_frame:
  "n \<le> length xs \<Longrightarrow>
   mset (fst (sift_down xs i n)) = mset xs \<and> length (fst (sift_down xs i n)) = length xs \<and>
   i \<le> snd (sift_down xs i n) \<and>
   (\<forall>k \<ge> n. k < length xs \<longrightarrow> fst (sift_down xs i n) ! k = xs ! k)"
proof (induction "n - i" arbitrary: xs i rule: less_induct)
  case less
  let ?j = "lesser_child xs i n"
  show ?case
  proof (cases "n \<le> 2 * i + 1 \<or> \<not> xs ! ?j < xs ! i")
    case True
    then show ?thesis by (simp add: sift_down_unfold [of xs i n])
  next
    case False
    then have j: "?j < n" "i < ?j" using lesser_child_props [of i n xs] by auto
    then have "n - ?j < n - i" by linarith
    from less(1) [OF this, of "exchange xs i ?j"] less(2) j show ?thesis
      using False by (auto simp: sift_down_unfold [of xs i n] nth_exchange)
  qed
qed

lemma sift_down_heap:
  "node_defect xs n i \<Longrightarrow> n \<le> length xs \<Longrightarrow> (0 < i \<Longrightarrow> xs ! parent i \<le> xs ! i) \<Longrightarrow>
   is_heap (fst (sift_down xs i n)) n"
proof (induction "n - i" arbitrary: xs i rule: less_induct)
  case less
  let ?j = "lesser_child xs i n"
  show ?case
  proof (cases "n \<le> 2 * i + 1 \<or> \<not> xs ! ?j < xs ! i")
    case True
    have "xs ! i \<le> xs ! c" if "c < n" "0 < c" "parent c = i" for c
      using True that by (rule lesser_child_stop)
    then have "is_heap xs n"
      using less(2,4) unfolding is_heap_def node_defect_def by (metis neq0_conv)
    with True show ?thesis by (simp add: sift_down_unfold [of xs i n])
  next
    case False
    then have j: "0 < ?j" "?j < n" "parent ?j = i" "i < ?j" "xs ! ?j < xs ! i"
      using lesser_child_props [of i n xs] by auto
    have "node_defect (exchange xs i ?j) n ?j"
      and "exchange xs i ?j ! parent ?j \<le> exchange xs i ?j ! ?j"
      using node_defect_step [OF less(2,3) j(1,2,3,5)] lesser_child_least False by auto
    with less(1) [of ?j "exchange xs i ?j"] less(3) j show ?thesis
      using False by (auto simp: sift_down_unfold [of xs i n])
  qed
qed

text \<open>
  \<open>heap.Remove\<close> and \<open>heap.Fix\<close> sift down and, only when nothing moved, up: together they repair any
  single misplaced element.
\<close>

lemma sift_down_moved:
  assumes "node_defect xs n i" "n \<le> length xs" "snd (sift_down xs i n) \<noteq> i"
  shows "is_heap (fst (sift_down xs i n)) n"
proof -
  let ?j = "lesser_child xs i n"
  have c: "\<not> (n \<le> 2 * i + 1 \<or> \<not> xs ! ?j < xs ! i)"
    using assms(3) by (auto simp: sift_down_unfold [of xs i n] split: if_splits)
  then have j: "0 < ?j" "?j < n" "parent ?j = i" "xs ! ?j < xs ! i"
    using lesser_child_props [of i n xs] by auto
  have "node_defect (exchange xs i ?j) n ?j"
    and "exchange xs i ?j ! parent ?j \<le> exchange xs i ?j ! ?j"
    using node_defect_step [OF assms(1,2) j] lesser_child_least c by auto
  with c assms(2) show ?thesis
    by (auto simp: sift_down_unfold [of xs i n] intro: sift_down_heap)
qed

lemma sift_down_stay:
  assumes "node_defect xs n i" "snd (sift_down xs i n) = i" "n \<le> length xs"
  shows "fst (sift_down xs i n) = xs" and "up_defect xs n i"
proof -
  let ?j = "lesser_child xs i n"
  have c: "n \<le> 2 * i + 1 \<or> \<not> xs ! ?j < xs ! i"
  proof (rule ccontr)
    assume *: "\<not> ?thesis"
    then have "i < ?j" using lesser_child_props [of i n xs] by auto
    also have "?j \<le> snd (sift_down (exchange xs i ?j) ?j n)"
      using sift_down_frame [of n "exchange xs i ?j" ?j] assms(3) by simp
    finally show False using * assms(2) by (simp add: sift_down_unfold [of xs i n])
  qed
  then show "fst (sift_down xs i n) = xs" by (simp add: sift_down_unfold [of xs i n])
  have "xs ! i \<le> xs ! c" if "c < n" "0 < c" "parent c = i" for c
    using c that by (rule lesser_child_stop)
  then show "up_defect xs n i"
    using assms(1) unfolding up_defect_def node_defect_def by metis
qed

lemma is_heap_least:
  "is_heap xs n \<Longrightarrow> k < n \<Longrightarrow> xs ! 0 \<le> xs ! k"
proof (induction k rule: less_induct)
  case (less k)
  show ?case
  proof (cases "k = 0")
    case False
    then have "parent k < k" using parent_less by auto
    then have "xs ! 0 \<le> xs ! parent k" using less by auto
    also have "\<dots> \<le> xs ! k" using less False by (auto simp: is_heap_def)
    finally show ?thesis .
  qed simp
qed

lemma is_heap_mono: "is_heap xs n \<Longrightarrow> m \<le> n \<Longrightarrow> is_heap xs m"
  by (simp add: is_heap_def)

lemma is_heap_cong:
  "is_heap xs n \<Longrightarrow> (\<And>k. k < n \<Longrightarrow> ys ! k = xs ! k) \<Longrightarrow> is_heap ys n"
  unfolding is_heap_def by (metis order.strict_trans parent_less)

lemma up_defect_append:
  assumes "is_heap xs (length xs)"
  shows "up_defect (xs @ [x]) (Suc (length xs)) (length xs)"
proof -
  have "(xs @ [x]) ! parent c \<le> (xs @ [x]) ! c" if "c < length xs" "0 < c" for c
    using assms that parent_less [of c] by (auto simp: is_heap_def nth_append)
  moreover have "parent c \<noteq> length xs" if "c < Suc (length xs)" "0 < c" for c
    using parent_less [of c] that by linarith
  ultimately show ?thesis by (auto simp: up_defect_def less_Suc_eq)
qed

lemma node_defect_replace:
  assumes "is_heap xs n" "i < n" "n \<le> length xs"
  shows "node_defect (xs[i := x]) n i"
proof -
  have heap: "c < n \<Longrightarrow> 0 < c \<Longrightarrow> xs ! parent c \<le> xs ! c" for c
    using assms(1) by (simp add: is_heap_def)
  have "xs ! parent i \<le> xs ! c" if "0 < i" "c < n" "0 < c" "parent c = i" for c
    using heap [of i] heap [of c] that assms(2) by (auto intro: order_trans)
  moreover have "parent c \<noteq> c" if "0 < c" for c
    using parent_less [of c] that by auto
  ultimately show ?thesis
    using heap assms(2) unfolding node_defect_def by (metis nth_list_update_neq)
qed

lemma node_defect_cong:
  assumes "node_defect xs n i" "\<And>k. k < n \<Longrightarrow> ys ! k = xs ! k"
  shows "node_defect ys n i"
proof -
  have p: "ys ! parent c = xs ! parent c" if "c < n" for c
    using that assms(2) [of "parent c"] by (simp add: parent_def)
  have i: "i < n" using assms(1) by (simp add: node_defect_def)
  show ?thesis
    using assms(1) i by (simp add: node_defect_def p assms(2))
qed

text \<open>Moving the last element into the hole at \<open>i\<close> leaves a heap with a defect at \<open>i\<close>.\<close>

lemma node_defect_exchange_last:
  assumes "is_heap xs (length xs)" "i < n" "length xs = Suc n"
  shows "node_defect (exchange xs i n) n i"
proof (rule node_defect_cong)
  show "node_defect (xs[i := xs ! n]) n i"
    using assms by (intro node_defect_replace) (auto intro: is_heap_mono [OF assms(1)])
  show "exchange xs i n ! k = xs[i := xs ! n] ! k" if "k < n" for k
    using assms that by (auto simp: nth_exchange nth_list_update)
qed

end
