(* ===== verification/Ready_Queue.thy ===== *)
theory Ready_Queue
  imports Heap_List "HOL-Library.Product_Lexorder"
begin

text \<open>
  The scheduler's ready queue (\<open>internal/queue/queue.go\<close>) over Go's \<open>container/heap\<close>.

  The Go code keeps a slice of pointers to items, and a second set of pointers to the same items
  in the map \<open>byID\<close>; \<open>Remove\<close> reads the position of an item through the map and relies on
  every swap in the slice having written it. The model keeps that aliasing explicit: \<open>pq_mem\<close> is
  the memory the pointers (addresses) point into, \<open>pq_h\<close> the slice and \<open>pq_byID\<close> the map. The
  mutex makes each exported method atomic; each is one function here.

  The lemmas show that the invariant \<open>pq_inv\<close> holds of \<open>New\<close> and is kept by every method, that
  the queue refines a finite map from job IDs to keys (locale \<open>ready_queue\<close>, interpreted on the
  heap), and that \<open>Pop\<close> takes the least key: highest priority, then oldest, then smallest ID.
\<close>

section \<open>Items and their order\<close>

record item =
  it_jobID :: string
  it_priority :: int
  it_createdAt :: time
  it_index :: int

record pqueue =
  pq_mem :: "nat \<Rightarrow> item"
  pq_next :: nat
  pq_h :: "nat list"
  pq_byID :: "string \<rightharpoonup> nat"

definition item_less :: "item \<Rightarrow> item \<Rightarrow> bool" where
  "item_less a b =
     (if it_priority a \<noteq> it_priority b then it_priority a > it_priority b
      else if it_createdAt a \<noteq> it_createdAt b then it_createdAt a < it_createdAt b
      else it_jobID a < it_jobID b)"

section \<open>The heap interface\<close>

abbreviation item_at :: "pqueue \<Rightarrow> nat \<Rightarrow> item" where
  "item_at q i \<equiv> pq_mem q (pq_h q ! i)"

definition innerHeap_Len :: "pqueue \<Rightarrow> nat" where
  "innerHeap_Len q = length (pq_h q)"

definition innerHeap_Less :: "pqueue \<Rightarrow> nat \<Rightarrow> nat \<Rightarrow> bool" where
  "innerHeap_Less q i j = item_less (item_at q i) (item_at q j)"

definition set_index :: "nat \<Rightarrow> int \<Rightarrow> (nat \<Rightarrow> item) \<Rightarrow> nat \<Rightarrow> item" where
  "set_index a i m = m(a := (m a)\<lparr>it_index := i\<rparr>)"

definition innerHeap_Swap :: "pqueue \<Rightarrow> nat \<Rightarrow> nat \<Rightarrow> pqueue" where
  "innerHeap_Swap q i j =
     (let h' = (pq_h q)[i := pq_h q ! j, j := pq_h q ! i]
      in q\<lparr>pq_h := h', pq_mem := set_index (h' ! j) (int j) (set_index (h' ! i) (int i) (pq_mem q))\<rparr>)"

definition innerHeap_Push :: "pqueue \<Rightarrow> nat \<Rightarrow> pqueue" where
  "innerHeap_Push q a =
     q\<lparr>pq_mem := set_index a (int (length (pq_h q))) (pq_mem q), pq_h := pq_h q @ [a]\<rparr>"

definition innerHeap_Pop :: "pqueue \<Rightarrow> nat \<times> pqueue" where
  "innerHeap_Pop q =
     (let n = length (pq_h q); it = pq_h q ! (n - 1)
      in (it, q\<lparr>pq_mem := set_index it (- 1) (pq_mem q), pq_h := take (n - 1) (pq_h q)\<rparr>))"

section \<open>Go's container/heap\<close>

text \<open>
  \<open>up\<close>, \<open>down\<close>, \<open>Push\<close>, \<open>Pop\<close> and \<open>Remove\<close> of the standard library. In \<open>up\<close>, Go computes the
  parent \<open>(j - 1) / 2\<close> on signed integers, truncating towards zero, so the parent of the root is
  the root, as with natural numbers here. \<open>down\<close> returns the final position; Go returns whether
  it is beyond the first.
\<close>

function heap_up :: "pqueue \<Rightarrow> nat \<Rightarrow> pqueue" where
  "heap_up q j =
     (let i = (j - 1) div 2 in
      if i = j \<or> \<not> innerHeap_Less q j i then q else heap_up (innerHeap_Swap q i j) i)"
  by pat_completeness auto
termination
  by (relation "measure snd") auto

function heap_down :: "pqueue \<Rightarrow> nat \<Rightarrow> nat \<Rightarrow> pqueue \<times> nat" where
  "heap_down q i n =
     (let j1 = 2 * i + 1 in
      if n \<le> j1 then (q, i)
      else let j = (if j1 + 1 < n \<and> innerHeap_Less q (j1 + 1) j1 then j1 + 1 else j1) in
        if \<not> innerHeap_Less q j i then (q, i) else heap_down (innerHeap_Swap q i j) j n)"
  by pat_completeness auto
termination
  by (relation "measure (\<lambda>(q, i, n). n - i)") (auto simp: Let_def split: if_splits)

declare heap_up.simps [simp del] heap_down.simps [simp del]

definition heap_Push :: "pqueue \<Rightarrow> nat \<Rightarrow> pqueue" where
  "heap_Push q a = (let q' = innerHeap_Push q a in heap_up q' (innerHeap_Len q' - 1))"

definition heap_Pop :: "pqueue \<Rightarrow> nat \<times> pqueue" where
  "heap_Pop q =
     (let n = innerHeap_Len q - 1 in innerHeap_Pop (fst (heap_down (innerHeap_Swap q 0 n) 0 n)))"

definition heap_Remove :: "pqueue \<Rightarrow> nat \<Rightarrow> nat \<times> pqueue" where
  "heap_Remove q i =
     (let n = innerHeap_Len q - 1;
          q' = (if n \<noteq> i
                then (let (q1, k) = heap_down (innerHeap_Swap q i n) i n
                      in if \<not> i < k then heap_up q1 i else q1)
                else q)
      in innerHeap_Pop q')"

section \<open>PriorityQueue\<close>

definition PQ_New :: pqueue where
  "PQ_New = \<lparr>pq_mem = (\<lambda>_. \<lparr>it_jobID = '''', it_priority = 0, it_createdAt = 0, it_index = 0\<rparr>),
             pq_next = 0, pq_h = [], pq_byID = Map.empty\<rparr>"

definition PQ_Push :: "string \<Rightarrow> int \<Rightarrow> time \<Rightarrow> pqueue \<Rightarrow> bool \<times> pqueue" where
  "PQ_Push jobID priority createdAt q =
     (case pq_byID q jobID of
        Some _ \<Rightarrow> (False, q)
      | None \<Rightarrow>
          (let a = pq_next q;
               it = \<lparr>it_jobID = jobID, it_priority = priority, it_createdAt = createdAt, it_index = 0\<rparr>;
               q1 = heap_Push (q\<lparr>pq_mem := (pq_mem q)(a := it), pq_next := Suc a\<rparr>) a
           in (True, q1\<lparr>pq_byID := (pq_byID q1)(jobID \<mapsto> a)\<rparr>)))"

definition PQ_Pop :: "pqueue \<Rightarrow> string option \<times> pqueue" where
  "PQ_Pop q =
     (if innerHeap_Len q = 0 then (None, q)
      else let (a, q1) = heap_Pop q; jobID = it_jobID (pq_mem q1 a)
           in (Some jobID, q1\<lparr>pq_byID := (pq_byID q1)(jobID := None)\<rparr>))"

definition PQ_Remove :: "string \<Rightarrow> pqueue \<Rightarrow> bool \<times> pqueue" where
  "PQ_Remove jobID q =
     (case pq_byID q jobID of
        None \<Rightarrow> (False, q)
      | Some a \<Rightarrow>
          (let q1 = snd (heap_Remove q (nat (it_index (pq_mem q a))))
           in (True, q1\<lparr>pq_byID := (pq_byID q1)(jobID := None)\<rparr>)))"

definition PQ_Contains :: "string \<Rightarrow> pqueue \<Rightarrow> bool" where
  "PQ_Contains jobID q = (case pq_byID q jobID of None \<Rightarrow> False | Some _ \<Rightarrow> True)"

definition PQ_Len :: "pqueue \<Rightarrow> nat" where
  "PQ_Len q = innerHeap_Len q"

definition PQ_Clear :: "pqueue \<Rightarrow> pqueue" where
  "PQ_Clear q = q\<lparr>pq_h := [], pq_byID := Map.empty\<rparr>"

section \<open>Keys\<close>

text \<open>The order of \<open>Less\<close> is the lexicographic order of a key that determines the job ID.\<close>

type_synonym key = "int \<times> int \<times> string"

definition item_key :: "item \<Rightarrow> key" where
  "item_key it = (- it_priority it, it_createdAt it, it_jobID it)"

definition keys :: "pqueue \<Rightarrow> key list" where
  "keys q = map (\<lambda>a. item_key (pq_mem q a)) (pq_h q)"

lemma item_less_key: "item_less a b \<longleftrightarrow> item_key a < item_key b"
  by (auto simp: item_less_def item_key_def less_prod_def)

lemma length_keys [simp]: "length (keys q) = length (pq_h q)"
  by (simp add: keys_def)

lemma Less_keys:
  "i < length (pq_h q) \<Longrightarrow> j < length (pq_h q) \<Longrightarrow> innerHeap_Less q i j \<longleftrightarrow> keys q ! i < keys q ! j"
  by (simp add: innerHeap_Less_def item_less_key keys_def)

lemma item_key_set_index [simp]: "item_key (set_index a i m b) = item_key (m b)"
  by (simp add: set_index_def item_key_def)

lemma it_jobID_key: "it_jobID it = snd (snd (item_key it))"
  by (simp add: item_key_def)

lemma keys_Swap:
  "i < length (pq_h q) \<Longrightarrow> j < length (pq_h q) \<Longrightarrow> keys (innerHeap_Swap q i j) = exchange (keys q) i j"
  by (simp add: keys_def innerHeap_Swap_def Let_def exchange_def map_update)

lemma length_Swap [simp]: "length (pq_h (innerHeap_Swap q i j)) = length (pq_h q)"
  by (simp add: innerHeap_Swap_def Let_def)

section \<open>The invariant\<close>

text \<open>The slice has no pointer twice and every item knows its position.\<close>

definition idx_ok :: "pqueue \<Rightarrow> bool" where
  "idx_ok q \<longleftrightarrow> distinct (pq_h q) \<and> (\<forall>i<length (pq_h q). it_index (item_at q i) = int i)"

definition pq_inv :: "pqueue \<Rightarrow> bool" where
  "pq_inv q \<longleftrightarrow>
     idx_ok q \<and> is_heap (keys q) (length (pq_h q)) \<and>
     (\<forall>k a. pq_byID q k = Some a \<longleftrightarrow> a \<in> set (pq_h q) \<and> it_jobID (pq_mem q a) = k) \<and>
     (\<forall>a \<in> set (pq_h q). a < pq_next q)"

text \<open>What the sifting of the heap leaves alone: everything but the order of the slice.\<close>

definition rearranged :: "pqueue \<Rightarrow> pqueue \<Rightarrow> bool" where
  "rearranged q q' \<longleftrightarrow>
     pq_next q' = pq_next q \<and> pq_byID q' = pq_byID q \<and>
     set (pq_h q') = set (pq_h q) \<and> length (pq_h q') = length (pq_h q) \<and>
     (\<forall>a. item_key (pq_mem q' a) = item_key (pq_mem q a)) \<and> (idx_ok q \<longrightarrow> idx_ok q')"

lemma rearranged_refl [simp]: "rearranged q q"
  by (simp add: rearranged_def)

lemma rearranged_trans: "rearranged p q \<Longrightarrow> rearranged q r \<Longrightarrow> rearranged p r"
  by (auto simp: rearranged_def)

lemma idx_ok_Swap:
  assumes "idx_ok q" "i < length (pq_h q)" "j < length (pq_h q)"
  shows "idx_ok (innerHeap_Swap q i j)"
proof -
  let ?h = "(pq_h q)[i := pq_h q ! j, j := pq_h q ! i]"
  have d: "distinct ?h" using assms by (simp add: idx_ok_def distinct_swap_update)
  have "it_index (item_at (innerHeap_Swap q i j) k) = int k" if k: "k < length (pq_h q)" for k
  proof (cases "k = i \<or> k = j")
    case True
    then show ?thesis
      using d assms(2,3) by (auto simp: innerHeap_Swap_def Let_def set_index_def nth_list_update
          nth_eq_iff_index_eq split: if_splits)
  next
    case False
    then have "?h ! k \<noteq> ?h ! i" "?h ! k \<noteq> ?h ! j"
      using d assms(2,3) k by (metis length_list_update nth_eq_iff_index_eq)+
    then show ?thesis
      using False assms k by (auto simp: innerHeap_Swap_def Let_def set_index_def idx_ok_def)
  qed
  then show ?thesis using d by (simp add: idx_ok_def innerHeap_Swap_def Let_def)
qed

lemma rearranged_Swap:
  "i < length (pq_h q) \<Longrightarrow> j < length (pq_h q) \<Longrightarrow> rearranged q (innerHeap_Swap q i j)"
  using set_swap_update [of i "pq_h q" j] idx_ok_Swap
  by (simp add: rearranged_def innerHeap_Swap_def Let_def)

text \<open>On the keys, the heap code is the sifting of theory \<open>Heap_List\<close>.\<close>

lemma heap_up_sift:
  "j < length (pq_h q) \<Longrightarrow> rearranged q (heap_up q j) \<and> keys (heap_up q j) = sift_up (keys q) j"
proof (induction q j rule: heap_up.induct)
  case (1 q j)
  let ?i = "(j - 1) div 2"
  have i: "?i < length (pq_h q)" using 1(2) by auto
  have less: "innerHeap_Less q j ?i \<longleftrightarrow> keys q ! j < keys q ! parent j"
    using Less_keys [OF 1(2) i] by (simp add: parent_def)
  show ?case
  proof (cases "?i = j \<or> \<not> innerHeap_Less q j ?i")
    case True
    then show ?thesis
      using less by (auto simp: heap_up.simps [of q j] sift_up.simps [of "keys q" j] Let_def parent_def)
  next
    case False
    have "rearranged q (innerHeap_Swap q ?i j)" using rearranged_Swap [OF i 1(2)] .
    moreover have "keys (innerHeap_Swap q ?i j) = exchange (keys q) (parent j) j"
      using keys_Swap [OF i 1(2)] by (simp add: parent_def)
    ultimately show ?thesis
      using 1(1) [OF refl False] False i less rearranged_trans
      by (simp add: heap_up.simps [of q j] sift_up.simps [of "keys q" j] Let_def parent_def)
  qed
qed

lemma heap_down_sift:
  "n \<le> length (pq_h q) \<Longrightarrow>
   rearranged q (fst (heap_down q i n)) \<and>
   keys (fst (heap_down q i n)) = fst (sift_down (keys q) i n) \<and>
   snd (heap_down q i n) = snd (sift_down (keys q) i n)"
proof (induction "n - i" arbitrary: q i rule: less_induct)
  case less
  let ?j = "lesser_child (keys q) i n"
  have step: "heap_down q i n =
     (if n \<le> 2 * i + 1 \<or> \<not> keys q ! ?j < keys q ! i then (q, i)
      else heap_down (innerHeap_Swap q i ?j) ?j n)"
    using less(2) Less_keys [of "2 * i + 2" q "2 * i + 1"] Less_keys [of ?j q i]
      lesser_child_props [of i n "keys q"]
    by (auto simp: heap_down.simps [of q i n] Let_def lesser_child_def)
  show ?case
  proof (cases "n \<le> 2 * i + 1 \<or> \<not> keys q ! ?j < keys q ! i")
    case True
    then show ?thesis by (simp add: step sift_down_unfold [of "keys q" i n])
  next
    case False
    then have j: "?j < n" "i < ?j" using lesser_child_props [of i n "keys q"] by auto
    then have "n - ?j < n - i" by linarith
    note IH = less(1) [OF this, of "innerHeap_Swap q i ?j"]
    have len: "i < length (pq_h q)" "?j < length (pq_h q)" using j less(2) by auto
    show ?thesis
      using IH less(2) False rearranged_Swap [OF len] keys_Swap [OF len]
      by (auto simp: step sift_down_unfold [of "keys q" i n] intro: rearranged_trans)
  qed
qed

section \<open>Correctness of the methods\<close>

text \<open>The queue as a map from job IDs to priority and creation time.\<close>

definition pq_abs :: "pqueue \<Rightarrow> string \<rightharpoonup> int \<times> time" where
  "pq_abs q k = map_option (\<lambda>a. (it_priority (pq_mem q a), it_createdAt (pq_mem q a))) (pq_byID q k)"

definition pq_key :: "string \<Rightarrow> int \<times> time \<Rightarrow> key" where
  "pq_key k pc = (- fst pc, snd pc, k)"

lemma pq_invD:
  assumes "pq_inv q"
  shows "idx_ok q" "is_heap (keys q) (length (pq_h q))"
    "pq_byID q k = Some a \<longleftrightarrow> a \<in> set (pq_h q) \<and> it_jobID (pq_mem q a) = k"
    "a \<in> set (pq_h q) \<Longrightarrow> a < pq_next q"
  using assms by (auto simp: pq_inv_def)

lemma rearranged_abs: "rearranged q q' \<Longrightarrow> pq_abs q' = pq_abs q"
  by (rule ext) (auto simp: pq_abs_def rearranged_def item_key_def option.map_comp intro!: option.map_cong)

lemma rearranged_jobID: "rearranged q q' \<Longrightarrow> it_jobID (pq_mem q' a) = it_jobID (pq_mem q a)"
  by (simp add: rearranged_def it_jobID_key)

lemma pq_inv_New [simp]: "pq_inv PQ_New" and pq_abs_New [simp]: "pq_abs PQ_New = Map.empty"
  by (auto simp: PQ_New_def pq_inv_def idx_ok_def keys_def is_heap_def pq_abs_def)

lemma pq_inv_Clear [simp]: "pq_inv (PQ_Clear q)" and pq_abs_Clear [simp]: "pq_abs (PQ_Clear q) = Map.empty"
  by (auto simp: PQ_Clear_def pq_inv_def idx_ok_def keys_def is_heap_def pq_abs_def)

lemma PQ_Push_present: "pq_abs q k \<noteq> None \<Longrightarrow> PQ_Push k p c q = (False, q)"
  by (auto simp: PQ_Push_def pq_abs_def split: option.splits)

lemma PQ_Push_absent:
  assumes inv: "pq_inv q" and new: "pq_abs q k = None"
  shows "fst (PQ_Push k p c q)" "pq_inv (snd (PQ_Push k p c q))"
    "pq_abs (snd (PQ_Push k p c q)) = (pq_abs q)(k \<mapsto> (p, c))"
proof -
  define a where "a = pq_next q"
  define it where "it = \<lparr>it_jobID = k, it_priority = p, it_createdAt = c, it_index = 0\<rparr>"
  define q1 where "q1 = innerHeap_Push (q\<lparr>pq_mem := (pq_mem q)(a := it), pq_next := Suc a\<rparr>) a"
  define q2 where "q2 = heap_up q1 (length (pq_h q))"
  have none: "pq_byID q k = None" using new by (simp add: pq_abs_def)
  have push: "PQ_Push k p c q = (True, q2\<lparr>pq_byID := (pq_byID q2)(k \<mapsto> a)\<rparr>)"
    by (simp add: PQ_Push_def none heap_Push_def Let_def innerHeap_Len_def innerHeap_Push_def
        q1_def q2_def a_def it_def)
  note I = pq_invD [OF inv]
  have fresh: "a \<notin> set (pq_h q)" using I(4) by (auto simp: a_def)
  have other: "it_jobID (pq_mem q b) \<noteq> k" if "b \<in> set (pq_h q)" for b
    using I(3) [of k b] none that by auto
  have q1: "pq_h q1 = pq_h q @ [a]" "pq_byID q1 = pq_byID q" "pq_next q1 = Suc (pq_next q)"
    by (simp_all add: q1_def a_def innerHeap_Push_def)
  have mem: "pq_mem q1 b = pq_mem q b" if "b \<in> set (pq_h q)" for b
    using that fresh by (auto simp: q1_def innerHeap_Push_def set_index_def)
  have mema: "it_jobID (pq_mem q1 a) = k" "it_priority (pq_mem q1 a) = p"
    "it_createdAt (pq_mem q1 a) = c" "it_index (pq_mem q1 a) = int (length (pq_h q))"
    by (simp_all add: q1_def it_def innerHeap_Push_def set_index_def)
  have idx: "idx_ok q1"
    using I(1) fresh mem mema(4) by (auto simp: idx_ok_def q1 nth_append less_Suc_eq)
  have "keys q1 = keys q @ [item_key (pq_mem q1 a)]"
    using mem by (simp add: keys_def q1)
  then have "up_defect (keys q1) (Suc (length (pq_h q))) (length (pq_h q))"
    using up_defect_append [of "keys q"] I(2) by simp
  then have heap: "is_heap (keys q2) (Suc (length (pq_h q)))"
    using sift_up_correct [of "keys q1"] heap_up_sift [of "length (pq_h q)" q1] q1
    by (simp add: q2_def)
  have re: "rearranged q1 q2"
    using heap_up_sift [of "length (pq_h q)" q1] q1 by (simp add: q2_def)
  have q2: "set (pq_h q2) = insert a (set (pq_h q))" "length (pq_h q2) = Suc (length (pq_h q))"
    "pq_byID q2 = pq_byID q" "pq_next q2 = Suc (pq_next q)" "idx_ok q2"
    using re q1 idx by (auto simp: rearranged_def)
  have link: "((pq_byID q2)(k \<mapsto> a)) i = Some b \<longleftrightarrow>
      b \<in> set (pq_h q2) \<and> it_jobID (pq_mem q2 b) = i" for i b
    using rearranged_jobID [OF re, of b] mem [of b] mema(1) I(3) [of i b] other [of b] fresh
    by (auto simp: q2)
  show "pq_inv (snd (PQ_Push k p c q))"
    using heap q2 link I(4) by (auto simp: pq_inv_def push idx_ok_def keys_def a_def less_Suc_eq)
  show "pq_abs (snd (PQ_Push k p c q)) = (pq_abs q)(k \<mapsto> (p, c))"
  proof
    fix i
    have "item_key (pq_mem q2 b) = item_key (pq_mem q1 b)" for b
      using re by (simp add: rearranged_def)
    then have "it_priority (pq_mem q2 b) = it_priority (pq_mem q1 b)"
      "it_createdAt (pq_mem q2 b) = it_createdAt (pq_mem q1 b)" for b
      by (auto simp: item_key_def)
    moreover have "pq_mem q1 b = pq_mem q b" if "pq_byID q i = Some b" for b
      using I(3) [of i b] that mem by simp
    ultimately show "pq_abs (snd (PQ_Push k p c q)) i = ((pq_abs q)(k \<mapsto> (p, c))) i"
      using mema(2,3) by (cases "pq_byID q i") (auto simp: push pq_abs_def q2)
  qed
  show "fst (PQ_Push k p c q)" by (simp add: push)
qed

text \<open>Dropping the last pointer of a rearranged queue and its map entry.\<close>

lemma drop_last:
  assumes inv: "pq_inv q" and re: "rearranged q q1"
    and len: "length (pq_h q) = Suc n" and heap: "is_heap (keys q1) n"
  defines "a \<equiv> pq_h q1 ! n" and "q2 \<equiv> snd (innerHeap_Pop q1)"
  shows "fst (innerHeap_Pop q1) = a" "it_jobID (pq_mem q2 a) = it_jobID (pq_mem q a)"
    "pq_inv (q2\<lparr>pq_byID := (pq_byID q2)(it_jobID (pq_mem q a) := None)\<rparr>)"
    "pq_abs (q2\<lparr>pq_byID := (pq_byID q2)(it_jobID (pq_mem q a) := None)\<rparr>) =
     (pq_abs q)(it_jobID (pq_mem q a) := None)"
proof -
  note I = pq_invD [OF inv]
  have len1: "length (pq_h q1) = Suc n" and set1: "set (pq_h q1) = set (pq_h q)"
    and idx1: "idx_ok q1" and fld: "pq_byID q1 = pq_byID q" "pq_next q1 = pq_next q"
    and key1: "\<And>b. item_key (pq_mem q1 b) = item_key (pq_mem q b)"
    using re len I(1) by (auto simp: rearranged_def)
  have q2: "pq_h q2 = take n (pq_h q1)" "pq_byID q2 = pq_byID q" "pq_next q2 = pq_next q"
    "pq_mem q2 = set_index a (- 1) (pq_mem q1)"
    by (simp_all add: q2_def a_def innerHeap_Pop_def Let_def len1 fld)
  have key2: "item_key (pq_mem q2 b) = item_key (pq_mem q b)" for b
    by (simp add: q2 key1)
  then have job2: "it_jobID (pq_mem q2 b) = it_jobID (pq_mem q b)" for b
    by (simp add: it_jobID_key)
  have split: "pq_h q1 = pq_h q2 @ [a]"
    using len1 by (simp add: q2 a_def take_Suc_conv_app_nth [symmetric])
  then have notin: "a \<notin> set (pq_h q2)" and set2: "set (pq_h q) = insert a (set (pq_h q2))"
    using idx1 set1 by (auto simp: idx_ok_def)
  have idx2: "idx_ok q2"
  proof -
    have "it_index (item_at q2 i) = int i" if "i < length (pq_h q2)" for i
    proof -
      have "pq_h q2 ! i \<noteq> a" using that notin nth_mem by metis
      then show ?thesis
        using that idx1 by (auto simp: idx_ok_def q2 set_index_def len1)
    qed
    then show ?thesis using idx1 split by (simp add: idx_ok_def)
  qed
  have kapp: "keys q1 = keys q2 @ [item_key (pq_mem q1 a)]"
    unfolding keys_def split by (simp add: key1 key2)
  have len2: "length (pq_h q2) = n" using len1 by (simp add: q2)
  have heap2: "is_heap (keys q2) (length (pq_h q2))"
    unfolding len2 by (rule is_heap_cong [OF heap]) (simp add: kapp nth_append len2)
  have link: "((pq_byID q2)(it_jobID (pq_mem q a) := None)) i = Some b \<longleftrightarrow>
      b \<in> set (pq_h q2) \<and> it_jobID (pq_mem q2 b) = i" for i b
  proof -
    have "b = a" if "b \<in> set (pq_h q)" "it_jobID (pq_mem q b) = it_jobID (pq_mem q a)"
      using I(3) [of "it_jobID (pq_mem q a)" a] I(3) [of "it_jobID (pq_mem q a)" b] that set2 by auto
    then show ?thesis using I(3) [of i b] notin by (auto simp: q2(2) job2 set2)
  qed
  show "pq_inv (q2\<lparr>pq_byID := (pq_byID q2)(it_jobID (pq_mem q a) := None)\<rparr>)"
    using idx2 heap2 link I(4) set2 by (auto simp: pq_inv_def idx_ok_def keys_def q2(3))
  show "fst (innerHeap_Pop q1) = a" by (simp add: innerHeap_Pop_def a_def Let_def len1)
  show "it_jobID (pq_mem q2 a) = it_jobID (pq_mem q a)" by (rule job2)
  have "it_priority (pq_mem q2 b) = it_priority (pq_mem q b)"
    "it_createdAt (pq_mem q2 b) = it_createdAt (pq_mem q b)" for b
    using key2 [of b] by (auto simp: item_key_def)
  then show "pq_abs (q2\<lparr>pq_byID := (pq_byID q2)(it_jobID (pq_mem q a) := None)\<rparr>) =
     (pq_abs q)(it_jobID (pq_mem q a) := None)"
    by (auto simp: pq_abs_def q2(2) fun_eq_iff)
qed

text \<open>
  \<open>heap.Pop\<close> and \<open>heap.Remove\<close> exchange the victim with the last pointer, repair the rest and drop
  the last pointer. The victim is recognised by its key.
\<close>

lemma heap_Pop_prepare:
  assumes inv: "pq_inv q" and len: "length (pq_h q) = Suc n"
  defines "q1 \<equiv> fst (heap_down (innerHeap_Swap q 0 n) 0 n)"
  shows "rearranged q q1" "is_heap (keys q1) n" "keys q1 ! n = keys q ! 0"
proof -
  let ?q0 = "innerHeap_Swap q 0 n"
  note I = pq_invD [OF inv]
  have b: "0 < length (pq_h q)" "n < length (pq_h q)" using len by auto
  have k0: "keys ?q0 = exchange (keys q) 0 n" using keys_Swap [OF b] .
  have d: "rearranged ?q0 q1" "keys q1 = fst (sift_down (keys ?q0) 0 n)"
    using heap_down_sift [of n ?q0 0] len by (auto simp: q1_def)
  show "rearranged q q1" using rearranged_trans [OF rearranged_Swap [OF b] d(1)] .
  show "is_heap (keys q1) n"
  proof (cases "n = 0")
    case False
    have "is_heap (keys q) (length (keys q))" using I(2) by simp
    then have "node_defect (keys ?q0) n 0"
      unfolding k0 using node_defect_exchange_last [of "keys q" 0 n] False len by simp
    then show ?thesis using sift_down_heap [of "keys ?q0" n 0] len by (simp add: d(2) k0)
  qed (simp add: is_heap_def)
  have "fst (sift_down (keys ?q0) 0 n) ! n = keys ?q0 ! n"
    using sift_down_frame [of n "keys ?q0" 0] len by (simp add: k0)
  then show "keys q1 ! n = keys q ! 0"
    using len by (simp add: d(2) k0 nth_exchange)
qed

lemma heap_Remove_prepare:
  assumes inv: "pq_inv q" and len: "length (pq_h q) = Suc n" and i: "i < Suc n"
  obtains q1 where "heap_Remove q i = innerHeap_Pop q1" "rearranged q q1"
    "is_heap (keys q1) n" "keys q1 ! n = keys q ! i"
proof (cases "i = n")
  case True
  have "heap_Remove q i = innerHeap_Pop q"
    using True len by (simp add: heap_Remove_def innerHeap_Len_def)
  moreover have "is_heap (keys q) n"
    using is_heap_mono [OF pq_invD(2) [OF inv]] len by simp
  ultimately show thesis using that [of q] True by simp
next
  case False
  then have i': "i < n" using i by simp
  define q0 where "q0 = innerHeap_Swap q i n"
  define q1 where "q1 = fst (heap_down q0 i n)"
  define k where "k = snd (heap_down q0 i n)"
  have b: "i < length (pq_h q)" "n < length (pq_h q)" using len i by auto
  have re0: "rearranged q q0" unfolding q0_def using rearranged_Swap [OF b] .
  then have len0: "length (pq_h q0) = Suc n" using len by (simp add: rearranged_def)
  have k0: "keys q0 = exchange (keys q) i n" unfolding q0_def using keys_Swap [OF b] .
  have nd: "node_defect (keys q0) n i"
    unfolding k0 using node_defect_exchange_last [of "keys q" i n] pq_invD(2) [OF inv] i' len by simp
  have d: "rearranged q0 q1" "keys q1 = fst (sift_down (keys q0) i n)" "k = snd (sift_down (keys q0) i n)"
    using heap_down_sift [of n q0 i] len0 by (auto simp: q1_def k_def)
  have fr: "i \<le> k" "keys q1 ! n = keys q0 ! n"
    using sift_down_frame [of n "keys q0" i] len0 by (auto simp: d(2,3))
  have last: "keys q0 ! n = keys q ! i" using len i' by (simp add: k0 nth_exchange)
  have rem: "heap_Remove q i = innerHeap_Pop (if \<not> i < k then heap_up q1 i else q1)"
    using False len by (simp add: heap_Remove_def innerHeap_Len_def Let_def q0_def q1_def k_def
        split: prod.splits)
  have re1: "rearranged q q1" using rearranged_trans [OF re0 d(1)] .
  show thesis
  proof (cases "i < k")
    case True
    then have "is_heap (keys q1) n"
      using sift_down_moved [OF nd] len0 by (simp add: d)
    then show thesis using that [of q1] rem True re1 fr(2) last by simp
  next
    case stay: False
    then have "k = i" using fr(1) by simp
    then have eq: "keys q1 = keys q0" and up: "up_defect (keys q0) n i"
      using sift_down_stay [OF nd] len0 by (auto simp: d)
    have len1: "length (pq_h q1) = Suc n" using d(1) len0 by (simp add: rearranged_def)
    have u: "rearranged q1 (heap_up q1 i)" "keys (heap_up q1 i) = sift_up (keys q0) i"
      using heap_up_sift [of i q1] len1 i' by (auto simp: eq)
    have "is_heap (keys (heap_up q1 i)) n" "keys (heap_up q1 i) ! n = keys q0 ! n"
      using sift_up_correct [OF up] len0 by (auto simp: u(2))
    then show thesis
      using that [of "heap_up q1 i"] rem stay rearranged_trans [OF re1 u(1)] last by simp
  qed
qed

lemma key_nth:
  assumes "pq_inv q" "i < length (pq_h q)"
  shows "pq_abs q (it_jobID (item_at q i)) = Some (it_priority (item_at q i), it_createdAt (item_at q i))"
    and "keys q ! i = pq_key (it_jobID (item_at q i)) (it_priority (item_at q i), it_createdAt (item_at q i))"
  using assms pq_invD(3) [OF assms(1), of "it_jobID (item_at q i)" "pq_h q ! i"]
  by (auto simp: pq_abs_def keys_def pq_key_def item_key_def)

lemma abs_nth:
  assumes "pq_inv q" "pq_abs q k = Some pc"
  obtains i where "i < length (pq_h q)" "keys q ! i = pq_key k pc" "it_jobID (item_at q i) = k"
    "pq_byID q k = Some (pq_h q ! i)"
proof -
  obtain a where a: "pq_byID q k = Some a"
    "pc = (it_priority (pq_mem q a), it_createdAt (pq_mem q a))"
    using assms(2) by (auto simp: pq_abs_def)
  then have "a \<in> set (pq_h q)" "it_jobID (pq_mem q a) = k" using pq_invD(3) [OF assms(1)] by auto
  then show thesis
    using a that by (auto simp: in_set_conv_nth keys_def pq_key_def item_key_def)
qed

lemma finite_pq_abs: "pq_inv q \<Longrightarrow> finite (dom (pq_abs q))"
proof -
  assume "pq_inv q"
  then have "dom (pq_abs q) \<subseteq> (\<lambda>a. it_jobID (pq_mem q a)) ` set (pq_h q)"
    by (auto simp: pq_abs_def pq_invD(3))
  then show ?thesis by (rule finite_subset) simp
qed

lemma PQ_Pop_empty: "pq_inv q \<Longrightarrow> pq_abs q = Map.empty \<Longrightarrow> PQ_Pop q = (None, q)"
  using key_nth(1) [of q 0] by (auto simp: PQ_Pop_def innerHeap_Len_def)

lemma PQ_Pop_nonempty:
  assumes inv: "pq_inv q" and ne: "pq_abs q \<noteq> Map.empty"
  obtains k pc where "PQ_Pop q = (Some k, snd (PQ_Pop q))" "pq_abs q k = Some pc"
    "\<And>k' pc'. pq_abs q k' = Some pc' \<Longrightarrow> pq_key k pc \<le> pq_key k' pc'"
    "pq_inv (snd (PQ_Pop q))" "pq_abs (snd (PQ_Pop q)) = (pq_abs q)(k := None)"
proof -
  obtain k0 pc0 where k0: "pq_abs q k0 = Some pc0" using ne by fastforce
  obtain i0 where "i0 < length (pq_h q)" using abs_nth [OF inv k0] by blast
  then obtain n where len: "length (pq_h q) = Suc n" by (cases "length (pq_h q)") auto
  define q1 where "q1 = fst (heap_down (innerHeap_Swap q 0 n) 0 n)"
  note P = heap_Pop_prepare [OF inv len, folded q1_def]
  note D = drop_last [OF inv P(1) len P(2)]
  let ?k = "it_jobID (pq_mem q (pq_h q1 ! n))"
  have len1: "length (pq_h q1) = Suc n" using P(1) len by (simp add: rearranged_def)
  have "keys q1 ! n = item_key (pq_mem q (pq_h q1 ! n))"
    using P(1) len1 by (simp add: keys_def rearranged_def)
  then have key: "keys q ! 0 = item_key (pq_mem q (pq_h q1 ! n))" using P(3) by simp
  then have k: "?k = it_jobID (item_at q 0)"
    using len by (simp add: keys_def it_jobID_key)
  have pop: "PQ_Pop q = (Some ?k, (snd (innerHeap_Pop q1))\<lparr>pq_byID :=
      (pq_byID (snd (innerHeap_Pop q1)))(?k := None)\<rparr>)"
    using len D(1,2) by (simp add: PQ_Pop_def heap_Pop_def innerHeap_Len_def Let_def q1_def [symmetric]
        case_prod_beta)
  have least: "keys q ! 0 \<le> pq_key k' pc'" if k': "pq_abs q k' = Some pc'" for k' pc'
    using abs_nth [OF inv k'] is_heap_least [OF pq_invD(2) [OF inv]] by metis
  show thesis
    using that [OF _ key_nth(1) [OF inv, of 0, folded k] ] pop D(3,4) least len k
      key_nth(2) [OF inv, of 0] by simp
qed

lemma PQ_Remove_absent: "pq_abs q k = None \<Longrightarrow> PQ_Remove k q = (False, q)"
  by (simp add: PQ_Remove_def pq_abs_def)

lemma PQ_Remove_present:
  assumes inv: "pq_inv q" and "pq_abs q k \<noteq> None"
  shows "fst (PQ_Remove k q)" "pq_inv (snd (PQ_Remove k q))"
    "pq_abs (snd (PQ_Remove k q)) = (pq_abs q)(k := None)"
proof -
  obtain pc where pc: "pq_abs q k = Some pc" using assms(2) by auto
  obtain i where i: "i < length (pq_h q)" "keys q ! i = pq_key k pc" "it_jobID (item_at q i) = k"
    "pq_byID q k = Some (pq_h q ! i)"
    using abs_nth [OF inv pc] by blast
  obtain n where len: "length (pq_h q) = Suc n" using i(1) by (cases "length (pq_h q)") auto
  have idx: "nat (it_index (item_at q i)) = i"
    using pq_invD(1) [OF inv] i(1) by (simp add: idx_ok_def)
  obtain q1 where q1: "heap_Remove q i = innerHeap_Pop q1" "rearranged q q1"
    "is_heap (keys q1) n" "keys q1 ! n = keys q ! i"
    using heap_Remove_prepare [OF inv len] i(1) len by metis
  note D = drop_last [OF inv q1(2) len q1(3)]
  have len1: "length (pq_h q1) = Suc n" using q1(2) len by (simp add: rearranged_def)
  have "keys q1 ! n = item_key (pq_mem q (pq_h q1 ! n))"
    using q1(2) len1 by (simp add: keys_def rearranged_def)
  then have k: "it_jobID (pq_mem q (pq_h q1 ! n)) = k"
    using q1(4) i(2) by (simp add: item_key_def pq_key_def)
  have rem: "PQ_Remove k q = (True, (snd (innerHeap_Pop q1))\<lparr>pq_byID :=
      (pq_byID (snd (innerHeap_Pop q1)))(k := None)\<rparr>)"
    by (simp add: PQ_Remove_def i(4) idx q1(1) Let_def)
  show "fst (PQ_Remove k q)" "pq_inv (snd (PQ_Remove k q))"
    "pq_abs (snd (PQ_Remove k q)) = (pq_abs q)(k := None)"
    using D(3,4) by (simp_all add: rem k)
qed

section \<open>The interface the scheduler relies on\<close>

text \<open>Popping until \<open>n\<close> jobs came out or the queue is empty.\<close>

primrec drain :: "('q \<Rightarrow> string option \<times> 'q) \<Rightarrow> nat \<Rightarrow> 'q \<Rightarrow> string list" where
  "drain pop 0 q = []"
| "drain pop (Suc n) q =
     (case pop q of (None, _) \<Rightarrow> [] | (Some k, q') \<Rightarrow> k # drain pop n q')"

text \<open>The keys held by a queue with contents \<open>m\<close>.\<close>

definition key_set :: "(string \<rightharpoonup> int \<times> time) \<Rightarrow> key set" where
  "key_set m = {pq_key k pc | k pc. m k = Some pc}"

lemma key_set_empty [simp]: "key_set Map.empty = {}"
  by (simp add: key_set_def)

lemma key_setI: "m k = Some pc \<Longrightarrow> pq_key k pc \<in> key_set m"
  unfolding key_set_def by blast

lemma key_set_remove: "m k = Some pc \<Longrightarrow> key_set m = insert (pq_key k pc) (key_set (m(k := None)))"
proof (intro equalityI subsetI)
  fix x
  assume m: "m k = Some pc" and "x \<in> key_set m"
  then obtain k' pc' where "x = pq_key k' pc'" "m k' = Some pc'" by (auto simp: key_set_def)
  with m show "x \<in> insert (pq_key k pc) (key_set (m(k := None)))"
    by (cases "k' = k") (auto intro!: key_setI)
next
  fix x
  assume "m k = Some pc" and "x \<in> insert (pq_key k pc) (key_set (m(k := None)))"
  moreover have "key_set (m(k := None)) \<subseteq> key_set m"
    by (auto simp: key_set_def split: if_splits)
  ultimately show "x \<in> key_set m" by (auto intro: key_setI)
qed

lemma key_set_notin: "pq_key k pc \<notin> key_set (m(k := None))"
  by (auto simp: key_set_def pq_key_def)

lemma finite_key_set: "finite (dom m) \<Longrightarrow> finite (key_set m)"
proof -
  assume "finite (dom m)"
  moreover have "key_set m = (\<lambda>k. pq_key k (the (m k))) ` dom m"
    by (force simp: key_set_def image_iff)
  ultimately show ?thesis by simp
qed

locale ready_queue =
  fixes new :: 'q
    and push :: "string \<Rightarrow> int \<Rightarrow> time \<Rightarrow> 'q \<Rightarrow> bool \<times> 'q"
    and pop :: "'q \<Rightarrow> string option \<times> 'q"
    and remove :: "string \<Rightarrow> 'q \<Rightarrow> bool \<times> 'q"
    and clear :: "'q \<Rightarrow> 'q"
    and inv :: "'q \<Rightarrow> bool"
    and abs :: "'q \<Rightarrow> string \<rightharpoonup> int \<times> time"
  assumes inv_new: "inv new" and abs_new: "abs new = Map.empty"
    and inv_clear: "inv (clear q)" and abs_clear: "abs (clear q) = Map.empty"
    and finite_abs: "inv q \<Longrightarrow> finite (dom (abs q))"
    and push_spec: "inv q \<Longrightarrow> push k p c q = (b, q') \<Longrightarrow>
      inv q' \<and> b = (abs q k = None) \<and> abs q' = (if abs q k = None then (abs q)(k \<mapsto> (p, c)) else abs q)"
    and pop_spec: "inv q \<Longrightarrow> pop q = (r, q') \<Longrightarrow>
      inv q' \<and>
      (case r of
         None \<Rightarrow> abs q = Map.empty \<and> abs q' = Map.empty
       | Some k \<Rightarrow> abs q' = (abs q)(k := None) \<and>
           (\<exists>pc. abs q k = Some pc \<and> (\<forall>k' pc'. abs q k' = Some pc' \<longrightarrow> pq_key k pc \<le> pq_key k' pc')))"
    and remove_spec: "inv q \<Longrightarrow> remove k q = (b, q') \<Longrightarrow>
      inv q' \<and> b = (abs q k \<noteq> None) \<and> abs q' = (abs q)(k := None)"
begin

lemma pop_None: "inv q \<Longrightarrow> pop q = (None, q') \<Longrightarrow> abs q = Map.empty"
  by (drule (1) pop_spec) simp

lemma pop_Some:
  assumes "inv q" "pop q = (Some k, q')"
  obtains pc where "abs q k = Some pc" "abs q' = (abs q)(k := None)" "inv q'"
    "\<And>k' pc'. abs q k' = Some pc' \<Longrightarrow> pq_key k pc \<le> pq_key k' pc'"
  using pop_spec [OF assms] by auto

text \<open>The queue hands out every job it holds, in the order of the keys.\<close>

lemma drain_sorted:
  "inv q \<Longrightarrow> card (dom (abs q)) \<le> n \<Longrightarrow>
   map (\<lambda>k. pq_key k (the (abs q k))) (drain pop n q) = sorted_list_of_set (key_set (abs q))"
proof (induction n arbitrary: q)
  case 0
  then have "abs q = Map.empty" using finite_abs [of q] by auto
  then show ?case by simp
next
  case (Suc n)
  obtain r q' where pop: "pop q = (r, q')" by (cases "pop q")
  show ?case
  proof (cases r)
    case None
    then show ?thesis using pop_None Suc.prems(1) pop by simp
  next
    case (Some k)
    obtain pc where k: "abs q k = Some pc" and q': "abs q' = (abs q)(k := None)" "inv q'"
      and least: "\<And>k' pc'. abs q k' = Some pc' \<Longrightarrow> pq_key k pc \<le> pq_key k' pc'"
      using pop_Some [OF Suc.prems(1)] pop Some by blast
    have fin: "finite (dom (abs q))" using finite_abs Suc.prems(1) by blast
    moreover have "dom (abs q') = dom (abs q) - {k}" "k \<in> dom (abs q)" using k by (auto simp: q')
    ultimately have "card (dom (abs q')) \<le> n" using Suc.prems(2) by simp
    then have IH: "map (\<lambda>k. pq_key k (the (abs q' k))) (drain pop n q') =
        sorted_list_of_set (key_set (abs q'))"
      using Suc.IH q'(2) by blast
    have notin: "k \<notin> set (drain pop n q')"
    proof
      assume "k \<in> set (drain pop n q')"
      then have "pq_key k (the (abs q' k)) \<in> set (sorted_list_of_set (key_set (abs q')))"
        unfolding IH [symmetric] by auto
      then show False
        using finite_key_set [of "abs q'"] fin key_set_notin by (auto simp: q'(1))
    qed
    have "map (\<lambda>k. pq_key k (the (abs q k))) (drain pop n q') =
        map (\<lambda>k. pq_key k (the (abs q' k))) (drain pop n q')"
      using notin by (auto simp: q'(1))
    then have "map (\<lambda>k. pq_key k (the (abs q k))) (drain pop (Suc n) q) =
        pq_key k pc # sorted_list_of_set (key_set (abs q'))"
      using pop Some k IH by simp
    also have "\<dots> = sorted_list_of_set (key_set (abs q))"
    proof -
      have f: "finite (key_set (abs q'))" using finite_key_set [of "abs q'"] fin by (simp add: q'(1))
      have "\<forall>x \<in> key_set (abs q'). pq_key k pc \<le> x"
        using least by (auto simp: key_set_def q'(1) split: if_splits)
      then have "insort (pq_key k pc) (sorted_list_of_set (key_set (abs q'))) =
          pq_key k pc # sorted_list_of_set (key_set (abs q'))"
        using f by (intro insort_is_Cons) auto
      then show ?thesis
        using key_set_remove [of "abs q" k pc, OF k] key_set_notin [of k pc "abs q"] f
        by (simp add: q'(1) sorted_list_of_set_insert_remove)
    qed
    finally show ?thesis .
  qed
qed

end

interpretation pq: ready_queue PQ_New PQ_Push PQ_Pop PQ_Remove PQ_Clear pq_inv pq_abs
proof (unfold_locales, goal_cases)
  case (6 q k p c b q')
  show ?case
  proof (cases "pq_abs q k")
    case None
    then show ?thesis using PQ_Push_absent [OF 6(1) None, of p c] 6(2) by simp
  next
    case (Some pc)
    then show ?thesis using PQ_Push_present [of q k p c] 6 by simp
  qed
next
  case (7 q r q')
  show ?case
  proof (cases "pq_abs q = Map.empty")
    case True
    then show ?thesis using PQ_Pop_empty 7 by auto
  next
    case False
    obtain k pc where "PQ_Pop q = (Some k, snd (PQ_Pop q))" "pq_abs q k = Some pc"
      "\<And>k' pc'. pq_abs q k' = Some pc' \<Longrightarrow> pq_key k pc \<le> pq_key k' pc'"
      "pq_inv (snd (PQ_Pop q))" "pq_abs (snd (PQ_Pop q)) = (pq_abs q)(k := None)"
      using PQ_Pop_nonempty [OF 7(1) False] by blast
    with 7(2) show ?thesis by auto
  qed
next
  case (8 q k b q')
  show ?case
  proof (cases "pq_abs q k")
    case None
    then show ?thesis using PQ_Remove_absent [OF None] 8 by (auto simp: fun_upd_idem)
  next
    case (Some pc)
    then show ?thesis using PQ_Remove_present [OF 8(1), of k] 8(2) by simp
  qed
qed (simp_all add: finite_pq_abs)

text \<open>A successful \<open>Pop\<close> shortens the heap, whatever state it is in.\<close>

lemma length_heap_down: "length (pq_h (fst (heap_down q i n))) = length (pq_h q)"
  by (induction q i n rule: heap_down.induct) (subst heap_down.simps, simp add: Let_def)

lemma PQ_Pop_shorter: "PQ_Pop q = (Some k, q') \<Longrightarrow> length (pq_h q') < length (pq_h q)"
  by (auto simp: PQ_Pop_def heap_Pop_def innerHeap_Pop_def innerHeap_Len_def length_heap_down Let_def
      split: if_splits)

section \<open>Sequences of calls\<close>

text \<open>
  The calls a scheduler makes on its queue, and the answers of the specification: a finite map
  from job IDs to priority and creation time, from which \<open>Pop\<close> takes the least key.
\<close>

datatype queue_call = CallPush string int time | CallPop | CallRemove string | CallContains string
  | CallLen | CallClear

datatype queue_answer = AnsBool bool | AnsJob "string option" | AnsLen nat | AnsNone

fun pq_call :: "queue_call \<Rightarrow> pqueue \<Rightarrow> queue_answer \<times> pqueue" where
  "pq_call (CallPush k p c) q = apfst AnsBool (PQ_Push k p c q)"
| "pq_call CallPop q = apfst AnsJob (PQ_Pop q)"
| "pq_call (CallRemove k) q = apfst AnsBool (PQ_Remove k q)"
| "pq_call (CallContains k) q = (AnsBool (PQ_Contains k q), q)"
| "pq_call CallLen q = (AnsLen (PQ_Len q), q)"
| "pq_call CallClear q = (AnsNone, PQ_Clear q)"

fun spec_call :: "queue_call \<Rightarrow> (string \<rightharpoonup> int \<times> time) \<Rightarrow> queue_answer \<times> (string \<rightharpoonup> int \<times> time)" where
  "spec_call (CallPush k p c) m =
     (if m k = None then (AnsBool True, m(k \<mapsto> (p, c))) else (AnsBool False, m))"
| "spec_call CallPop m =
     (if m = Map.empty then (AnsJob None, m)
      else let k = snd (snd (Min (key_set m))) in (AnsJob (Some k), m(k := None)))"
| "spec_call (CallRemove k) m = (AnsBool (m k \<noteq> None), m(k := None))"
| "spec_call (CallContains k) m = (AnsBool (m k \<noteq> None), m)"
| "spec_call CallLen m = (AnsLen (card (dom m)), m)"
| "spec_call CallClear m = (AnsNone, Map.empty)"

fun run_calls :: "(queue_call \<Rightarrow> 's \<Rightarrow> queue_answer \<times> 's) \<Rightarrow> queue_call list \<Rightarrow> 's \<Rightarrow> queue_answer list \<times> 's"
  where
  "run_calls f [] s = ([], s)"
| "run_calls f (c # cs) s =
     (let (a, s1) = f c s; (as, s2) = run_calls f cs s1 in (a # as, s2))"

lemma card_pq_abs: "pq_inv q \<Longrightarrow> card (dom (pq_abs q)) = length (pq_h q)"
proof -
  assume inv: "pq_inv q"
  have byID: "pq_byID q k = Some a \<longleftrightarrow> a \<in> set (pq_h q) \<and> it_jobID (pq_mem q a) = k" for k a
    using pq_invD(3) [OF inv] .
  have "dom (pq_abs q) = (\<lambda>a. it_jobID (pq_mem q a)) ` set (pq_h q)"
    using byID by (auto simp: pq_abs_def dom_def image_iff)
  moreover have "inj_on (\<lambda>a. it_jobID (pq_mem q a)) (set (pq_h q))"
    using byID by (metis (mono_tags, lifting) inj_onI option.inject)
  moreover have "distinct (pq_h q)"
    using pq_invD(1) [OF inv] by (auto simp: idx_ok_def distinct_conv_nth)
  ultimately show ?thesis by (simp add: card_image distinct_card)
qed

lemma Min_key_set:
  assumes "finite (dom m)" "m k = Some pc" "\<And>k' pc'. m k' = Some pc' \<Longrightarrow> pq_key k pc \<le> pq_key k' pc'"
  shows "Min (key_set m) = pq_key k pc"
proof (intro Min_eqI finite_key_set key_setI assms(1,2))
  fix x
  assume "x \<in> key_set m"
  then show "pq_key k pc \<le> x" using assms(3) by (auto simp: key_set_def)
qed

lemma pq_call_spec:
  assumes inv: "pq_inv q"
  shows "pq_inv (snd (pq_call c q)) \<and>
    spec_call c (pq_abs q) = (fst (pq_call c q), pq_abs (snd (pq_call c q)))"
proof (cases c)
  case (CallPush k p t)
  then show ?thesis
    using pq.push_spec [OF inv, of k p t] by (cases "PQ_Push k p t q") auto
next
  case CallPop
  obtain r q' where pop: "PQ_Pop q = (r, q')" by force
  note spec = pq.pop_spec [OF inv pop]
  show ?thesis
  proof (cases r)
    case None
    then show ?thesis using spec CallPop pop by simp
  next
    case (Some k)
    then obtain pc where pc: "pq_abs q k = Some pc"
      "\<And>k' pc'. pq_abs q k' = Some pc' \<Longrightarrow> pq_key k pc \<le> pq_key k' pc'"
      using spec by auto
    have "Min (key_set (pq_abs q)) = pq_key k pc"
      by (rule Min_key_set [OF pq.finite_abs [OF inv] pc])
    then show ?thesis using spec CallPop pop Some pc(1) by (auto simp: pq_key_def Let_def)
  qed
next
  case (CallRemove k)
  then show ?thesis
    using pq.remove_spec [OF inv, of k] by (cases "PQ_Remove k q") auto
next
  case (CallContains k)
  then show ?thesis using inv by (auto simp: PQ_Contains_def pq_abs_def split: option.splits)
next
  case CallLen
  then show ?thesis using inv card_pq_abs [OF inv] by (simp add: PQ_Len_def innerHeap_Len_def)
qed simp

lemma run_calls_spec:
  "pq_inv q \<Longrightarrow> run_calls pq_call cs q = (as, q') \<Longrightarrow>
   pq_inv q' \<and> run_calls spec_call cs (pq_abs q) = (as, pq_abs q')"
proof (induction cs arbitrary: q as)
  case (Cons c cs)
  obtain a q1 where c: "pq_call c q = (a, q1)" by force
  obtain as1 where rest: "run_calls pq_call cs q1 = (as1, q')" "as = a # as1"
    using Cons.prems(2) c by (auto simp: split_beta prod_eq_iff)
  show ?case
    using pq_call_spec [OF Cons.prems(1), of c] Cons.IH [OF _ rest(1)] c rest(2) by simp
qed simp

section \<open>Properties\<close>

text \<open>
  C7. The heap-backed ready queue refines the specification: for every sequence of \<open>Push\<close>,
  \<open>Pop\<close>, \<open>Remove\<close>, \<open>Contains\<close>, \<open>Len\<close> and \<open>Clear\<close> on a new queue, the answers are those of a
  finite map keyed by job ID whose \<open>Pop\<close> takes the job with the highest priority, then the
  oldest creation time, then the least ID.
\<close>

theorem queue_refines_spec:
  "fst (run_calls pq_call cs PQ_New) = fst (run_calls spec_call cs Map.empty)"
  using run_calls_spec [OF pq.inv_new, of cs] by (cases "run_calls pq_call cs PQ_New") (simp add: pq.abs_new)

text \<open>
  After any sequence of calls, popping until the queue is empty hands out exactly the jobs it
  holds, each once, sorted by descending priority, then ascending creation time, then ID.
\<close>

lemma queue_drains_in_order:
  "let q = snd (run_calls pq_call cs PQ_New) in
   map (\<lambda>k. pq_key k (the (pq_abs q k))) (drain PQ_Pop (PQ_Len q) q) =
     sorted_list_of_set (key_set (pq_abs q))"
proof -
  define q where "q = snd (run_calls pq_call cs PQ_New)"
  have inv: "pq_inv q"
    using run_calls_spec [OF pq.inv_new, of cs] by (cases "run_calls pq_call cs PQ_New") (simp add: q_def)
  then have "card (dom (pq_abs q)) \<le> PQ_Len q"
    using card_pq_abs by (simp add: PQ_Len_def innerHeap_Len_def)
  from pq.drain_sorted [OF inv this] show ?thesis by (simp add: q_def Let_def)
qed

end
