(* ===== verification/Float64.thy ===== *)
theory Float64
  imports Complex_Main Prelude
begin

text \<open>
  Go's \<open>float64\<close>, as far as the retry policy uses it: multiplication, addition, comparison,
  conversion from an integer and truncation to one. A finite value is a rational; every
  arithmetic result is rounded to the nearest 53-bit value, ties to even, with gradual underflow
  below \<open>2\<^sup>-\<^sup>1\<^sup>0\<^sup>2\<^sup>2\<close> and overflow to an infinity from \<open>2\<^sup>1\<^sup>0\<^sup>2\<^sup>4\<close> on (IEEE 754 binary64, as the Go
  specification prescribes). The sign of a zero is not kept: no operation used here can tell.
\<close>

datatype f64 = Fin rat | PosInf | NegInf | NaN

definition pow2 :: "int \<Rightarrow> rat" where
  "pow2 k = (if 0 \<le> k then 2 ^ nat k else 1 / 2 ^ nat (- k))"

text \<open>The number of binary digits of a positive integer.\<close>

function bits :: "int \<Rightarrow> int" where
  "bits n = (if n \<le> 0 then 0 else 1 + bits (n div 2))"
  by pat_completeness auto
termination
  by (relation "measure nat") auto

declare bits.simps [simp del]

text \<open>The exponent \<open>e\<close> with \<open>2\<^sup>e \<le> x < 2\<^sup>e\<^sup>+\<^sup>1\<close> of a positive rational.\<close>

definition expo :: "rat \<Rightarrow> int" where
  "expo x = (let (n, d) = quotient_of x; k = bits n - bits d
             in if pow2 k \<le> x then k else k - 1)"

definition half_even :: "rat \<Rightarrow> int" where
  "half_even m = (let f = \<lfloor>m\<rfloor>; r = m - of_int f
                  in if r < 1 / 2 then f else if 1 / 2 < r then f + 1
                     else if even f then f else f + 1)"

definition round_pos :: "rat \<Rightarrow> rat" where
  "round_pos x = (let q = pow2 (max (expo x - 52) (- 1074)) in of_int (half_even (x / q)) * q)"

definition fl :: "rat \<Rightarrow> f64" where
  "fl x = (if x = 0 then Fin 0
           else if 0 < x then (let y = round_pos x in if 2 ^ 1024 \<le> y then PosInf else Fin y)
           else (let y = round_pos (- x) in if 2 ^ 1024 \<le> y then NegInf else Fin (- y)))"

fun f_mul :: "f64 \<Rightarrow> f64 \<Rightarrow> f64" where
  "f_mul (Fin a) (Fin b) = fl (a * b)"
| "f_mul NaN _ = NaN"
| "f_mul _ NaN = NaN"
| "f_mul (Fin a) PosInf = (if a = 0 then NaN else if 0 < a then PosInf else NegInf)"
| "f_mul (Fin a) NegInf = (if a = 0 then NaN else if 0 < a then NegInf else PosInf)"
| "f_mul PosInf (Fin a) = (if a = 0 then NaN else if 0 < a then PosInf else NegInf)"
| "f_mul NegInf (Fin a) = (if a = 0 then NaN else if 0 < a then NegInf else PosInf)"
| "f_mul PosInf PosInf = PosInf"
| "f_mul PosInf NegInf = NegInf"
| "f_mul NegInf PosInf = NegInf"
| "f_mul NegInf NegInf = PosInf"

fun f_add :: "f64 \<Rightarrow> f64 \<Rightarrow> f64" where
  "f_add (Fin a) (Fin b) = fl (a + b)"
| "f_add NaN _ = NaN"
| "f_add _ NaN = NaN"
| "f_add PosInf NegInf = NaN"
| "f_add NegInf PosInf = NaN"
| "f_add PosInf _ = PosInf"
| "f_add _ PosInf = PosInf"
| "f_add NegInf _ = NegInf"
| "f_add _ NegInf = NegInf"

text \<open>\<open><\<close> and \<open><=\<close>: every comparison with a NaN is false.\<close>

fun f_less :: "f64 \<Rightarrow> f64 \<Rightarrow> bool" where
  "f_less (Fin a) (Fin b) = (a < b)"
| "f_less NaN _ = False"
| "f_less _ NaN = False"
| "f_less PosInf _ = False"
| "f_less _ NegInf = False"
| "f_less NegInf _ = True"
| "f_less _ PosInf = True"

fun f_le :: "f64 \<Rightarrow> f64 \<Rightarrow> bool" where
  "f_le (Fin a) (Fin b) = (a \<le> b)"
| "f_le NaN _ = False"
| "f_le _ NaN = False"
| "f_le NegInf _ = True"
| "f_le _ PosInf = True"
| "f_le PosInf _ = False"
| "f_le _ NegInf = False"

definition f_of_int :: "int \<Rightarrow> f64" where
  "f_of_int d = fl (of_int d)"

text \<open>
  \<open>time.Duration(x)\<close> drops the fraction. For a value outside \<open>int64\<close> (or a NaN) the Go
  specification leaves the result to the implementation: \<open>unrep\<close> stands for it.
\<close>

definition f_to_duration :: "(f64 \<Rightarrow> duration) \<Rightarrow> f64 \<Rightarrow> duration" where
  "f_to_duration unrep x =
     (case x of
        Fin r \<Rightarrow> (let t = (if 0 \<le> r then \<lfloor>r\<rfloor> else \<lceil>r\<rceil>)
                  in if min_int64 \<le> t \<and> t \<le> max_int64 then t else unrep x)
      | _ \<Rightarrow> unrep x)"

end
