(* ===== verification/Messages.thy ===== *)
theory Messages
  imports Float64
begin

text \<open>
  The protobuf messages of \<open>proto/distsched/v1\<close> as the generated Go code in \<open>gen/go/distsched/v1\<close>
  declares them: one record per message with the fields in declaration order, one datatype per
  enum. A pointer to a message is an \<^typ>\<open>'a option\<close> with \<^const>\<open>None\<close> for \<open>nil\<close>; the generated
  getters answer the zero value on a \<open>nil\<close> receiver. A proto3 enum is open, so every enum has a
  constructor for the numbers without a name. Nanosecond-precision timestamps and durations are
  integers (theory \<open>Prelude\<close>), \<open>map<string, string>\<close> fields are association lists.
\<close>

section \<open>Enums\<close>

datatype JobState =
    JOB_STATE_UNSPECIFIED
  | JOB_STATE_PENDING
  | JOB_STATE_QUEUED
  | JOB_STATE_RUNNING
  | JOB_STATE_SUCCEEDED
  | JOB_STATE_FAILED
  | JOB_STATE_CANCELED
  | JOB_STATE_unnamed int

datatype WorkerState =
    WORKER_STATE_UNSPECIFIED
  | WORKER_STATE_ALIVE
  | WORKER_STATE_SUSPECT
  | WORKER_STATE_DEAD
  | WORKER_STATE_unnamed int

datatype TaskResult =
    TASK_RESULT_UNSPECIFIED
  | TASK_RESULT_SUCCEEDED
  | TASK_RESULT_FAILED
  | TASK_RESULT_unnamed int

datatype SchedulerRole =
    SCHEDULER_ROLE_UNSPECIFIED
  | SCHEDULER_ROLE_LEADER
  | SCHEDULER_ROLE_FOLLOWER
  | SCHEDULER_ROLE_unnamed int

section \<open>Shared messages (common.proto)\<close>

record TaskSpec =
  ts_Command :: string
  ts_Args :: "string list"
  ts_Env :: "(string \<times> string) list"
  ts_Timeout :: "duration option"
  ts_Payload :: string

record RetryPolicy =
  rp_MaxAttempts :: int
  rp_InitialBackoff :: "duration option"
  rp_MaxBackoff :: "duration option"
  rp_BackoffMultiplier :: f64
  rp_Jitter :: f64

datatype Schedule_Kind = Schedule_RunAt time | Schedule_CronExpr string

record Schedule =
  sc_Kind :: "Schedule_Kind option"
  sc_Timezone :: string

section \<open>Jobs (job.proto)\<close>

record Job =
  j_Id :: string
  j_Name :: string
  j_Priority :: int
  j_Spec :: "TaskSpec option"
  j_DependsOn :: "string list"
  j_Schedule :: "Schedule option"
  j_RetryPolicy :: "RetryPolicy option"
  j_State :: JobState
  j_Attempt :: int
  j_AssignedWorkerId :: string
  j_LastError :: string
  j_CreatedAt :: timestamp
  j_UpdatedAt :: timestamp
  j_ScheduledAt :: timestamp
  j_StartedAt :: timestamp
  j_FinishedAt :: timestamp

section \<open>Workers and tasks (worker.proto)\<close>

record WorkerInfo =
  w_Id :: string
  w_Address :: string
  w_Capacity :: int
  w_Labels :: "(string \<times> string) list"
  w_State :: WorkerState
  w_LastHeartbeat :: timestamp
  w_RunningTasks :: int

record TaskAssignment =
  ta_TaskId :: string
  ta_JobId :: string
  ta_Attempt :: int
  ta_Spec :: "TaskSpec option"
  ta_LeaseDeadline :: timestamp

record ReportTaskRequest =
  rt_WorkerId :: string
  rt_TaskId :: string
  rt_Result :: TaskResult
  rt_Output :: string
  rt_Error :: string

section \<open>Schedulers (scheduler.proto)\<close>

record SchedulerNode =
  sn_Id :: string
  sn_Address :: string
  sn_Role :: SchedulerRole
  sn_LastSeen :: timestamp

record LeaseInfo =
  li_HolderId :: string
  li_Term :: int
  li_AcquiredAt :: timestamp
  li_ExpiresAt :: timestamp

record GetClusterStatusResponse =
  cs_Lease :: "LeaseInfo option"
  cs_Schedulers :: "SchedulerNode list"
  cs_Workers :: "WorkerInfo list"

datatype Mutation =
    ReplicationEntry_UpsertJob Job
  | ReplicationEntry_UpsertWorker WorkerInfo
  | ReplicationEntry_DeleteJobId string

record ReplicationEntry =
  re_Seq :: int
  re_Mutation :: "Mutation option"

record ReplicateResponse =
  rr_Ok :: bool
  rr_CurrentTerm :: int
  rr_AppliedThrough :: int

section \<open>Getters on possibly missing messages\<close>

definition TaskSpec_GetCommand :: "TaskSpec option \<Rightarrow> string" where
  "TaskSpec_GetCommand x = (case x of Some t \<Rightarrow> ts_Command t | None \<Rightarrow> '''')"

definition TaskSpec_GetArgs :: "TaskSpec option \<Rightarrow> string list" where
  "TaskSpec_GetArgs x = (case x of Some t \<Rightarrow> ts_Args t | None \<Rightarrow> [])"

definition TaskSpec_GetEnv :: "TaskSpec option \<Rightarrow> (string \<times> string) list" where
  "TaskSpec_GetEnv x = (case x of Some t \<Rightarrow> ts_Env t | None \<Rightarrow> [])"

definition TaskSpec_GetTimeout :: "TaskSpec option \<Rightarrow> duration option" where
  "TaskSpec_GetTimeout x = (case x of Some t \<Rightarrow> ts_Timeout t | None \<Rightarrow> None)"

definition Schedule_GetRunAt :: "Schedule option \<Rightarrow> timestamp" where
  "Schedule_GetRunAt x =
     (case x of Some s \<Rightarrow> (case sc_Kind s of Some (Schedule_RunAt t) \<Rightarrow> Some t | _ \<Rightarrow> None) | None \<Rightarrow> None)"

definition Schedule_GetCronExpr :: "Schedule option \<Rightarrow> string" where
  "Schedule_GetCronExpr x =
     (case x of Some s \<Rightarrow> (case sc_Kind s of Some (Schedule_CronExpr e) \<Rightarrow> e | _ \<Rightarrow> '''') | None \<Rightarrow> '''')"

definition LeaseInfo_GetHolderId :: "LeaseInfo option \<Rightarrow> string" where
  "LeaseInfo_GetHolderId x = (case x of Some l \<Rightarrow> li_HolderId l | None \<Rightarrow> '''')"

definition LeaseInfo_GetTerm :: "LeaseInfo option \<Rightarrow> int" where
  "LeaseInfo_GetTerm x = (case x of Some l \<Rightarrow> li_Term l | None \<Rightarrow> 0)"

lemma getter_simps [wire_simps, simp]:
  "TaskSpec_GetCommand None = ''''" "TaskSpec_GetCommand (Some t) = ts_Command t"
  "TaskSpec_GetArgs None = []" "TaskSpec_GetArgs (Some t) = ts_Args t"
  "TaskSpec_GetEnv None = []" "TaskSpec_GetEnv (Some t) = ts_Env t"
  "TaskSpec_GetTimeout None = None" "TaskSpec_GetTimeout (Some t) = ts_Timeout t"
  "Schedule_GetRunAt None = None" "Schedule_GetCronExpr None = ''''"
  "LeaseInfo_GetHolderId None = ''''" "LeaseInfo_GetHolderId (Some l) = li_HolderId l"
  "LeaseInfo_GetTerm None = 0" "LeaseInfo_GetTerm (Some l) = li_Term l"
  by (simp_all add: TaskSpec_GetCommand_def TaskSpec_GetArgs_def TaskSpec_GetEnv_def
      TaskSpec_GetTimeout_def Schedule_GetRunAt_def Schedule_GetCronExpr_def
      LeaseInfo_GetHolderId_def LeaseInfo_GetTerm_def)

section \<open>RPC errors\<close>

text \<open>
  A handler fails with a gRPC status. The model keeps the status code and which message it is,
  with the values the message quotes, and leaves the rendering of the text to \<open>fmt\<close>.
\<close>

datatype Code = InvalidArgument | NotFound | FailedPrecondition | Internal | Unavailable | OtherCode

text \<open>
  What \<open>internal/store\<close> answers: its sentinel \<open>ErrNotFound\<close>, or an error of BoltDB or of the
  protobuf codec, wrapped with the key at hand.
\<close>

datatype store_err =
    ErrNotFound
  | ErrOpen string goerr
  | ErrMarshal string goerr
  | ErrUnmarshal goerr
  | ErrDB goerr

datatype rpc_error =
    Err_NotLeader string
  | Err_JobRequired
  | Err_CommandRequired
  | Err_InvalidCron goerr
  | Err_Cycle
  | Err_JobIdRequired
  | Err_JobNotFound string
  | Err_LoadJob store_err
  | Err_ListJobs store_err
  | Err_ListWorkers store_err
  | Err_Terminal string JobState
  | Err_PersistCancel store_err
  | Err_PersistSuccess store_err
  | Err_PersistRetry store_err
  | Err_PersistDeadLetter store_err
  | Err_PersistFailure store_err
  | Err_PersistWorker store_err
  | Err_PersistHeartbeat store_err
  | Err_WorkerRequired
  | Err_UnknownWorker string
  | Err_ResultRequired

fun status_code :: "rpc_error \<Rightarrow> Code" where
  "status_code (Err_NotLeader _) = FailedPrecondition"
| "status_code Err_JobRequired = InvalidArgument"
| "status_code Err_CommandRequired = InvalidArgument"
| "status_code (Err_InvalidCron _) = InvalidArgument"
| "status_code Err_Cycle = InvalidArgument"
| "status_code Err_JobIdRequired = InvalidArgument"
| "status_code (Err_JobNotFound _) = NotFound"
| "status_code (Err_Terminal _ _) = FailedPrecondition"
| "status_code Err_WorkerRequired = InvalidArgument"
| "status_code (Err_UnknownWorker _) = FailedPrecondition"
| "status_code Err_ResultRequired = InvalidArgument"
| "status_code _ = Internal"

end
