(* ===== verification/Retry.thy ===== *)
theory Retry
  imports Messages
begin

text \<open>
  Retry limits and exponential backoff (\<open>internal/retry/retry.go\<close>). The random number
  \<open>rand.Float64()\<close> and the conversion of an unrepresentable float are arguments.
\<close>

definition DefaultMaxAttempts :: int where "DefaultMaxAttempts = 3"
definition defaultInitial :: duration where "defaultInitial = second"
definition defaultMax :: duration where "defaultMax = 30 * second"
definition defaultMultiplier :: f64 where "defaultMultiplier = Fin 2"
definition defaultJitter :: f64 where "defaultJitter = fl (1 / 5)"

definition MaxAttempts :: "RetryPolicy option \<Rightarrow> int" where
  "MaxAttempts p =
     (case p of
        None \<Rightarrow> DefaultMaxAttempts
      | Some p \<Rightarrow> if rp_MaxAttempts p \<le> 0 then DefaultMaxAttempts else rp_MaxAttempts p)"

text \<open>The loop \<open>for i := 1; i < attempt; i++\<close>: \<open>n\<close> iterations are left.\<close>

primrec backoff_loop :: "nat \<Rightarrow> f64 \<Rightarrow> f64 \<Rightarrow> f64 \<Rightarrow> f64" where
  "backoff_loop 0 m cap base = base"
| "backoff_loop (Suc n) m cap base =
     (let base' = f_mul base m in
      if f_le cap base' then cap else backoff_loop n m cap base')"

definition backoff_initial :: "RetryPolicy option \<Rightarrow> duration" where
  "backoff_initial p =
     (case p of
        Some p \<Rightarrow> (let d = AsDuration (rp_InitialBackoff p) in if 0 < d then d else defaultInitial)
      | None \<Rightarrow> defaultInitial)"

definition backoff_max :: "RetryPolicy option \<Rightarrow> duration" where
  "backoff_max p =
     (case p of
        Some p \<Rightarrow> (let d = AsDuration (rp_MaxBackoff p) in if 0 < d then d else defaultMax)
      | None \<Rightarrow> defaultMax)"

definition backoff_mult :: "RetryPolicy option \<Rightarrow> f64" where
  "backoff_mult p =
     (case p of
        Some p \<Rightarrow> if f_less (Fin 0) (rp_BackoffMultiplier p) then rp_BackoffMultiplier p else defaultMultiplier
      | None \<Rightarrow> defaultMultiplier)"

definition backoff_jitter :: "RetryPolicy option \<Rightarrow> f64" where
  "backoff_jitter p =
     (case p of
        Some p \<Rightarrow> if f_less (Fin 0) (rp_Jitter p) then rp_Jitter p else defaultJitter
      | None \<Rightarrow> defaultJitter)"

definition backoff_base :: "RetryPolicy option \<Rightarrow> int \<Rightarrow> f64" where
  "backoff_base p attempt =
     (let attempt = (if attempt < 1 then 1 else attempt)
      in backoff_loop (nat (attempt - 1)) (backoff_mult p) (f_of_int (backoff_max p))
           (f_of_int (backoff_initial p)))"

definition Backoff :: "(f64 \<Rightarrow> duration) \<Rightarrow> f64 \<Rightarrow> RetryPolicy option \<Rightarrow> int \<Rightarrow> duration" where
  "Backoff unrep rnd p attempt =
     (let base = backoff_base p attempt;
          jitter = backoff_jitter p;
          base = (if f_less (Fin 0) jitter
                  then f_mul base (f_add (Fin 1) (f_mul (f_add (f_mul rnd (Fin 2)) (Fin (- 1))) jitter))
                  else base);
          base = (if f_less base (Fin 0) then Fin 0 else base)
      in f_to_duration unrep base)"

lemma MaxAttempts_pos: "1 \<le> MaxAttempts p"
  by (auto simp: MaxAttempts_def DefaultMaxAttempts_def split: option.splits)

lemma MaxAttempts_policy: "0 < rp_MaxAttempts p \<Longrightarrow> MaxAttempts (Some p) = rp_MaxAttempts p"
  by (simp add: MaxAttempts_def)

end
