(* ===== verification/Bolt_Store.thy ===== *)
theory Bolt_Store
  imports Messages
begin

text \<open>
  The durable store (\<open>internal/store/store.go\<close>): jobs, workers and dead letters kept as
  protobuf-encoded values in the buckets of a BoltDB file, and the election state in the bucket
  \<open>meta\<close>.

  BoltDB and the protobuf codec are not part of the repository. They are the fields of the record
  \<open>bolt\<close>, an argument of every definition; \<open>'db\<close> is the type of an open database. What the
  repository relies on is stated by \<open>bolt_laws\<close> (a transaction is atomic and durable or has no
  effect, a read sees the last committed write, \<open>ForEach\<close> visits a bucket in byte order of the
  keys) and \<open>codec_laws\<close> (what was marshalled unmarshals to the same message). A failed
  transaction may still change the \<open>'db\<close> value, so that a later attempt can succeed.

  The lemmas show that each group of operations refines a map from IDs to messages: the locale
  \<open>keyed_store\<close>, interpreted for the three buckets.
\<close>

section \<open>BoltDB and the codec\<close>

datatype bolt_op =
    BPut string string string
  | BDelete string string
  | BCreateBucket string

record 'db bolt =
  bolt_Open :: "string \<Rightarrow> goerr + 'db"
  bolt_Close :: "'db \<Rightarrow> goerr option"
  bolt_Get :: "'db \<Rightarrow> string \<Rightarrow> string \<Rightarrow> goerr + string option"
  bolt_ForEach :: "'db \<Rightarrow> string \<Rightarrow> goerr + (string \<times> string) list"
  bolt_KeyN :: "'db \<Rightarrow> string \<Rightarrow> goerr + nat"
  bolt_Update :: "'db \<Rightarrow> bolt_op list \<Rightarrow> goerr option \<times> 'db"
  marshal_Job :: "Job \<Rightarrow> goerr + string"
  unmarshal_Job :: "string \<Rightarrow> goerr + Job"
  marshal_Worker :: "WorkerInfo \<Rightarrow> goerr + string"
  unmarshal_Worker :: "string \<Rightarrow> goerr + WorkerInfo"

section \<open>Operations\<close>

definition bucketJobs :: string where "bucketJobs = ''jobs''"
definition bucketWorkers :: string where "bucketWorkers = ''workers''"
definition bucketDeadLetter :: string where "bucketDeadLetter = ''dead_letter''"
definition bucketMeta :: string where "bucketMeta = ''meta''"

definition Store_Open :: "('db, 'z) bolt_scheme \<Rightarrow> string \<Rightarrow> store_err + 'db" where
  "Store_Open B path =
     (case bolt_Open B path of
        Inl e \<Rightarrow> Inl (ErrOpen path e)
      | Inr db \<Rightarrow>
          (case bolt_Update B db
                  (map BCreateBucket [bucketJobs, bucketWorkers, bucketDeadLetter, bucketMeta]) of
             (Some e, _) \<Rightarrow> Inl (ErrDB e)
           | (None, db') \<Rightarrow> Inr db'))"

definition wrap_update :: "goerr option \<times> 'db \<Rightarrow> store_err option \<times> 'db" where
  "wrap_update r = (map_option ErrDB (fst r), snd r)"

definition put_value ::
  "('db, 'z) bolt_scheme \<Rightarrow> string \<Rightarrow> ('v \<Rightarrow> goerr + string) \<Rightarrow> ('v \<Rightarrow> string) \<Rightarrow> 'db \<Rightarrow> 'v \<Rightarrow>
   store_err option \<times> 'db" where
  "put_value B bucket marshal key db v =
     (case marshal v of
        Inl e \<Rightarrow> (Some (ErrMarshal (key v) e), db)
      | Inr data \<Rightarrow> wrap_update (bolt_Update B db [BPut bucket (key v) data]))"

definition get_value ::
  "('db, 'z) bolt_scheme \<Rightarrow> string \<Rightarrow> (string \<Rightarrow> goerr + 'v) \<Rightarrow> 'db \<Rightarrow> string \<Rightarrow> store_err + 'v" where
  "get_value B bucket unmarshal db k =
     (case bolt_Get B db bucket k of
        Inl e \<Rightarrow> Inl (ErrDB e)
      | Inr None \<Rightarrow> Inl ErrNotFound
      | Inr (Some data) \<Rightarrow>
          (case unmarshal data of Inl e \<Rightarrow> Inl (ErrUnmarshal e) | Inr v \<Rightarrow> Inr v))"

fun unmarshal_all :: "(string \<Rightarrow> goerr + 'v) \<Rightarrow> (string \<times> string) list \<Rightarrow> store_err + 'v list" where
  "unmarshal_all u [] = Inr []"
| "unmarshal_all u ((k, data) # kvs) =
     (case u data of
        Inl e \<Rightarrow> Inl (ErrUnmarshal e)
      | Inr v \<Rightarrow> (case unmarshal_all u kvs of Inl e \<Rightarrow> Inl e | Inr vs \<Rightarrow> Inr (v # vs)))"

definition list_values ::
  "('db, 'z) bolt_scheme \<Rightarrow> string \<Rightarrow> (string \<Rightarrow> goerr + 'v) \<Rightarrow> 'db \<Rightarrow> store_err + 'v list" where
  "list_values B bucket unmarshal db =
     (case bolt_ForEach B db bucket of
        Inl e \<Rightarrow> Inl (ErrDB e)
      | Inr kvs \<Rightarrow> unmarshal_all unmarshal kvs)"

definition Store_PutJob :: "('db, 'z) bolt_scheme \<Rightarrow> 'db \<Rightarrow> Job \<Rightarrow> store_err option \<times> 'db" where
  "Store_PutJob B = put_value B bucketJobs (marshal_Job B) j_Id"

definition Store_GetJob :: "('db, 'z) bolt_scheme \<Rightarrow> 'db \<Rightarrow> string \<Rightarrow> store_err + Job" where
  "Store_GetJob B = get_value B bucketJobs (unmarshal_Job B)"

definition Store_DeleteJob :: "('db, 'z) bolt_scheme \<Rightarrow> 'db \<Rightarrow> string \<Rightarrow> store_err option \<times> 'db" where
  "Store_DeleteJob B db k = wrap_update (bolt_Update B db [BDelete bucketJobs k])"

definition Store_ListJobs :: "('db, 'z) bolt_scheme \<Rightarrow> 'db \<Rightarrow> store_err + Job list" where
  "Store_ListJobs B = list_values B bucketJobs (unmarshal_Job B)"

definition Store_PutWorker :: "('db, 'z) bolt_scheme \<Rightarrow> 'db \<Rightarrow> WorkerInfo \<Rightarrow> store_err option \<times> 'db" where
  "Store_PutWorker B = put_value B bucketWorkers (marshal_Worker B) w_Id"

definition Store_GetWorker :: "('db, 'z) bolt_scheme \<Rightarrow> 'db \<Rightarrow> string \<Rightarrow> store_err + WorkerInfo" where
  "Store_GetWorker B = get_value B bucketWorkers (unmarshal_Worker B)"

definition Store_ListWorkers :: "('db, 'z) bolt_scheme \<Rightarrow> 'db \<Rightarrow> store_err + WorkerInfo list" where
  "Store_ListWorkers B = list_values B bucketWorkers (unmarshal_Worker B)"

definition Store_DeleteWorker :: "('db, 'z) bolt_scheme \<Rightarrow> 'db \<Rightarrow> string \<Rightarrow> store_err option \<times> 'db" where
  "Store_DeleteWorker B db k = wrap_update (bolt_Update B db [BDelete bucketWorkers k])"

definition Store_PutDeadLetter :: "('db, 'z) bolt_scheme \<Rightarrow> 'db \<Rightarrow> Job \<Rightarrow> store_err option \<times> 'db" where
  "Store_PutDeadLetter B = put_value B bucketDeadLetter (marshal_Job B) j_Id"

definition Store_ListDeadLetter :: "('db, 'z) bolt_scheme \<Rightarrow> 'db \<Rightarrow> store_err + Job list" where
  "Store_ListDeadLetter B = list_values B bucketDeadLetter (unmarshal_Job B)"

definition Store_CountDeadLetter :: "('db, 'z) bolt_scheme \<Rightarrow> 'db \<Rightarrow> store_err + nat" where
  "Store_CountDeadLetter B db =
     (case bolt_KeyN B db bucketDeadLetter of Inl e \<Rightarrow> Inl (ErrDB e) | Inr n \<Rightarrow> Inr n)"

section \<open>Election state\<close>

text \<open>
  \<open>binary.BigEndian.PutUint64(buf, uint64(term))\<close> and back. \<open>Uint64\<close> panics on fewer than eight
  bytes; \<^const>\<open>None\<close> is that panic.
\<close>

definition metaTerm :: string where "metaTerm = ''election_term''"
definition metaVotedFor :: string where "metaVotedFor = ''election_voted_for''"

definition PutUint64 :: "int \<Rightarrow> string" where
  "PutUint64 t = map (\<lambda>i. char_of (t mod 2 ^ 64 div 256 ^ (7 - i) mod 256)) [0..<8]"

definition Uint64 :: "string \<Rightarrow> int option" where
  "Uint64 v =
     (if length v < 8 then None else Some (foldl (\<lambda>acc c. acc * 256 + of_char c) 0 (take 8 v)))"

definition Store_SaveElectionState ::
  "('db, 'z) bolt_scheme \<Rightarrow> 'db \<Rightarrow> int \<Rightarrow> string \<Rightarrow> store_err option \<times> 'db" where
  "Store_SaveElectionState B db term votedFor =
     wrap_update (bolt_Update B db
       [BPut bucketMeta metaTerm (PutUint64 term), BPut bucketMeta metaVotedFor votedFor])"

definition Store_LoadElectionState ::
  "('db, 'z) bolt_scheme \<Rightarrow> 'db \<Rightarrow> (store_err + int \<times> string) option" where
  "Store_LoadElectionState B db =
     (case bolt_Get B db bucketMeta metaTerm of
        Inl e \<Rightarrow> Some (Inl (ErrDB e))
      | Inr tv \<Rightarrow>
          (case (case tv of None \<Rightarrow> Some 0 | Some v \<Rightarrow> map_option i64 (Uint64 v)) of
             None \<Rightarrow> None
           | Some term \<Rightarrow>
               (case bolt_Get B db bucketMeta metaVotedFor of
                  Inl e \<Rightarrow> Some (Inl (ErrDB e))
                | Inr None \<Rightarrow> Some (Inr (term, ''''))
                | Inr (Some v) \<Rightarrow> Some (Inr (term, v)))))"

section \<open>What the repository relies on\<close>

text \<open>An open database whose buckets hold \<open>c\<close>, and the effect of a committed transaction.\<close>

type_synonym contents = "string \<Rightarrow> string \<rightharpoonup> string"

definition reads :: "('db, 'z) bolt_scheme \<Rightarrow> 'db \<Rightarrow> contents \<Rightarrow> bool" where
  "reads B db c \<longleftrightarrow> (\<forall>b k. bolt_Get B db b k = Inr (c b k))"

fun bolt_effect :: "bolt_op \<Rightarrow> contents \<Rightarrow> contents" where
  "bolt_effect (BPut b k v) c = c(b := (c b)(k \<mapsto> v))"
| "bolt_effect (BDelete b k) c = c(b := (c b)(k := None))"
| "bolt_effect (BCreateBucket b) c = c"

definition bolt_laws :: "('db, 'z) bolt_scheme \<Rightarrow> bool" where
  "bolt_laws B \<longleftrightarrow>
     (\<forall>db c ops r db'. reads B db c \<longrightarrow> bolt_Update B db ops = (r, db') \<longrightarrow>
        reads B db' (case r of None \<Rightarrow> fold bolt_effect ops c | Some _ \<Rightarrow> c)) \<and>
     (\<forall>db c b. reads B db c \<longrightarrow>
        (\<exists>kvs. bolt_ForEach B db b = Inr kvs \<and> sorted_wrt (<) (map fst kvs) \<and> map_of kvs = c b)) \<and>
     (\<forall>db c b. reads B db c \<longrightarrow> bolt_KeyN B db b = Inr (card (dom (c b))))"

definition codec_laws :: "('db, 'z) bolt_scheme \<Rightarrow> bool" where
  "codec_laws B \<longleftrightarrow>
     (\<forall>j bs. marshal_Job B j = Inr bs \<longrightarrow> unmarshal_Job B bs = Inr j) \<and>
     (\<forall>w bs. marshal_Worker B w = Inr bs \<longrightarrow> unmarshal_Worker B bs = Inr w)"

definition store_laws :: "('db, 'z) bolt_scheme \<Rightarrow> bool" where
  "store_laws B \<longleftrightarrow> bolt_laws B \<and> codec_laws B"

section \<open>Buckets as maps\<close>

definition bucket_abs ::
  "('db, 'z) bolt_scheme \<Rightarrow> string \<Rightarrow> (string \<Rightarrow> goerr + 'v) \<Rightarrow> 'db \<Rightarrow> string \<rightharpoonup> 'v" where
  "bucket_abs B bucket u db k =
     (case bolt_Get B db bucket k of
        Inr (Some data) \<Rightarrow> (case u data of Inr v \<Rightarrow> Some v | Inl _ \<Rightarrow> None)
      | _ \<Rightarrow> None)"

definition bucket_wf ::
  "string \<Rightarrow> (string \<Rightarrow> goerr + 'v) \<Rightarrow> ('v \<Rightarrow> string) \<Rightarrow> contents \<Rightarrow> bool" where
  "bucket_wf bucket u key c \<longleftrightarrow>
     (\<forall>k data. c bucket k = Some data \<longrightarrow> (\<exists>v. u data = Inr v \<and> key v = k))"

text \<open>An open store: every value in a bucket decodes to a message stored under its own ID.\<close>

definition store_wf :: "('db, 'z) bolt_scheme \<Rightarrow> 'db \<Rightarrow> bool" where
  "store_wf B db \<longleftrightarrow>
     (\<exists>c. reads B db c \<and> bucket_wf bucketJobs (unmarshal_Job B) j_Id c \<and>
        bucket_wf bucketWorkers (unmarshal_Worker B) w_Id c \<and>
        bucket_wf bucketDeadLetter (unmarshal_Job B) j_Id c)"

definition jobs_of :: "('db, 'z) bolt_scheme \<Rightarrow> 'db \<Rightarrow> string \<rightharpoonup> Job" where
  "jobs_of B = bucket_abs B bucketJobs (unmarshal_Job B)"

definition workers_of :: "('db, 'z) bolt_scheme \<Rightarrow> 'db \<Rightarrow> string \<rightharpoonup> WorkerInfo" where
  "workers_of B = bucket_abs B bucketWorkers (unmarshal_Worker B)"

definition dead_of :: "('db, 'z) bolt_scheme \<Rightarrow> 'db \<Rightarrow> string \<rightharpoonup> Job" where
  "dead_of B = bucket_abs B bucketDeadLetter (unmarshal_Job B)"

text \<open>The persisted term and vote; an absent key reads as zero and the empty string.\<close>

definition election_of :: "('db, 'z) bolt_scheme \<Rightarrow> 'db \<Rightarrow> string option \<times> string option" where
  "election_of B db =
     ((case bolt_Get B db bucketMeta metaTerm of Inr v \<Rightarrow> v | _ \<Rightarrow> None),
      (case bolt_Get B db bucketMeta metaVotedFor of Inr v \<Rightarrow> v | _ \<Rightarrow> None))"

lemma bucket_names_distinct [simp]:
  "bucketJobs \<noteq> bucketWorkers" "bucketJobs \<noteq> bucketDeadLetter" "bucketJobs \<noteq> bucketMeta"
  "bucketWorkers \<noteq> bucketJobs" "bucketWorkers \<noteq> bucketDeadLetter" "bucketWorkers \<noteq> bucketMeta"
  "bucketDeadLetter \<noteq> bucketJobs" "bucketDeadLetter \<noteq> bucketWorkers" "bucketDeadLetter \<noteq> bucketMeta"
  "bucketMeta \<noteq> bucketJobs" "bucketMeta \<noteq> bucketWorkers" "bucketMeta \<noteq> bucketDeadLetter"
  "metaTerm \<noteq> metaVotedFor" "metaVotedFor \<noteq> metaTerm"
  by (simp_all add: bucketJobs_def bucketWorkers_def bucketDeadLetter_def bucketMeta_def
      metaTerm_def metaVotedFor_def)

lemma bucket_abs_reads:
  "reads B db c \<Longrightarrow> bucket_wf b u key c \<Longrightarrow>
   bucket_abs B b u db = (\<lambda>k. map_option (\<lambda>data. projr (u data)) (c b k))"
  by (rule ext) (fastforce simp: reads_def bucket_abs_def bucket_wf_def split: option.splits sum.splits)

lemma put_value_effect:
  assumes laws: "bolt_laws B" and r: "reads B db c" and put: "put_value B b m key db v = (res, db')"
    and codec: "\<And>bs. m v = Inr bs \<Longrightarrow> u bs = Inr v"
  obtains bs where "res = None" "u bs = Inr v" "reads B db' (c(b := (c b)(key v \<mapsto> bs)))"
  | "res \<noteq> None" "reads B db' c"
proof (cases "m v")
  case (Inl e)
  then show thesis using put r that(2) by (auto simp: put_value_def)
next
  case (Inr bs)
  obtain r0 where up: "bolt_Update B db [BPut b (key v) bs] = (r0, db')" "res = map_option ErrDB r0"
    using put Inr by (auto simp: put_value_def wrap_update_def prod_eq_iff)
  then have "reads B db' (case r0 of None \<Rightarrow> fold bolt_effect [BPut b (key v) bs] c | Some _ \<Rightarrow> c)"
    using laws r unfolding bolt_laws_def by blast
  then show thesis
    using that codec [OF Inr] up(2) by (cases r0) auto
qed

lemma bucket_wf_put:
  "bucket_wf b u key c \<Longrightarrow> u bs = Inr v \<Longrightarrow> bucket_wf b u key (c(b := (c b)(key v \<mapsto> bs)))"
  by (auto simp: bucket_wf_def)

lemma bucket_wf_other: "b' \<noteq> b \<Longrightarrow> bucket_wf b u key (c(b' := m)) = bucket_wf b u key c"
  by (simp add: bucket_wf_def)

lemma list_values_spec:
  assumes laws: "bolt_laws B" and r: "reads B db c" and wf: "bucket_wf b u key c"
  obtains vs where "list_values B b u db = Inr vs" "sorted_wrt (<) (map key vs)"
    "\<And>k v. bucket_abs B b u db k = Some v \<longleftrightarrow> v \<in> set vs \<and> key v = k"
proof -
  obtain kvs where each: "bolt_ForEach B db b = Inr kvs" and sorted: "sorted_wrt (<) (map fst kvs)"
    and map: "map_of kvs = c b"
    using laws r unfolding bolt_laws_def by blast
  have dist: "distinct (map fst kvs)"
    using sorted by (induction kvs) auto
  have ok: "\<exists>v. u data = Inr v \<and> key v = k" if "(k, data) \<in> set kvs" for k data
    using that wf map map_of_is_SomeI [OF dist that] by (auto simp: bucket_wf_def)
  define vs where "vs = map (\<lambda>(k, data). projr (u data)) kvs"
  have all: "unmarshal_all u kvs = Inr vs"
    unfolding vs_def using ok by (induction kvs) (fastforce split: sum.splits)+
  have keys: "map key vs = map fst kvs"
    unfolding vs_def using ok by (auto simp: split_beta) fastforce
  have "bucket_abs B b u db k = Some v \<longleftrightarrow> v \<in> set vs \<and> key v = k" for k v
  proof -
    have "bucket_abs B b u db k = Some v \<longleftrightarrow> (\<exists>data. (k, data) \<in> set kvs \<and> v = projr (u data))"
      by (auto simp: bucket_abs_reads [OF r wf] map [symmetric] map_of_eq_Some_iff [OF dist])
    also have "\<dots> \<longleftrightarrow> (\<exists>(k', data) \<in> set kvs. v = projr (u data) \<and> key v = k)"
      using ok by fastforce
    finally show ?thesis unfolding vs_def set_map image_iff by (auto simp: split_beta)
  qed
  with each all sorted keys show thesis
    by (intro that [of vs]) (simp_all add: list_values_def)
qed

section \<open>The interface of the three buckets\<close>

text \<open>
  A bucket as its clients see it: \<open>put\<close> upserts a value under its own key or changes nothing, and
  \<open>list\<close> answers every value once, in the order of the keys.
\<close>

locale listed_store =
  fixes laws :: "'e \<Rightarrow> bool"
    and wf :: "'e \<Rightarrow> 'db \<Rightarrow> bool"
    and abs :: "'e \<Rightarrow> 'db \<Rightarrow> string \<rightharpoonup> 'v"
    and key :: "'v \<Rightarrow> string"
    and put :: "'e \<Rightarrow> 'db \<Rightarrow> 'v \<Rightarrow> store_err option \<times> 'db"
    and list :: "'e \<Rightarrow> 'db \<Rightarrow> store_err + 'v list"
  assumes put_wf: "laws e \<Longrightarrow> wf e db \<Longrightarrow> wf e (snd (put e db v))"
    and put_abs: "laws e \<Longrightarrow> wf e db \<Longrightarrow> abs e (snd (put e db v)) =
      (case fst (put e db v) of None \<Rightarrow> (abs e db)(key v \<mapsto> v) | Some _ \<Rightarrow> abs e db)"
    and list_spec: "laws e \<Longrightarrow> wf e db \<Longrightarrow>
      \<exists>vs. list e db = Inr vs \<and> sorted_wrt (<) (map key vs) \<and>
        (\<forall>k v. abs e db k = Some v \<longleftrightarrow> v \<in> set vs \<and> key v = k)"
begin

lemma listE:
  assumes "laws e" "wf e db"
  obtains vs where "list e db = Inr vs" "sorted_wrt (<) (map key vs)" "distinct (map key vs)"
    "\<And>k v. abs e db k = Some v \<longleftrightarrow> v \<in> set vs \<and> key v = k"
proof -
  obtain vs where vs: "list e db = Inr vs" "sorted_wrt (<) (map key vs)"
    "\<And>k v. abs e db k = Some v \<longleftrightarrow> v \<in> set vs \<and> key v = k"
    using list_spec [OF assms] by blast
  moreover have "distinct (map key vs)" using vs(2) by (induction vs) auto
  ultimately show thesis using that by blast
qed

lemma keyed: "laws e \<Longrightarrow> wf e db \<Longrightarrow> abs e db k = Some v \<Longrightarrow> key v = k"
  by (erule (1) listE) simp

lemma finite_dom: "laws e \<Longrightarrow> wf e db \<Longrightarrow> finite (dom (abs e db))"
proof -
  assume "laws e" "wf e db"
  then obtain vs where vs: "\<And>k v. abs e db k = Some v \<longleftrightarrow> v \<in> set vs \<and> key v = k"
    by (rule listE) simp
  have "dom (abs e db) = key ` set vs" by (auto simp: vs)
  then show ?thesis by simp
qed

text \<open>The list is determined by the map: the store's order is canonical.\<close>

lemma list_unique:
  assumes "laws e" "wf e db" "wf e db'" "abs e db = abs e db'"
  shows "list e db = list e db'"
proof -
  obtain vs where vs: "list e db = Inr vs" "sorted_wrt (<) (map key vs)"
    "\<And>k v. abs e db k = Some v \<longleftrightarrow> v \<in> set vs \<and> key v = k"
    using list_spec [OF assms(1,2)] by blast
  obtain ws where ws: "list e db' = Inr ws" "sorted_wrt (<) (map key ws)"
    "\<And>k v. abs e db' k = Some v \<longleftrightarrow> v \<in> set ws \<and> key v = k"
    using list_spec [OF assms(1,3)] by blast
  have "sorted (map key vs)" "sorted (map key ws)" "distinct (map key vs)" "distinct (map key ws)"
    using vs(2) ws(2) strict_sorted_iff by blast+
  moreover have "v \<in> set vs \<longleftrightarrow> v \<in> set ws" for v
    using vs(3) [of "key v" v] ws(3) [of "key v" v] assms(4) by simp
  moreover have "inj_on key (set vs)"
    using \<open>distinct (map key vs)\<close> by (simp add: distinct_map)
  ultimately have "vs = ws"
    by (intro map_sorted_distinct_set_unique [of key]) (auto simp: inj_on_def)
  then show ?thesis using vs(1) ws(1) by simp
qed

end

locale keyed_store = listed_store +
  fixes get :: "'a \<Rightarrow> 'b \<Rightarrow> string \<Rightarrow> store_err + 'c"
  assumes get_spec: "laws e \<Longrightarrow> wf e db \<Longrightarrow>
      get e db k = (case abs e db k of None \<Rightarrow> Inl ErrNotFound | Some v \<Rightarrow> Inr v)"
begin

lemma get_put:
  assumes "laws e" "wf e db" "put e db v = (None, db')"
  shows "get e db' (key v) = Inr v" and "k \<noteq> key v \<Longrightarrow> get e db' k = get e db k"
  using put_wf [OF assms(1,2), of v] put_abs [OF assms(1,2), of v] assms
  by (simp_all add: get_spec)

lemma get_put_failed:
  assumes "laws e" "wf e db" "put e db v = (Some er, db')"
  shows "get e db' k = get e db k"
  using put_wf [OF assms(1,2), of v] put_abs [OF assms(1,2), of v] assms
  by (simp add: get_spec)

end

text \<open>A \<open>put\<close> into one bucket: what it does to that bucket, and that it leaves the others alone.\<close>

lemma put_value_abs:
  assumes laws: "bolt_laws B" and r: "reads B db c" and wf: "bucket_wf b u key c"
    and codec: "\<And>bs. m v = Inr bs \<Longrightarrow> u bs = Inr v"
  shows "bucket_abs B b u (snd (put_value B b m key db v)) =
    (case fst (put_value B b m key db v) of
       None \<Rightarrow> (bucket_abs B b u db)(key v \<mapsto> v) | Some _ \<Rightarrow> bucket_abs B b u db)"
    and "b' \<noteq> b \<Longrightarrow> bolt_Get B (snd (put_value B b m key db v)) b' k = bolt_Get B db b' k"
    and "\<exists>c'. reads B (snd (put_value B b m key db v)) c' \<and> bucket_wf b u key c' \<and>
      (\<forall>b'. b' \<noteq> b \<longrightarrow> c' b' = c b')"
proof -
  obtain res db' where put: "put_value B b m key db v = (res, db')" by force
  consider bs where "res = None" "u bs = Inr v" "reads B db' (c(b := (c b)(key v \<mapsto> bs)))"
    | "res \<noteq> None" "reads B db' c"
    using put_value_effect [where u = u, OF laws r put codec] by blast
  then have "bucket_abs B b u db' =
      (case res of None \<Rightarrow> (bucket_abs B b u db)(key v \<mapsto> v) | Some _ \<Rightarrow> bucket_abs B b u db) \<and>
    (b' \<noteq> b \<longrightarrow> bolt_Get B db' b' k = bolt_Get B db b' k) \<and>
    (\<exists>c'. reads B db' c' \<and> bucket_wf b u key c' \<and> (\<forall>b'. b' \<noteq> b \<longrightarrow> c' b' = c b'))"
  proof cases
    case 1
    have wf': "bucket_wf b u key (c(b := (c b)(key v \<mapsto> bs)))" by (rule bucket_wf_put [OF wf 1(2)])
    have "bucket_abs B b u db' = (bucket_abs B b u db)(key v \<mapsto> v)"
      by (auto simp: bucket_abs_reads [OF r wf] bucket_abs_reads [OF 1(3) wf'] 1(2))
    moreover have "b' \<noteq> b \<longrightarrow> bolt_Get B db' b' k = bolt_Get B db b' k"
      using r 1(3) by (simp add: reads_def)
    moreover have "\<exists>c'. reads B db' c' \<and> bucket_wf b u key c' \<and> (\<forall>b'. b' \<noteq> b \<longrightarrow> c' b' = c b')"
      by (rule exI [of _ "c(b := (c b)(key v \<mapsto> bs))"]) (simp add: 1(3) wf')
    ultimately show ?thesis by (simp add: 1(1))
  next
    case 2
    then show ?thesis
      using r wf bucket_abs_reads [OF r wf] bucket_abs_reads [OF 2(2) wf]
      by (auto simp: reads_def split: option.splits)
  qed
  then show "bucket_abs B b u (snd (put_value B b m key db v)) =
    (case fst (put_value B b m key db v) of
       None \<Rightarrow> (bucket_abs B b u db)(key v \<mapsto> v) | Some _ \<Rightarrow> bucket_abs B b u db)"
    and "b' \<noteq> b \<Longrightarrow> bolt_Get B (snd (put_value B b m key db v)) b' k = bolt_Get B db b' k"
    and "\<exists>c'. reads B (snd (put_value B b m key db v)) c' \<and> bucket_wf b u key c' \<and>
      (\<forall>b'. b' \<noteq> b \<longrightarrow> c' b' = c b')"
    by (simp_all add: put)
qed

lemma store_wfE:
  assumes "store_wf B db"
  obtains c where "reads B db c" "bucket_wf bucketJobs (unmarshal_Job B) j_Id c"
    "bucket_wf bucketWorkers (unmarshal_Worker B) w_Id c"
    "bucket_wf bucketDeadLetter (unmarshal_Job B) j_Id c"
  using assms unfolding store_wf_def by blast

lemma codec_Job: "store_laws B \<Longrightarrow> marshal_Job B j = Inr bs \<Longrightarrow> unmarshal_Job B bs = Inr j"
  and codec_Worker: "store_laws B \<Longrightarrow> marshal_Worker B w = Inr bs \<Longrightarrow> unmarshal_Worker B bs = Inr w"
  and laws_bolt: "store_laws B \<Longrightarrow> bolt_laws B"
  by (simp_all add: store_laws_def codec_laws_def)

lemma bucket_wf_local: "bucket_wf b u key c \<Longrightarrow> c' b = c b \<Longrightarrow> bucket_wf b u key c'"
  by (simp add: bucket_wf_def)

lemma bucket_abs_local:
  "(\<And>k. bolt_Get B db' b k = bolt_Get B db b k) \<Longrightarrow> bucket_abs B b u db' = bucket_abs B b u db"
  by (rule ext) (simp add: bucket_abs_def)

lemma put_value_frame:
  assumes "store_laws B" "reads B db c" "bucket_wf b u key c" "\<And>bs. m v = Inr bs \<Longrightarrow> u bs = Inr v"
  shows "b' \<noteq> b \<Longrightarrow>
      bucket_abs B b' u' (snd (put_value B b m key db v)) = bucket_abs B b' u' db"
    and "b \<noteq> bucketMeta \<Longrightarrow> election_of B (snd (put_value B b m key db v)) = election_of B db"
  using put_value_abs(2) [OF laws_bolt [OF assms(1)] assms(2,3), of m v] assms(4)
  by (auto simp: election_of_def intro!: bucket_abs_local)

lemma PutJob_store:
  assumes laws: "store_laws B" and wf: "store_wf B db"
  shows "store_wf B (snd (Store_PutJob B db j))"
    and "jobs_of B (snd (Store_PutJob B db j)) =
      (case fst (Store_PutJob B db j) of None \<Rightarrow> (jobs_of B db)(j_Id j \<mapsto> j) | Some _ \<Rightarrow> jobs_of B db)"
    and "workers_of B (snd (Store_PutJob B db j)) = workers_of B db"
    and "dead_of B (snd (Store_PutJob B db j)) = dead_of B db"
    and "election_of B (snd (Store_PutJob B db j)) = election_of B db"
proof -
  note codec = codec_Job [OF laws, of j]
  obtain c where c: "reads B db c" "bucket_wf bucketJobs (unmarshal_Job B) j_Id c"
    "bucket_wf bucketWorkers (unmarshal_Worker B) w_Id c"
    "bucket_wf bucketDeadLetter (unmarshal_Job B) j_Id c"
    using store_wfE [OF wf] .
  show "store_wf B (snd (Store_PutJob B db j))"
  proof -
    from put_value_abs(3) [where m = "marshal_Job B" and v = j, OF laws_bolt [OF laws] c(1,2) codec]
    obtain c' where c': "reads B (snd (Store_PutJob B db j)) c'" "bucket_wf bucketJobs (unmarshal_Job B) j_Id c'"
      "\<forall>b. b \<noteq> bucketJobs \<longrightarrow> c' b = c b"
      unfolding Store_PutJob_def by blast
    then show ?thesis
      using bucket_wf_local [OF c(3), of c'] bucket_wf_local [OF c(4), of c']
      unfolding store_wf_def by (intro exI [of _ c']) simp
  qed
  show "jobs_of B (snd (Store_PutJob B db j)) =
      (case fst (Store_PutJob B db j) of None \<Rightarrow> (jobs_of B db)(j_Id j \<mapsto> j) | Some _ \<Rightarrow> jobs_of B db)"
    unfolding jobs_of_def Store_PutJob_def
    by (rule put_value_abs(1) [OF laws_bolt [OF laws] c(1,2) codec])
  show "workers_of B (snd (Store_PutJob B db j)) = workers_of B db"
    "dead_of B (snd (Store_PutJob B db j)) = dead_of B db"
    "election_of B (snd (Store_PutJob B db j)) = election_of B db"
    by (simp_all add: put_value_frame [where m = "marshal_Job B" and v = j, OF laws c(1,2) codec]
        workers_of_def dead_of_def Store_PutJob_def)
qed

lemma PutWorker_store:
  assumes laws: "store_laws B" and wf: "store_wf B db"
  shows "store_wf B (snd (Store_PutWorker B db w))"
    and "workers_of B (snd (Store_PutWorker B db w)) =
      (case fst (Store_PutWorker B db w) of
         None \<Rightarrow> (workers_of B db)(w_Id w \<mapsto> w) | Some _ \<Rightarrow> workers_of B db)"
    and "jobs_of B (snd (Store_PutWorker B db w)) = jobs_of B db"
    and "dead_of B (snd (Store_PutWorker B db w)) = dead_of B db"
    and "election_of B (snd (Store_PutWorker B db w)) = election_of B db"
proof -
  note codec = codec_Worker [OF laws, of w]
  obtain c where c: "reads B db c" "bucket_wf bucketJobs (unmarshal_Job B) j_Id c"
    "bucket_wf bucketWorkers (unmarshal_Worker B) w_Id c"
    "bucket_wf bucketDeadLetter (unmarshal_Job B) j_Id c"
    using store_wfE [OF wf] .
  show "store_wf B (snd (Store_PutWorker B db w))"
  proof -
    from put_value_abs(3) [where m = "marshal_Worker B" and v = w, OF laws_bolt [OF laws] c(1,3) codec]
    obtain c' where c': "reads B (snd (Store_PutWorker B db w)) c'" "bucket_wf bucketWorkers (unmarshal_Worker B) w_Id c'"
      "\<forall>b. b \<noteq> bucketWorkers \<longrightarrow> c' b = c b"
      unfolding Store_PutWorker_def by blast
    then show ?thesis
      using bucket_wf_local [OF c(2), of c'] bucket_wf_local [OF c(4), of c']
      unfolding store_wf_def by (intro exI [of _ c']) simp
  qed
  show "workers_of B (snd (Store_PutWorker B db w)) =
      (case fst (Store_PutWorker B db w) of
         None \<Rightarrow> (workers_of B db)(w_Id w \<mapsto> w) | Some _ \<Rightarrow> workers_of B db)"
    unfolding workers_of_def Store_PutWorker_def
    by (rule put_value_abs(1) [OF laws_bolt [OF laws] c(1,3) codec])
  show "jobs_of B (snd (Store_PutWorker B db w)) = jobs_of B db"
    "dead_of B (snd (Store_PutWorker B db w)) = dead_of B db"
    "election_of B (snd (Store_PutWorker B db w)) = election_of B db"
    by (simp_all add: put_value_frame [where m = "marshal_Worker B" and v = w, OF laws c(1,3) codec]
        jobs_of_def dead_of_def Store_PutWorker_def)
qed

lemma PutDeadLetter_store:
  assumes laws: "store_laws B" and wf: "store_wf B db"
  shows "store_wf B (snd (Store_PutDeadLetter B db j))"
    and "dead_of B (snd (Store_PutDeadLetter B db j)) =
      (case fst (Store_PutDeadLetter B db j) of
         None \<Rightarrow> (dead_of B db)(j_Id j \<mapsto> j) | Some _ \<Rightarrow> dead_of B db)"
    and "jobs_of B (snd (Store_PutDeadLetter B db j)) = jobs_of B db"
    and "workers_of B (snd (Store_PutDeadLetter B db j)) = workers_of B db"
    and "election_of B (snd (Store_PutDeadLetter B db j)) = election_of B db"
proof -
  note codec = codec_Job [OF laws, of j]
  obtain c where c: "reads B db c" "bucket_wf bucketJobs (unmarshal_Job B) j_Id c"
    "bucket_wf bucketWorkers (unmarshal_Worker B) w_Id c"
    "bucket_wf bucketDeadLetter (unmarshal_Job B) j_Id c"
    using store_wfE [OF wf] .
  show "store_wf B (snd (Store_PutDeadLetter B db j))"
  proof -
    from put_value_abs(3) [where m = "marshal_Job B" and v = j, OF laws_bolt [OF laws] c(1,4) codec]
    obtain c' where c': "reads B (snd (Store_PutDeadLetter B db j)) c'" "bucket_wf bucketDeadLetter (unmarshal_Job B) j_Id c'"
      "\<forall>b. b \<noteq> bucketDeadLetter \<longrightarrow> c' b = c b"
      unfolding Store_PutDeadLetter_def by blast
    then show ?thesis
      using bucket_wf_local [OF c(2), of c'] bucket_wf_local [OF c(3), of c']
      unfolding store_wf_def by (intro exI [of _ c']) simp
  qed
  show "dead_of B (snd (Store_PutDeadLetter B db j)) =
      (case fst (Store_PutDeadLetter B db j) of
         None \<Rightarrow> (dead_of B db)(j_Id j \<mapsto> j) | Some _ \<Rightarrow> dead_of B db)"
    unfolding dead_of_def Store_PutDeadLetter_def
    by (rule put_value_abs(1) [OF laws_bolt [OF laws] c(1,4) codec])
  show "jobs_of B (snd (Store_PutDeadLetter B db j)) = jobs_of B db"
    "workers_of B (snd (Store_PutDeadLetter B db j)) = workers_of B db"
    "election_of B (snd (Store_PutDeadLetter B db j)) = election_of B db"
    by (simp_all add: put_value_frame [where m = "marshal_Job B" and v = j, OF laws c(1,4) codec]
        jobs_of_def workers_of_def Store_PutDeadLetter_def)
qed

lemma DeleteJob_store:
  assumes laws: "store_laws B" and wf: "store_wf B db"
  shows "store_wf B (snd (Store_DeleteJob B db k))"
    and "jobs_of B (snd (Store_DeleteJob B db k)) =
      (case fst (Store_DeleteJob B db k) of None \<Rightarrow> (jobs_of B db)(k := None) | Some _ \<Rightarrow> jobs_of B db)"
    and "workers_of B (snd (Store_DeleteJob B db k)) = workers_of B db"
    and "dead_of B (snd (Store_DeleteJob B db k)) = dead_of B db"
proof -
  obtain c where c: "reads B db c" "bucket_wf bucketJobs (unmarshal_Job B) j_Id c"
    "bucket_wf bucketWorkers (unmarshal_Worker B) w_Id c"
    "bucket_wf bucketDeadLetter (unmarshal_Job B) j_Id c"
    using store_wfE [OF wf] .
  obtain r db' where up: "bolt_Update B db [BDelete bucketJobs k] = (r, db')" by force
  define c' where "c' = (case r of None \<Rightarrow> c(bucketJobs := (c bucketJobs)(k := None)) | Some _ \<Rightarrow> c)"
  have "reads B db' (case r of None \<Rightarrow> fold bolt_effect [BDelete bucketJobs k] c | Some _ \<Rightarrow> c)"
    using laws_bolt [OF laws] c(1) up unfolding bolt_laws_def by blast
  then have r': "reads B db' c'" by (simp add: c'_def split: option.splits)
  have del: "Store_DeleteJob B db k = (map_option ErrDB r, db')"
    by (simp add: Store_DeleteJob_def up wrap_update_def)
  have wf': "bucket_wf bucketJobs (unmarshal_Job B) j_Id c'"
    using c(2) by (auto simp: bucket_wf_def c'_def split: option.splits)
  show "store_wf B (snd (Store_DeleteJob B db k))"
    unfolding store_wf_def del snd_conv
    using r' wf' bucket_wf_local [OF c(3), of c'] bucket_wf_local [OF c(4), of c']
    by (intro exI [of _ c']) (simp add: c'_def split: option.splits)
  show "jobs_of B (snd (Store_DeleteJob B db k)) =
      (case fst (Store_DeleteJob B db k) of None \<Rightarrow> (jobs_of B db)(k := None) | Some _ \<Rightarrow> jobs_of B db)"
    unfolding jobs_of_def del snd_conv fst_conv bucket_abs_reads [OF r' wf'] bucket_abs_reads [OF c(1,2)]
    by (cases r) (auto simp: c'_def)
  have "bolt_Get B db' b x = bolt_Get B db b x" if "b \<noteq> bucketJobs" for b x
    using r' c(1) that by (simp add: reads_def c'_def split: option.splits)
  then show "workers_of B (snd (Store_DeleteJob B db k)) = workers_of B db"
    "dead_of B (snd (Store_DeleteJob B db k)) = dead_of B db"
    unfolding workers_of_def dead_of_def del snd_conv by (auto intro!: bucket_abs_local)
qed

text \<open>A store in which no write fails: every message marshals and every transaction commits.\<close>

definition no_faults :: "('db, 'z) bolt_scheme \<Rightarrow> bool" where
  "no_faults B \<longleftrightarrow> (\<forall>db ops. fst (bolt_Update B db ops) = None) \<and>
     (\<forall>j. \<exists>bs. marshal_Job B j = Inr bs) \<and> (\<forall>w. \<exists>bs. marshal_Worker B w = Inr bs)"

lemma no_faults_writes:
  assumes "no_faults B"
  shows "fst (Store_PutJob B db j) = None" "fst (Store_PutWorker B db w) = None"
    "fst (Store_PutDeadLetter B db j) = None" "fst (Store_DeleteJob B db k) = None"
proof -
  obtain bs bw where "marshal_Job B j = Inr bs" "marshal_Worker B w = Inr bw"
    using assms unfolding no_faults_def by blast
  then show "fst (Store_PutJob B db j) = None" "fst (Store_PutWorker B db w) = None"
    "fst (Store_PutDeadLetter B db j) = None" "fst (Store_DeleteJob B db k) = None"
    using assms
    by (simp_all add: Store_PutJob_def Store_PutWorker_def Store_PutDeadLetter_def Store_DeleteJob_def put_value_def
        wrap_update_def no_faults_def)
qed

lemma list_values_store:
  assumes laws: "store_laws B" and "reads B db c" "bucket_wf b u key c"
  shows "\<exists>vs. list_values B b u db = Inr vs \<and> sorted_wrt (<) (map key vs) \<and>
    (\<forall>k v. bucket_abs B b u db k = Some v \<longleftrightarrow> v \<in> set vs \<and> key v = k)"
  using list_values_spec [OF laws_bolt [OF laws] assms(2,3)] by metis

lemma get_value_store:
  assumes "reads B db c" "bucket_wf b u key c"
  shows "get_value B b u db k =
    (case bucket_abs B b u db k of None \<Rightarrow> Inl ErrNotFound | Some v \<Rightarrow> Inr v)"
  using assms
  by (fastforce simp: get_value_def bucket_abs_def reads_def bucket_wf_def
      split: option.splits sum.splits)

interpretation jobs: keyed_store store_laws store_wf jobs_of j_Id Store_PutJob Store_ListJobs Store_GetJob
proof (unfold_locales, goal_cases)
  case (3 B db)
  then show ?case
    unfolding jobs_of_def Store_ListJobs_def by (auto elim!: store_wfE intro!: list_values_store)
next
  case (4 B db k)
  from 4(2) show ?case
    unfolding jobs_of_def Store_GetJob_def by (elim store_wfE) (rule get_value_store)
qed (simp_all add: PutJob_store)

interpretation wrks: keyed_store store_laws store_wf workers_of w_Id Store_PutWorker Store_ListWorkers Store_GetWorker
proof (unfold_locales, goal_cases)
  case (3 B db)
  then show ?case
    unfolding workers_of_def Store_ListWorkers_def by (auto elim!: store_wfE intro!: list_values_store)
next
  case (4 B db k)
  from 4(2) show ?case
    unfolding workers_of_def Store_GetWorker_def by (elim store_wfE) (rule get_value_store)
qed (simp_all add: PutWorker_store)

interpretation dead: listed_store store_laws store_wf dead_of j_Id Store_PutDeadLetter Store_ListDeadLetter
proof (unfold_locales, goal_cases)
  case (3 B db)
  then show ?case
    unfolding dead_of_def Store_ListDeadLetter_def by (auto elim!: store_wfE intro!: list_values_store)
qed (simp_all add: PutDeadLetter_store)

section \<open>Election state\<close>

lemma byte_step: "n div (256 * m) * 256 + n div m mod 256 = n div (m :: int)"
  using div_mult_mod_eq [of "n div m" 256] by (simp add: zdiv_zmult2_eq mult.commute)

lemma PutUint64_digits:
  "foldl (\<lambda>acc c. acc * 256 + of_char c) (0::int) (PutUint64 t) = t mod 2 ^ 64"
proof -
  define n where "n = t mod 2 ^ 64"
  have n: "0 \<le> n" "n < 2 ^ 64" by (simp_all add: n_def)
  have upt: "[0..<8] = [0, 1, 2, 3, 4, 5, 6, 7 :: nat]" by (simp add: upt_rec)
  have "foldl (\<lambda>acc c. acc * 256 + of_char c) (0::int) (PutUint64 t) =
      ((((((n div 256 ^ 7 mod 256 * 256 + n div 256 ^ 6 mod 256) * 256 + n div 256 ^ 5 mod 256) * 256 +
        n div 256 ^ 4 mod 256) * 256 + n div 256 ^ 3 mod 256) * 256 + n div 256 ^ 2 mod 256) * 256 +
        n div 256 mod 256) * 256 + n mod 256"
    unfolding PutUint64_def upt n_def [symmetric] by simp
  also have "n div 256 ^ 7 mod 256 = n div (256 * 256 ^ 6)"
    using n by (simp add: mod_pos_pos_trivial)
  also have "((((((n div (256 * 256 ^ 6) * 256 + n div 256 ^ 6 mod 256) * 256 + n div 256 ^ 5 mod 256) * 256 +
        n div 256 ^ 4 mod 256) * 256 + n div 256 ^ 3 mod 256) * 256 + n div 256 ^ 2 mod 256) * 256 +
        n div 256 mod 256) * 256 + n mod 256 = n"
    using byte_step [of n "256 ^ 6"] byte_step [of n "256 ^ 5"] byte_step [of n "256 ^ 4"]
      byte_step [of n "256 ^ 3"] byte_step [of n "256 ^ 2"] byte_step [of n 256] byte_step [of n 1]
    by simp
  finally show ?thesis by (simp add: n_def)
qed

lemma Uint64_PutUint64: "Uint64 (PutUint64 t) = Some (t mod 2 ^ 64)"
proof -
  have "length (PutUint64 t) = 8" by (simp add: PutUint64_def)
  then show ?thesis unfolding Uint64_def using PutUint64_digits [of t] by simp
qed

lemma i64_mod:
  assumes "min_int64 \<le> t" "t \<le> max_int64"
  shows "i64 (t mod 2 ^ 64) = t"
proof -
  have "i64 (t mod 2 ^ 64) = i64 (take_bit 64 t)" by (simp add: take_bit_eq_mod)
  also have "\<dots> = i64 t" by (simp add: i64_def signed_take_bit_take_bit)
  also have "\<dots> = t" using assms by (intro i64_id) (simp_all add: min_int64_def max_int64_def)
  finally show ?thesis .
qed

lemma SaveElectionState_effect:
  assumes laws: "store_laws B" and r: "reads B db c"
  obtains er db' c' where "Store_SaveElectionState B db t v = (er, db')" "reads B db' c'"
    "\<forall>b. b \<noteq> bucketMeta \<longrightarrow> c' b = c b"
    "er = None \<longrightarrow> c' bucketMeta metaTerm = Some (PutUint64 t) \<and> c' bucketMeta metaVotedFor = Some v"
    "er \<noteq> None \<longrightarrow> c' = c"
proof -
  let ?ops = "[BPut bucketMeta metaTerm (PutUint64 t), BPut bucketMeta metaVotedFor v]"
  obtain r' db' where up: "bolt_Update B db ?ops = (r', db')" by force
  have "reads B db' (case r' of None \<Rightarrow> fold bolt_effect ?ops c | Some _ \<Rightarrow> c)"
    using laws_bolt [OF laws] r up unfolding bolt_laws_def by blast
  then show thesis
    by (cases r'; intro that [of "map_option ErrDB r'" db' "case r' of None \<Rightarrow> fold bolt_effect ?ops c | Some _ \<Rightarrow> c"])
      (simp_all add: Store_SaveElectionState_def wrap_update_def up)
qed

lemma SaveElectionState_store:
  assumes laws: "store_laws B" and wf: "store_wf B db"
  shows "store_wf B (snd (Store_SaveElectionState B db t v))"
    and "jobs_of B (snd (Store_SaveElectionState B db t v)) = jobs_of B db"
    and "workers_of B (snd (Store_SaveElectionState B db t v)) = workers_of B db"
    and "dead_of B (snd (Store_SaveElectionState B db t v)) = dead_of B db"
    and "election_of B (snd (Store_SaveElectionState B db t v)) =
      (case fst (Store_SaveElectionState B db t v) of
         None \<Rightarrow> (Some (PutUint64 t), Some v) | Some _ \<Rightarrow> election_of B db)"
proof -
  obtain c where c: "reads B db c" "bucket_wf bucketJobs (unmarshal_Job B) j_Id c"
    "bucket_wf bucketWorkers (unmarshal_Worker B) w_Id c"
    "bucket_wf bucketDeadLetter (unmarshal_Job B) j_Id c"
    using store_wfE [OF wf] .
  obtain er db' c' where save: "Store_SaveElectionState B db t v = (er, db')" and r': "reads B db' c'"
    and other: "\<forall>b. b \<noteq> bucketMeta \<longrightarrow> c' b = c b"
    and ok: "er = None \<longrightarrow> c' bucketMeta metaTerm = Some (PutUint64 t) \<and> c' bucketMeta metaVotedFor = Some v"
    and bad: "er \<noteq> None \<longrightarrow> c' = c"
    by (rule SaveElectionState_effect [where t = t and v = v, OF laws c(1)])
  show "store_wf B (snd (Store_SaveElectionState B db t v))"
    unfolding store_wf_def save snd_conv
    using r' bucket_wf_local [OF c(2), of c'] bucket_wf_local [OF c(3), of c']
      bucket_wf_local [OF c(4), of c'] by (intro exI [of _ c']) (simp add: other)
  have "bolt_Get B db' b k = bolt_Get B db b k" if "b \<noteq> bucketMeta" for b k
    using r' c(1) other that by (simp add: reads_def)
  then show "jobs_of B (snd (Store_SaveElectionState B db t v)) = jobs_of B db"
    "workers_of B (snd (Store_SaveElectionState B db t v)) = workers_of B db"
    "dead_of B (snd (Store_SaveElectionState B db t v)) = dead_of B db"
    unfolding jobs_of_def workers_of_def dead_of_def save snd_conv
    by (auto intro!: bucket_abs_local)
  show "election_of B (snd (Store_SaveElectionState B db t v)) =
      (case fst (Store_SaveElectionState B db t v) of
         None \<Rightarrow> (Some (PutUint64 t), Some v) | Some _ \<Rightarrow> election_of B db)"
    using r' c(1) ok bad by (simp add: save election_of_def reads_def split: option.splits)
qed

lemma LoadElectionState_store:
  assumes "store_wf B db"
  shows "Store_LoadElectionState B db =
    (case (case fst (election_of B db) of None \<Rightarrow> Some 0 | Some v \<Rightarrow> map_option i64 (Uint64 v)) of
       None \<Rightarrow> None
     | Some t \<Rightarrow> Some (Inr (t, case snd (election_of B db) of None \<Rightarrow> '''' | Some v \<Rightarrow> v)))"
  using assms
  by (auto elim!: store_wfE simp: reads_def Store_LoadElectionState_def election_of_def
      split: option.splits)

lemma Load_after_Save:
  assumes "store_laws B" "store_wf B db" "Store_SaveElectionState B db t v = (None, db')"
    and "min_int64 \<le> t" "t \<le> max_int64"
  shows "Store_LoadElectionState B db' = Some (Inr (t, v))"
proof -
  have "store_wf B db'" "election_of B db' = (Some (PutUint64 t), Some v)"
    using SaveElectionState_store(1,5) [OF assms(1,2), of t v] by (simp_all add: assms(3))
  then show ?thesis
    by (simp only: LoadElectionState_store Uint64_PutUint64 i64_mod [OF assms(4,5)] fst_conv snd_conv
        option.case option.map)
qed

end
