(* ===== verification/Mem_Store.thy ===== *)
theory Mem_Store
  imports Bolt_Store "HOL-Library.Countable"
begin

text \<open>
  A concrete instance of the BoltDB and codec parameters of \<open>Bolt_Store\<close>: a database is a function
  from bucket names to association lists, a transaction never fails, and a message is encoded by
  its number in an enumeration of its type. The instance satisfies \<^const>\<open>store_laws\<close>; the
  witnesses of the development evaluate the model over it.
\<close>

section \<open>Countability of the messages\<close>

instance JobState :: countable by countable_datatype
instance WorkerState :: countable by countable_datatype
instance f64 :: countable by countable_datatype
instance Schedule_Kind :: countable by countable_datatype

instance TaskSpec_ext :: (countable) countable
  by (rule countable_classI [of "\<lambda>x. to_nat (ts_Command x, ts_Args x, ts_Env x, ts_Timeout x, ts_Payload x,
      TaskSpec.more x)"]) simp

instance RetryPolicy_ext :: (countable) countable
  by (rule countable_classI [of "\<lambda>x. to_nat (rp_MaxAttempts x, rp_InitialBackoff x, rp_MaxBackoff x,
      rp_BackoffMultiplier x, rp_Jitter x, RetryPolicy.more x)"]) simp

instance Schedule_ext :: (countable) countable
  by (rule countable_classI [of "\<lambda>x. to_nat (sc_Kind x, sc_Timezone x, Schedule.more x)"]) simp

instance Job_ext :: (countable) countable
  by (rule countable_classI [of "\<lambda>x. to_nat ((j_Id x, j_Name x, j_Priority x, j_Spec x, j_DependsOn x,
      j_Schedule x, j_RetryPolicy x, j_State x), (j_Attempt x, j_AssignedWorkerId x, j_LastError x,
      j_CreatedAt x, j_UpdatedAt x, j_ScheduledAt x, j_StartedAt x, j_FinishedAt x), Job.more x)"]) simp

instance WorkerInfo_ext :: (countable) countable
  by (rule countable_classI [of "\<lambda>x. to_nat (w_Id x, w_Address x, w_Capacity x, w_Labels x, w_State x,
      w_LastHeartbeat x, w_RunningTasks x, WorkerInfo.more x)"]) simp

section \<open>The instance\<close>

type_synonym mem = "string \<Rightarrow> (string \<times> string) list"

definition encode :: "'a::countable \<Rightarrow> string" where
  "encode x = replicate (to_nat x) (CHR ''x'')"

definition decode :: "string \<Rightarrow> 'a::countable" where
  "decode bs = from_nat (length bs)"

lemma decode_encode [simp]: "decode (encode x) = x"
  by (simp add: decode_def encode_def)

fun mem_apply :: "bolt_op \<Rightarrow> mem \<Rightarrow> mem" where
  "mem_apply (BPut b k v) m = m(b := AList.update k v (m b))"
| "mem_apply (BDelete b k) m = m(b := AList.delete k (m b))"
| "mem_apply (BCreateBucket b) m = m"

definition mem_entries :: "(string \<times> string) list \<Rightarrow> (string \<times> string) list" where
  "mem_entries l = map (\<lambda>k. (k, the (map_of l k))) (sort (remdups (map fst l)))"

definition mem_bolt :: "mem bolt" where
  "mem_bolt =
     \<lparr>bolt_Open = (\<lambda>_. Inr (\<lambda>_. [])),
      bolt_Close = (\<lambda>_. None),
      bolt_Get = (\<lambda>m b k. Inr (map_of (m b) k)),
      bolt_ForEach = (\<lambda>m b. Inr (mem_entries (m b))),
      bolt_KeyN = (\<lambda>m b. Inr (length (remdups (map fst (m b))))),
      bolt_Update = (\<lambda>m ops. (None, fold mem_apply ops m)),
      marshal_Job = (\<lambda>j. Inr (encode j)),
      unmarshal_Job = (\<lambda>bs. Inr (decode bs)),
      marshal_Worker = (\<lambda>w. Inr (encode w)),
      unmarshal_Worker = (\<lambda>bs. Inr (decode bs))\<rparr>"

lemma mem_bolt_simps [simp]:
  "bolt_Open mem_bolt path = Inr (\<lambda>_. [])"
  "bolt_Get mem_bolt m b k = Inr (map_of (m b) k)"
  "bolt_ForEach mem_bolt m b = Inr (mem_entries (m b))"
  "bolt_KeyN mem_bolt m b = Inr (length (remdups (map fst (m b))))"
  "bolt_Update mem_bolt m ops = (None, fold mem_apply ops m)"
  "marshal_Job mem_bolt j = Inr (encode j)" "unmarshal_Job mem_bolt bs = Inr (decode bs)"
  "marshal_Worker mem_bolt w = Inr (encode w)" "unmarshal_Worker mem_bolt bs = Inr (decode bs)"
  by (simp_all add: mem_bolt_def)

lemma reads_mem_bolt: "reads mem_bolt m c \<longleftrightarrow> c = (\<lambda>b. map_of (m b))"
  by (auto simp: reads_def fun_eq_iff)

lemma mem_apply_effect: "(\<lambda>b. map_of (mem_apply op m b)) = bolt_effect op (\<lambda>b. map_of (m b))"
  by (cases op) auto

lemma fold_mem_apply_effect:
  "(\<lambda>b. map_of (fold mem_apply ops m b)) = fold bolt_effect ops (\<lambda>b. map_of (m b))"
  by (induction ops arbitrary: m) (simp_all add: mem_apply_effect)

lemma map_of_mem_entries: "map_of (mem_entries l) = map_of l"
proof
  fix k
  have "map_of (map (\<lambda>k. (k, the (map_of l k))) ks) k = (if k \<in> set ks then map_of l k else None)"
    if "set ks \<subseteq> fst ` set l" for ks
    using that by (induction ks) (auto simp: map_of_eq_None_iff dest: weak_map_of_SomeI)
  from this [of "sort (remdups (map fst l))"] show "map_of (mem_entries l) k = map_of l k"
    using map_of_eq_None_iff [of l k] by (cases "k \<in> fst ` set l") (simp_all add: mem_entries_def)
qed

lemma sorted_mem_entries: "sorted_wrt (<) (map fst (mem_entries l))"
  by (simp add: mem_entries_def comp_def strict_sorted_iff)

lemma store_laws_mem_bolt: "store_laws mem_bolt"
proof -
  have "\<exists>kvs. bolt_ForEach mem_bolt m b = Inr kvs \<and> sorted_wrt (<) (map fst kvs) \<and> map_of kvs = map_of (m b)"
    for m b
    by (simp add: map_of_mem_entries sorted_mem_entries)
  moreover have "length (remdups (map fst l)) = card (dom (map_of l))" for l :: "(string \<times> string) list"
    by (simp add: dom_map_of_conv_image_fst length_remdups_card_conv)
  ultimately show ?thesis
    unfolding store_laws_def bolt_laws_def codec_laws_def reads_mem_bolt
    by (auto simp: fold_mem_apply_effect)
qed

lemma store_wf_mem_bolt_empty: "store_wf mem_bolt (\<lambda>_. [])"
  by (simp add: store_wf_def reads_mem_bolt bucket_wf_def)

lemma store_wf_mem_bolt:
  "store_wf mem_bolt m \<longleftrightarrow>
     (\<forall>k bs. map_of (m bucketJobs) k = Some bs \<longrightarrow> j_Id (decode bs :: Job) = k) \<and>
     (\<forall>k bs. map_of (m bucketWorkers) k = Some bs \<longrightarrow> w_Id (decode bs :: WorkerInfo) = k) \<and>
     (\<forall>k bs. map_of (m bucketDeadLetter) k = Some bs \<longrightarrow> j_Id (decode bs :: Job) = k)"
  by (simp add: store_wf_def reads_mem_bolt bucket_wf_def)

text \<open>Databases holding given jobs and workers.\<close>

definition mem_of :: "Job list \<Rightarrow> WorkerInfo list \<Rightarrow> mem" where
  "mem_of js ws = (\<lambda>_. [])
     (bucketJobs := map (\<lambda>j. (j_Id j, encode j)) js, bucketWorkers := map (\<lambda>w. (w_Id w, encode w)) ws)"

lemma store_wf_mem_of: "store_wf mem_bolt (mem_of js ws)"
  by (auto simp: store_wf_mem_bolt mem_of_def dest!: map_of_SomeD)

lemma jobs_of_mem_of: "jobs_of mem_bolt (mem_of js ws) k = map_of (map (\<lambda>j. (j_Id j, j)) js) k"
  by (induction js) (auto simp: jobs_of_def bucket_abs_def mem_of_def)

lemma workers_of_mem_of: "workers_of mem_bolt (mem_of js ws) k = map_of (map (\<lambda>w. (w_Id w, w)) ws) k"
  by (induction ws) (auto simp: workers_of_def bucket_abs_def mem_of_def)

section \<open>Properties of the store\<close>

text \<open>
  Reading back what was written: after \<open>PutJob\<close> reports success, \<open>GetJob\<close> of the job's ID
  answers that job and \<open>GetJob\<close> of every other ID answers what it answered before; after a failed
  \<open>PutJob\<close> every \<open>GetJob\<close> answers what it answered before.
\<close>

lemma store_GetJob_PutJob:
  assumes "store_laws B" "store_wf B db"
  shows "Store_GetJob B (snd (Store_PutJob B db j)) k =
    (if fst (Store_PutJob B db j) = None \<and> k = j_Id j then Inr j else Store_GetJob B db k)"
  using jobs.put_wf [OF assms, of j] jobs.put_abs [OF assms, of j] assms
  by (simp add: jobs.get_spec split: option.splits)

definition sample_job :: "string \<Rightarrow> Job" where
  "sample_job k = \<lparr>j_Id = k, j_Name = ''job'', j_Priority = 0,
     j_Spec = Some \<lparr>ts_Command = ''echo'', ts_Args = [], ts_Env = [], ts_Timeout = None, ts_Payload = ''''\<rparr>,
     j_DependsOn = [], j_Schedule = None, j_RetryPolicy = None, j_State = JOB_STATE_QUEUED,
     j_Attempt = 0, j_AssignedWorkerId = '''', j_LastError = '''', j_CreatedAt = Some 1,
     j_UpdatedAt = Some 1, j_ScheduledAt = None, j_StartedAt = None, j_FinishedAt = None\<rparr>"

lemma store_GetJob_PutJob_example:
  "Store_GetJob mem_bolt (snd (Store_PutJob mem_bolt (mem_of [sample_job ''a''] []) (sample_job ''b''))) ''b'' =
     Inr (sample_job ''b'')"
  using store_GetJob_PutJob [OF store_laws_mem_bolt store_wf_mem_of [of "[sample_job ''a'']" "[]"],
      of "sample_job ''b''" "''b''"]
  by (simp add: Store_PutJob_def put_value_def wrap_update_def sample_job_def)

text \<open>
  C35. The election state survives a restart: after \<open>SaveElectionState\<close> reports success,
  \<open>LoadElectionState\<close> answers the same term and vote, for every \<open>int64\<close> term, through the
  big-endian encoding of the term.
\<close>

theorem election_state_round_trip:
  assumes "store_laws B" "store_wf B db" "Store_SaveElectionState B db term votedFor = (None, db')"
    and "min_int64 \<le> term" "term \<le> max_int64"
  shows "Store_LoadElectionState B db' = Some (Inr (term, votedFor))"
  by (rule Load_after_Save [OF assms])

theorem election_state_round_trip_witness:
  "\<exists>db'. Store_SaveElectionState mem_bolt (\<lambda>_. []) (- 7) ''n1'' = (None, db') \<and>
     Store_LoadElectionState mem_bolt db' = Some (Inr (- 7, ''n1''))"
proof -
  have "Store_SaveElectionState mem_bolt (\<lambda>_. []) (- 7) ''n1'' =
      (None, snd (Store_SaveElectionState mem_bolt (\<lambda>_. []) (- 7) ''n1''))"
    by (simp add: Store_SaveElectionState_def wrap_update_def)
  with election_state_round_trip [OF store_laws_mem_bolt store_wf_mem_bolt_empty this]
  show ?thesis by (auto simp: min_int64_def max_int64_def)
qed

end
