(* ===== verification/Election.thy ===== *)
theory Election
  imports Mem_Store
begin

text \<open>
  The per-replica election state machine (\<open>internal/cluster/cluster.go\<close>). A node is a record; the
  \<open>StateStore\<close> interface the node persists through is the record \<open>state_store\<close> over a type \<open>'d\<close>
  of durable states. Every method that holds the node's mutex is one function on the node and the
  durable state. \<open>startElection\<close> releases the mutex while the votes are out, so it is two
  functions, \<open>startElection\<close> up to the vote requests and \<open>receiveVote\<close> for one turn of its loop,
  with the local variables of the loop in a \<open>ballot\<close>.

  The callbacks \<open>onLeader\<close> and \<open>onStepDown\<close> run on goroutines of their own and are answered as a
  list; the reading of the clock and the random number of a timer reset are arguments.
\<close>

section \<open>Data\<close>

datatype Role = Follower | Candidate | Leader

fun Role_String :: "Role \<Rightarrow> string" where
  "Role_String Follower = ''follower''"
| "Role_String Candidate = ''candidate''"
| "Role_String Leader = ''leader''"

record 'd state_store =
  ss_LoadState :: "'d \<Rightarrow> (store_err + int \<times> string) option"
  ss_SaveState :: "'d \<Rightarrow> int \<Rightarrow> string \<Rightarrow> store_err option \<times> 'd"

record node_config =
  nc_NodeID :: string
  nc_Members :: "string list"
  nc_ElectionTimeoutMin :: duration
  nc_ElectionTimeoutMax :: duration

definition node_withDefaults :: "node_config \<Rightarrow> node_config" where
  "node_withDefaults c =
     (let c = (if nc_ElectionTimeoutMin c = 0 then c\<lparr>nc_ElectionTimeoutMin := 800 * millisecond\<rparr> else c);
          c = (if nc_ElectionTimeoutMax c = 0 then c\<lparr>nc_ElectionTimeoutMax := 1600 * millisecond\<rparr> else c)
      in if nc_Members c = [] then c\<lparr>nc_Members := [nc_NodeID c]\<rparr> else c)"

record node =
  n_cfg :: node_config
  n_role :: Role
  n_currentTerm :: int
  n_votedFor :: string
  n_leaderID :: string
  n_electionDeadline :: time

datatype callback = OnLeader int | OnStepDown int

text \<open>What one reset of the election timer reads: the clock and \<open>rand\<close>.\<close>

type_synonym draw = "time \<times> int"

section \<open>Methods\<close>

definition Node_New :: "node_config \<Rightarrow> node" where
  "Node_New cfg =
     \<lparr>n_cfg = node_withDefaults cfg, n_role = Follower, n_currentTerm = 0, n_votedFor = '''',
      n_leaderID = '''', n_electionDeadline = 0\<rparr>"

definition majority :: "node \<Rightarrow> nat" where
  "majority n = length (nc_Members (n_cfg n)) div 2 + 1"

definition peers :: "node \<Rightarrow> string list" where
  "peers n = filter (\<lambda>m. m \<noteq> nc_NodeID (n_cfg n)) (nc_Members (n_cfg n))"

definition persistLocked :: "'d state_store \<Rightarrow> node \<Rightarrow> 'd \<Rightarrow> 'd" where
  "persistLocked ss n d = snd (ss_SaveState ss d (n_currentTerm n) (n_votedFor n))"

definition resetElectionTimerLocked :: "draw \<Rightarrow> node \<Rightarrow> node" where
  "resetElectionTimerLocked dr n =
     (let span = i64 (nc_ElectionTimeoutMax (n_cfg n) - nc_ElectionTimeoutMin (n_cfg n));
          timeout = nc_ElectionTimeoutMin (n_cfg n);
          timeout = (if 0 < span then i64 (timeout + snd dr mod span) else timeout)
      in n\<lparr>n_electionDeadline := fst dr + timeout\<rparr>)"

definition becomeFollowerLocked ::
  "'d state_store \<Rightarrow> draw \<Rightarrow> int \<Rightarrow> node \<Rightarrow> 'd \<Rightarrow> callback list \<times> node \<times> 'd" where
  "becomeFollowerLocked ss dr term n d =
     (let wasLeader = (n_role n = Leader);
          (n1, d1) = (if n_currentTerm n < term
                      then let n' = n\<lparr>n_currentTerm := term, n_votedFor := ''''\<rparr> in (n', persistLocked ss n' d)
                      else (n, d));
          n2 = resetElectionTimerLocked dr (n1\<lparr>n_role := Follower\<rparr>)
      in (if wasLeader then [OnStepDown (n_currentTerm n2)] else [], n2, d1))"

definition Node_Start ::
  "'d state_store \<Rightarrow> draw \<Rightarrow> node \<Rightarrow> 'd \<Rightarrow> (callback list \<times> node \<times> 'd) option" where
  "Node_Start ss dr n d =
     (case ss_LoadState ss d of
        None \<Rightarrow> None
      | Some r \<Rightarrow>
          (let n = (case r of Inl _ \<Rightarrow> n | Inr (t, v) \<Rightarrow> n\<lparr>n_currentTerm := t, n_votedFor := v\<rparr>)
           in if majority n \<le> 1
              then let n' = n\<lparr>n_currentTerm := i64 (n_currentTerm n + 1), n_votedFor := nc_NodeID (n_cfg n)\<rparr>;
                       d' = persistLocked ss n' d;
                       n'' = n'\<lparr>n_role := Leader, n_leaderID := nc_NodeID (n_cfg n)\<rparr>
                   in Some ([OnLeader (n_currentTerm n'')], n'', d')
              else Some ([], resetElectionTimerLocked dr n, d)))"

text \<open>The condition of the loop of \<open>run\<close>, evaluated under the mutex.\<close>

definition run_campaign :: "time \<Rightarrow> node \<Rightarrow> bool" where
  "run_campaign now n \<longleftrightarrow> n_role n \<noteq> Leader \<and> n_electionDeadline n < now"

record voteResult =
  vr_granted :: bool
  vr_peerTerm :: int
  vr_ok :: bool

text \<open>The local variables of \<open>startElection\<close>, and the peers whose result is still to come.\<close>

record ballot =
  b_term :: int
  b_votes :: nat
  b_needed :: nat
  b_peers :: "string list"

definition startElection ::
  "'d state_store \<Rightarrow> draw \<Rightarrow> node \<Rightarrow> 'd \<Rightarrow> ballot \<times> node \<times> 'd" where
  "startElection ss dr n d =
     (let n1 = n\<lparr>n_role := Candidate, n_currentTerm := i64 (n_currentTerm n + 1),
                 n_votedFor := nc_NodeID (n_cfg n)\<rparr>;
          d1 = persistLocked ss n1 d;
          n2 = resetElectionTimerLocked dr n1
      in (\<lparr>b_term = n_currentTerm n2, b_votes = 1, b_needed = majority n2, b_peers = peers n2\<rparr>, n2, d1))"

definition becomeLeaderLocked :: "int \<Rightarrow> node \<Rightarrow> callback list \<times> node" where
  "becomeLeaderLocked term n =
     ([OnLeader term], n\<lparr>n_role := Leader, n_leaderID := nc_NodeID (n_cfg n)\<rparr>)"

text \<open>
  One turn of the loop of \<open>startElection\<close>: the result \<open>r\<close> of peer \<open>p\<close> comes out of the channel.
  \<^const>\<open>None\<close> in place of the ballot means that \<open>startElection\<close> has returned.
\<close>

definition next_turn :: "ballot \<Rightarrow> ballot option" where
  "next_turn b = (if b_peers b = [] then None else Some b)"

definition receiveVote ::
  "'d state_store \<Rightarrow> draw \<Rightarrow> string \<Rightarrow> voteResult \<Rightarrow> ballot \<Rightarrow> node \<Rightarrow> 'd \<Rightarrow>
   ballot option \<times> callback list \<times> node \<times> 'd" where
  "receiveVote ss dr p r b n d =
     (let b = b\<lparr>b_peers := remove1 p (b_peers b)\<rparr> in
      if \<not> vr_ok r then (next_turn b, [], n, d)
      else if n_role n \<noteq> Candidate \<or> n_currentTerm n \<noteq> b_term b then (None, [], n, d)
      else if n_currentTerm n < vr_peerTerm r
           then let (cbs, n', d') = becomeFollowerLocked ss dr (vr_peerTerm r) n d in (None, cbs, n', d')
      else if vr_granted r
           then let b = b\<lparr>b_votes := b_votes b + 1\<rparr> in
                if b_needed b \<le> b_votes b
                then let (cbs, n') = becomeLeaderLocked (b_term b) n in (None, cbs, n', d)
                else (next_turn b, [], n, d)
      else (next_turn b, [], n, d))"

definition HandleVote ::
  "'d state_store \<Rightarrow> draw \<Rightarrow> draw \<Rightarrow> int \<Rightarrow> string \<Rightarrow> node \<Rightarrow> 'd \<Rightarrow>
   (bool \<times> int) \<times> callback list \<times> node \<times> 'd" where
  "HandleVote ss dr1 dr2 term candidateID n d =
     (if term < n_currentTerm n then ((False, n_currentTerm n), [], n, d)
      else
        let (cbs, n1, d1) = (if n_currentTerm n < term then becomeFollowerLocked ss dr1 term n d else ([], n, d))
        in if n_votedFor n1 = '''' \<or> n_votedFor n1 = candidateID
           then let n2 = n1\<lparr>n_votedFor := candidateID\<rparr>;
                    d2 = persistLocked ss n2 d1;
                    n3 = resetElectionTimerLocked dr2 n2
                in ((True, n_currentTerm n3), cbs, n3, d2)
           else ((False, n_currentTerm n1), cbs, n1, d1))"

definition ObserveLeader ::
  "'d state_store \<Rightarrow> draw \<Rightarrow> draw \<Rightarrow> int \<Rightarrow> string \<Rightarrow> node \<Rightarrow> 'd \<Rightarrow>
   (bool \<times> int) \<times> callback list \<times> node \<times> 'd" where
  "ObserveLeader ss dr1 dr2 term leaderID n d =
     (if term < n_currentTerm n then ((False, n_currentTerm n), [], n, d)
      else if n_currentTerm n < term
           then let (cbs, n1, d1) = becomeFollowerLocked ss dr1 term n d;
                    n2 = resetElectionTimerLocked dr2 (n1\<lparr>n_leaderID := leaderID\<rparr>)
                in ((True, n_currentTerm n2), cbs, n2, d1)
      else if n_role n = Leader then ((True, n_currentTerm n), [], n, d)
      else let n1 = (if n_role n = Candidate then n\<lparr>n_role := Follower\<rparr> else n);
               n2 = resetElectionTimerLocked dr2 (n1\<lparr>n_leaderID := leaderID\<rparr>)
           in ((True, n_currentTerm n2), [], n2, d))"

definition MaybeStepDown ::
  "'d state_store \<Rightarrow> draw \<Rightarrow> int \<Rightarrow> node \<Rightarrow> 'd \<Rightarrow> callback list \<times> node \<times> 'd" where
  "MaybeStepDown ss dr peerTerm n d =
     (if n_currentTerm n < peerTerm then becomeFollowerLocked ss dr peerTerm n d else ([], n, d))"

definition Node_IsLeader :: "node \<Rightarrow> bool" where
  "Node_IsLeader n \<longleftrightarrow> n_role n = Leader"

definition Node_Role :: "node \<Rightarrow> Role" where
  "Node_Role n = n_role n"

definition Node_Term :: "node \<Rightarrow> int" where
  "Node_Term n = n_currentTerm n"

definition Node_LeaderID :: "node \<Rightarrow> string" where
  "Node_LeaderID n = (if n_role n = Leader then nc_NodeID (n_cfg n) else n_leaderID n)"

end
