(* ===== verification/Election_System.thy ===== *)
theory Election_System
  imports Election
begin

text \<open>
  A cluster of election nodes as a transition system. Each member runs the methods of
  \<open>Election\<close>; a step is one critical section of one member's mutex. The network may delay, lose,
  repeat and reorder messages: what was sent stays in a set, and receiving does not remove it. A
  member may crash at any point and restart from its durable state.

  \<open>cl_cast\<close> and \<open>cl_led\<close> are history variables: the votes cast (a member's vote for itself
  included) and the leaderships assumed so far. No step reads them.
\<close>

text \<open>The adapter of \<open>server.go\<close> from the BoltDB store to \<open>cluster.StateStore\<close>.\<close>

definition electionStore :: "('db, 'z) bolt_scheme \<Rightarrow> 'db state_store" where
  "electionStore B =
     \<lparr>ss_LoadState = Store_LoadElectionState B, ss_SaveState = Store_SaveElectionState B\<rparr>"

text \<open>Every write of the election state succeeds.\<close>

definition reliable :: "'d state_store \<Rightarrow> bool" where
  "reliable ss \<longleftrightarrow> (\<forall>d t v. fst (ss_SaveState ss d t v) = None)"

text \<open>Where the goroutine \<open>run\<close> of a member is: waiting, about to campaign, or counting votes.\<close>

datatype run_point = Waiting | Campaigning | Counting ballot

record 'd member =
  mb_node :: node
  mb_disk :: 'd
  mb_run :: run_point

type_synonym vote_request = "string \<times> int \<times> string"
type_synonym vote_reply = "string \<times> int \<times> string \<times> bool \<times> int"

record 'd cluster =
  cl_member :: "string \<Rightarrow> 'd member"
  cl_requests :: "vote_request set"
  cl_replies :: "vote_reply set"
  cl_beats :: "(string \<times> int) set"
  cl_terms :: "int set"
  cl_cast :: "(string \<times> int \<times> string) set"
  cl_led :: "(string \<times> int) set"

definition member_config :: "string list \<Rightarrow> duration \<Rightarrow> duration \<Rightarrow> string \<Rightarrow> node_config" where
  "member_config ms tmin tmax p =
     \<lparr>nc_NodeID = p, nc_Members = ms, nc_ElectionTimeoutMin = tmin, nc_ElectionTimeoutMax = tmax\<rparr>"

text \<open>A member that starts: a new node, \<open>Start\<close> on its durable state, and the goroutine \<open>run\<close>.\<close>

definition boot :: "'d state_store \<Rightarrow> node_config \<Rightarrow> draw \<Rightarrow> 'd \<Rightarrow> 'd member option" where
  "boot ss cfg dr d =
     map_option (\<lambda>(cbs, n, d'). \<lparr>mb_node = n, mb_disk = d', mb_run = Waiting\<rparr>)
       (Node_Start ss dr (Node_New cfg) d)"

definition assumed :: "string \<Rightarrow> node \<Rightarrow> (string \<times> int) set" where
  "assumed p n = (if n_role n = Leader then {(p, n_currentTerm n)} else {})"

text \<open>A durable state no member has voted from.\<close>

definition blank :: "'d state_store \<Rightarrow> 'd \<Rightarrow> bool" where
  "blank ss d \<longleftrightarrow> ss_LoadState ss d = Some (Inr (0, ''''))"

inductive election_init ::
  "'d state_store \<Rightarrow> ('d \<Rightarrow> bool) \<Rightarrow> string list \<Rightarrow> duration \<Rightarrow> duration \<Rightarrow> 'd cluster \<Rightarrow> bool"
  for ss :: "'d state_store" and wf :: "'d \<Rightarrow> bool" and ms :: "string list" and tmin tmax :: duration where
  init: "(\<And>p. p \<in> set ms \<Longrightarrow> wf (disk p) \<and> blank ss (disk p) \<and>
            boot ss (member_config ms tmin tmax p) (dr p) (disk p) = Some (mem p)) \<Longrightarrow>
   election_init ss wf ms tmin tmax
     \<lparr>cl_member = mem, cl_requests = {}, cl_replies = {}, cl_beats = {}, cl_terms = {},
      cl_cast = (if length ms \<le> 1 then {(p, n_currentTerm (mb_node (mem p)), p) | p. p \<in> set ms} else {}),
      cl_led = (\<Union>p \<in> set ms. assumed p (mb_node (mem p)))\<rparr>"

inductive election_step ::
  "'d state_store \<Rightarrow> string list \<Rightarrow> duration \<Rightarrow> duration \<Rightarrow> 'd cluster \<Rightarrow> 'd cluster \<Rightarrow> bool"
  for ss :: "'d state_store" and ms :: "string list" and tmin tmax :: duration where
  tick:
  "p \<in> set ms \<Longrightarrow> cl_member C p = m \<Longrightarrow> mb_run m = Waiting \<Longrightarrow> run_campaign now (mb_node m) \<Longrightarrow>
   election_step ss ms tmin tmax C
     (C\<lparr>cl_member := (cl_member C)(p := m\<lparr>mb_run := Campaigning\<rparr>)\<rparr>)"
| campaign:
  "p \<in> set ms \<Longrightarrow> cl_member C p = m \<Longrightarrow> mb_run m = Campaigning \<Longrightarrow>
   n_currentTerm (mb_node m) < max_int64 \<Longrightarrow>
   startElection ss dr (mb_node m) (mb_disk m) = (b, n', d') \<Longrightarrow>
   election_step ss ms tmin tmax C
     (C\<lparr>cl_member := (cl_member C)(p := \<lparr>mb_node = n', mb_disk = d',
            mb_run = (case next_turn b of None \<Rightarrow> Waiting | Some b \<Rightarrow> Counting b)\<rparr>),
        cl_requests := cl_requests C \<union> {(p, b_term b, q) | q. q \<in> set (b_peers b)},
        cl_cast := insert (p, b_term b, p) (cl_cast C)\<rparr>)"
| vote:
  "p \<in> set ms \<Longrightarrow> cl_member C p = m \<Longrightarrow> (c, t, p) \<in> cl_requests C \<Longrightarrow>
   HandleVote ss dr1 dr2 t c (mb_node m) (mb_disk m) = ((granted, ct), cbs, n', d') \<Longrightarrow>
   election_step ss ms tmin tmax C
     (C\<lparr>cl_member := (cl_member C)(p := m\<lparr>mb_node := n', mb_disk := d'\<rparr>),
        cl_replies := insert (c, t, p, granted, ct) (cl_replies C),
        cl_cast := (if granted then insert (p, t, c) (cl_cast C) else cl_cast C)\<rparr>)"
| receive:
  "c \<in> set ms \<Longrightarrow> cl_member C c = m \<Longrightarrow> mb_run m = Counting b \<Longrightarrow> p \<in> set (b_peers b) \<Longrightarrow>
   \<not> vr_ok r \<or> (c, b_term b, p, vr_granted r, vr_peerTerm r) \<in> cl_replies C \<Longrightarrow>
   receiveVote ss dr p r b (mb_node m) (mb_disk m) = (b', cbs, n', d') \<Longrightarrow>
   election_step ss ms tmin tmax C
     (C\<lparr>cl_member := (cl_member C)(c := \<lparr>mb_node = n', mb_disk = d',
            mb_run = (case b' of None \<Rightarrow> Waiting | Some b \<Rightarrow> Counting b)\<rparr>),
        cl_led := cl_led C \<union> assumed c n'\<rparr>)"
| beat:
  "p \<in> set ms \<Longrightarrow> cl_member C p = m \<Longrightarrow>
   election_step ss ms tmin tmax C (C\<lparr>cl_beats := insert (p, Node_Term (mb_node m)) (cl_beats C)\<rparr>)"
| observe:
  "p \<in> set ms \<Longrightarrow> cl_member C p = m \<Longrightarrow> (l, t) \<in> cl_beats C \<Longrightarrow>
   ObserveLeader ss dr1 dr2 t l (mb_node m) (mb_disk m) = ((accepted, ct), cbs, n', d') \<Longrightarrow>
   election_step ss ms tmin tmax C
     (C\<lparr>cl_member := (cl_member C)(p := m\<lparr>mb_node := n', mb_disk := d'\<rparr>),
        cl_terms := insert ct (cl_terms C)\<rparr>)"
| step_down:
  "p \<in> set ms \<Longrightarrow> cl_member C p = m \<Longrightarrow> t \<in> cl_terms C \<Longrightarrow>
   MaybeStepDown ss dr t (mb_node m) (mb_disk m) = (cbs, n', d') \<Longrightarrow>
   election_step ss ms tmin tmax C
     (C\<lparr>cl_member := (cl_member C)(p := m\<lparr>mb_node := n', mb_disk := d'\<rparr>)\<rparr>)"
| restart:
  "p \<in> set ms \<Longrightarrow> cl_member C p = m \<Longrightarrow> n_currentTerm (mb_node m) < max_int64 \<Longrightarrow>
   boot ss (member_config ms tmin tmax p) dr (mb_disk m) = Some m' \<Longrightarrow>
   election_step ss ms tmin tmax C
     (C\<lparr>cl_member := (cl_member C)(p := m'),
        cl_cast := (if length ms \<le> 1 then insert (p, n_currentTerm (mb_node m'), p) (cl_cast C) else cl_cast C),
        cl_led := cl_led C \<union> assumed p (mb_node m')\<rparr>)"

inductive election_reach ::
  "'d state_store \<Rightarrow> ('d \<Rightarrow> bool) \<Rightarrow> string list \<Rightarrow> duration \<Rightarrow> duration \<Rightarrow> 'd cluster \<Rightarrow> bool"
  for ss :: "'d state_store" and wf :: "'d \<Rightarrow> bool" and ms :: "string list" and tmin tmax :: duration where
  start: "election_init ss wf ms tmin tmax C \<Longrightarrow> election_reach ss wf ms tmin tmax C"
| step: "election_reach ss wf ms tmin tmax C \<Longrightarrow> election_step ss ms tmin tmax C C' \<Longrightarrow>
    election_reach ss wf ms tmin tmax C'"

end
