(* ===== verification/Server_State.thy ===== *)
theory Server_State
  imports Ready_Queue Retry Election_System
begin

text \<open>
  The state of one scheduler node and the small methods every handler uses
  (\<open>internal/scheduler/server.go\<close>, the lease and dependency-index helpers of \<open>dispatch.go\<close> and
  \<open>deps.go\<close>, \<open>internal/ids\<close>).

  A server is a record with the fields of the Go \<open>Server\<close>; a handler is a function from the state
  to an answer and the next state. Handlers run one at a time: the development does not interleave
  two handlers between the mutexes they take. What the code gets from outside is the record
  \<open>env\<close>, which extends BoltDB by the clock, random numbers, UUIDs, the order of map iterations,
  the cron parser, the conversion of unrepresentable floats and the result of binding a listening
  socket; \<open>s_tick\<close> counts how often the
  outside world has been asked, so that two readings need not agree. Log lines are left out; the
  increments of the Prometheus counters are kept in the order they happen.
\<close>

section \<open>The outside world\<close>

record 'db env = "'db bolt" +
  env_now :: "nat \<Rightarrow> time"
  env_float :: "nat \<Rightarrow> f64"
  env_int63 :: "nat \<Rightarrow> int"
  env_uuid :: "nat \<Rightarrow> string"
  env_order :: "nat \<Rightarrow> string list \<Rightarrow> string list"
  env_cron :: "string \<Rightarrow> goerr + (time \<Rightarrow> time)"
  env_unrep :: "f64 \<Rightarrow> duration"
  env_listen :: "string \<Rightarrow> goerr option"

section \<open>Data\<close>

record Member =
  m_ID :: string
  m_Address :: string

record Config =
  cfg_NodeID :: string
  cfg_ListenAddr :: string
  cfg_DataDir :: string
  cfg_Members :: "Member list"
  cfg_HeartbeatTimeout :: duration
  cfg_LeaseTTL :: duration
  cfg_HeartbeatInterval :: duration
  cfg_ElectionTimeoutMin :: duration
  cfg_ElectionTimeoutMax :: duration
  cfg_ReaperInterval :: duration
  cfg_MetricsAddr :: string

definition Config_withDefaults :: "Config \<Rightarrow> Config" where
  "Config_withDefaults c =
     (let c = (if cfg_NodeID c = '''' then c\<lparr>cfg_NodeID := ''scheduler-1''\<rparr> else c);
          c = (if cfg_ListenAddr c = '''' then c\<lparr>cfg_ListenAddr := '':7070''\<rparr> else c);
          c = (if cfg_DataDir c = '''' then c\<lparr>cfg_DataDir := ''./data''\<rparr> else c);
          c = (if cfg_HeartbeatTimeout c = 0 then c\<lparr>cfg_HeartbeatTimeout := 15 * second\<rparr> else c);
          c = (if cfg_LeaseTTL c = 0 then c\<lparr>cfg_LeaseTTL := 30 * second\<rparr> else c);
          c = (if cfg_HeartbeatInterval c = 0 then c\<lparr>cfg_HeartbeatInterval := 250 * millisecond\<rparr> else c);
          c = (if cfg_ElectionTimeoutMin c = 0 then c\<lparr>cfg_ElectionTimeoutMin := 800 * millisecond\<rparr> else c);
          c = (if cfg_ElectionTimeoutMax c = 0 then c\<lparr>cfg_ElectionTimeoutMax := 1600 * millisecond\<rparr> else c);
          c = (if cfg_ReaperInterval c = 0 then c\<lparr>cfg_ReaperInterval := 3 * second\<rparr> else c)
      in if cfg_Members c = []
         then c\<lparr>cfg_Members := [\<lparr>m_ID = cfg_NodeID c, m_Address = cfg_ListenAddr c\<rparr>]\<rparr> else c)"

record lease =
  ls_taskID :: string
  ls_jobID :: string
  ls_workerID :: string
  ls_attempt :: int
  ls_deadline :: time

datatype counter = JobsSubmitted | JobsSucceeded | JobsDeadLettered | JobsCanceled
  | TasksDispatched | TasksRetried | TasksRequeued

text \<open>
  \<open>s_retryTimers\<close> holds the delay each armed timer was given; \<open>s_revIndex\<close> maps a job to the set
  of jobs waiting on it, a \<open>map[string]struct{}\<close>; \<open>s_pending\<close> are the election callbacks whose
  goroutine has not run yet.
\<close>

record 'db server =
  s_cfg :: Config
  s_members :: "(string \<times> string) list"
  s_selfAddr :: string
  s_db :: 'db
  s_queue :: pqueue
  s_node :: node
  s_workers :: "(string \<times> WorkerInfo) list"
  s_leases :: "(string \<times> lease) list"
  s_retryTimers :: "(string \<times> duration) list"
  s_replLog :: "ReplicationEntry list"
  s_replSeq :: int
  s_peerAcked :: "(string \<times> int) list"
  s_revIndex :: "(string \<times> (string \<times> unit) list) list"
  s_closed :: bool
  s_pending :: "callback list"
  s_counters :: "counter list"
  s_tick :: nat

section \<open>Asking the outside world\<close>

definition asked :: "'db server \<Rightarrow> 'db server" where
  "asked s = s\<lparr>s_tick := Suc (s_tick s)\<rparr>"

definition time_Now :: "'db env \<Rightarrow> 'db server \<Rightarrow> time" where
  "time_Now E s = env_now E (s_tick s)"

definition time_Until :: "'db env \<Rightarrow> 'db server \<Rightarrow> time \<Rightarrow> duration" where
  "time_Until E s t = time_sub t (time_Now E s)"

definition ids_New :: "'db env \<Rightarrow> 'db server \<Rightarrow> string \<Rightarrow> string" where
  "ids_New E s prefix = prefix @ ''-'' @ env_uuid E (s_tick s)"

definition Inc :: "counter \<Rightarrow> 'db server \<Rightarrow> 'db server" where
  "Inc c s = s\<lparr>s_counters := s_counters s @ [c]\<rparr>"

section \<open>Leadership and replication log\<close>

definition Server_IsLeader :: "'db server \<Rightarrow> bool" where
  "Server_IsLeader s = Node_IsLeader (s_node s)"

definition Server_Term :: "'db server \<Rightarrow> int" where
  "Server_Term s = Node_Term (s_node s)"

definition leaderAddr :: "'db server \<Rightarrow> string" where
  "leaderAddr s = (case map_of (s_members s) (Node_LeaderID (s_node s)) of None \<Rightarrow> '''' | Some a \<Rightarrow> a)"

definition requireLeader :: "'db server \<Rightarrow> rpc_error option" where
  "requireLeader s = (if Node_IsLeader (s_node s) then None else Some (Err_NotLeader (leaderAddr s)))"

definition appendRepl :: "Mutation \<Rightarrow> 'db server \<Rightarrow> 'db server" where
  "appendRepl m s =
     (if \<not> Node_IsLeader (s_node s) then s
      else let seq = i64 (s_replSeq s + 1)
           in s\<lparr>s_replSeq := seq, s_replLog := s_replLog s @ [\<lparr>re_Seq = seq, re_Mutation = Some m\<rparr>]\<rparr>)"

definition putJob :: "'db env \<Rightarrow> Job \<Rightarrow> 'db server \<Rightarrow> store_err option \<times> 'db server" where
  "putJob E job s =
     (case Store_PutJob E (s_db s) job of
        (Some e, db) \<Rightarrow> (Some e, s\<lparr>s_db := db\<rparr>)
      | (None, db) \<Rightarrow> (None, appendRepl (ReplicationEntry_UpsertJob job) (s\<lparr>s_db := db\<rparr>)))"

definition putWorker :: "'db env \<Rightarrow> WorkerInfo \<Rightarrow> 'db server \<Rightarrow> store_err option \<times> 'db server" where
  "putWorker E w s =
     (case Store_PutWorker E (s_db s) w of
        (Some e, db) \<Rightarrow> (Some e, s\<lparr>s_db := db\<rparr>)
      | (None, db) \<Rightarrow>
          (let s = appendRepl (ReplicationEntry_UpsertWorker w) (s\<lparr>s_db := db\<rparr>)
           in (None, s\<lparr>s_workers := AList.update (w_Id w) w (s_workers s)\<rparr>)))"

section \<open>Queue and timers\<close>

definition enqueueJob :: "'db env \<Rightarrow> string \<Rightarrow> 'db server \<Rightarrow> 'db server" where
  "enqueueJob E jobID s =
     (if s_closed s \<or> \<not> Node_IsLeader (s_node s) then s
      else case Store_GetJob E (s_db s) jobID of
             Inl _ \<Rightarrow> s
           | Inr job \<Rightarrow>
               if j_State job \<noteq> JOB_STATE_QUEUED then s
               else s\<lparr>s_queue := snd (PQ_Push (j_Id job) (j_Priority job) (AsTime (j_CreatedAt job)) (s_queue s))\<rparr>)"

definition armEnqueue :: "'db env \<Rightarrow> string \<Rightarrow> duration \<Rightarrow> 'db server \<Rightarrow> 'db server" where
  "armEnqueue E jobID delay s =
     (if delay \<le> 0 then enqueueJob E jobID s
      else s\<lparr>s_retryTimers := AList.update jobID delay (s_retryTimers s)\<rparr>)"

text \<open>The function a timer of \<open>armEnqueue\<close> runs when it fires.\<close>

definition timerFired :: "'db env \<Rightarrow> string \<Rightarrow> 'db server \<Rightarrow> 'db server" where
  "timerFired E jobID s =
     enqueueJob E jobID (s\<lparr>s_retryTimers := AList.delete jobID (s_retryTimers s)\<rparr>)"

section \<open>Leases\<close>

definition addLease :: "lease \<Rightarrow> 'db server \<Rightarrow> 'db server" where
  "addLease l s = s\<lparr>s_leases := AList.update (ls_taskID l) l (s_leases s)\<rparr>"

definition getLease :: "string \<Rightarrow> 'db server \<Rightarrow> lease option" where
  "getLease taskID s = map_of (s_leases s) taskID"

definition removeLease :: "string \<Rightarrow> 'db server \<Rightarrow> 'db server" where
  "removeLease taskID s = s\<lparr>s_leases := AList.delete taskID (s_leases s)\<rparr>"

section \<open>Workers\<close>

definition workerKnown :: "string \<Rightarrow> 'db server \<Rightarrow> bool" where
  "workerKnown k s = (case map_of (s_workers s) k of None \<Rightarrow> False | Some _ \<Rightarrow> True)"

section \<open>Gauges\<close>

definition QueueDepth :: "'db server \<Rightarrow> nat" where
  "QueueDepth s = PQ_Len (s_queue s)"

definition InFlight :: "'db server \<Rightarrow> nat" where
  "InFlight s = length (s_leases s)"

definition DeadLetterCount :: "'db env \<Rightarrow> 'db server \<Rightarrow> nat" where
  "DeadLetterCount E s = (case Store_CountDeadLetter E (s_db s) of Inl _ \<Rightarrow> 0 | Inr n \<Rightarrow> n)"

fun state_label :: "WorkerState \<Rightarrow> string option" where
  "state_label WORKER_STATE_ALIVE = Some ''alive''"
| "state_label WORKER_STATE_SUSPECT = Some ''suspect''"
| "state_label WORKER_STATE_DEAD = Some ''dead''"
| "state_label _ = None"

definition workersByState :: "'db server \<Rightarrow> (string \<times> int) list" where
  "workersByState s =
     fold (\<lambda>(_, w) out. case state_label (w_State w) of
             None \<Rightarrow> out
           | Some l \<Rightarrow> AList.update l (the (map_of out l) + 1) out)
       (s_workers s) [(''alive'', 0), (''suspect'', 0), (''dead'', 0)]"

definition boolToFloat :: "bool \<Rightarrow> f64" where
  "boolToFloat b = (if b then Fin 1 else Fin 0)"

section \<open>What the small methods leave alone\<close>

lemma asked_tick [simp]: "s_tick (asked s) = Suc (s_tick s)"
  by (simp add: asked_def)

lemma appendRepl_frame [simp, frame]:
  "s_cfg (appendRepl m s) = s_cfg s"
  "s_members (appendRepl m s) = s_members s"
  "s_selfAddr (appendRepl m s) = s_selfAddr s"
  "s_db (appendRepl m s) = s_db s"
  "s_queue (appendRepl m s) = s_queue s"
  "s_node (appendRepl m s) = s_node s"
  "s_workers (appendRepl m s) = s_workers s"
  "s_leases (appendRepl m s) = s_leases s"
  "s_retryTimers (appendRepl m s) = s_retryTimers s"
  "s_peerAcked (appendRepl m s) = s_peerAcked s"
  "s_revIndex (appendRepl m s) = s_revIndex s"
  "s_closed (appendRepl m s) = s_closed s"
  "s_pending (appendRepl m s) = s_pending s"
  "s_counters (appendRepl m s) = s_counters s"
  "s_tick (appendRepl m s) = s_tick s"
  by (simp_all add: appendRepl_def Let_def)

lemma asked_frame [simp, frame]:
  "s_cfg (asked s) = s_cfg s"
  "s_members (asked s) = s_members s"
  "s_selfAddr (asked s) = s_selfAddr s"
  "s_db (asked s) = s_db s"
  "s_queue (asked s) = s_queue s"
  "s_node (asked s) = s_node s"
  "s_workers (asked s) = s_workers s"
  "s_leases (asked s) = s_leases s"
  "s_retryTimers (asked s) = s_retryTimers s"
  "s_replLog (asked s) = s_replLog s"
  "s_replSeq (asked s) = s_replSeq s"
  "s_peerAcked (asked s) = s_peerAcked s"
  "s_revIndex (asked s) = s_revIndex s"
  "s_closed (asked s) = s_closed s"
  "s_pending (asked s) = s_pending s"
  "s_counters (asked s) = s_counters s"
  by (simp_all add: asked_def)

lemma Inc_frame [simp, frame]:
  "s_cfg (Inc c s) = s_cfg s"
  "s_members (Inc c s) = s_members s"
  "s_selfAddr (Inc c s) = s_selfAddr s"
  "s_db (Inc c s) = s_db s"
  "s_queue (Inc c s) = s_queue s"
  "s_node (Inc c s) = s_node s"
  "s_workers (Inc c s) = s_workers s"
  "s_leases (Inc c s) = s_leases s"
  "s_retryTimers (Inc c s) = s_retryTimers s"
  "s_replLog (Inc c s) = s_replLog s"
  "s_replSeq (Inc c s) = s_replSeq s"
  "s_peerAcked (Inc c s) = s_peerAcked s"
  "s_revIndex (Inc c s) = s_revIndex s"
  "s_closed (Inc c s) = s_closed s"
  "s_pending (Inc c s) = s_pending s"
  "s_tick (Inc c s) = s_tick s"
  by (simp_all add: Inc_def)

lemma putJob_frame [simp, frame]:
  "s_cfg (snd (putJob E j s)) = s_cfg s"
  "s_members (snd (putJob E j s)) = s_members s"
  "s_selfAddr (snd (putJob E j s)) = s_selfAddr s"
  "s_queue (snd (putJob E j s)) = s_queue s"
  "s_node (snd (putJob E j s)) = s_node s"
  "s_workers (snd (putJob E j s)) = s_workers s"
  "s_leases (snd (putJob E j s)) = s_leases s"
  "s_retryTimers (snd (putJob E j s)) = s_retryTimers s"
  "s_peerAcked (snd (putJob E j s)) = s_peerAcked s"
  "s_revIndex (snd (putJob E j s)) = s_revIndex s"
  "s_closed (snd (putJob E j s)) = s_closed s"
  "s_pending (snd (putJob E j s)) = s_pending s"
  "s_counters (snd (putJob E j s)) = s_counters s"
  "s_tick (snd (putJob E j s)) = s_tick s"
  by (simp_all add: putJob_def split: prod.splits option.splits)

lemma putWorker_frame [simp, frame]:
  "s_cfg (snd (putWorker E w s)) = s_cfg s"
  "s_members (snd (putWorker E w s)) = s_members s"
  "s_selfAddr (snd (putWorker E w s)) = s_selfAddr s"
  "s_queue (snd (putWorker E w s)) = s_queue s"
  "s_node (snd (putWorker E w s)) = s_node s"
  "s_leases (snd (putWorker E w s)) = s_leases s"
  "s_retryTimers (snd (putWorker E w s)) = s_retryTimers s"
  "s_peerAcked (snd (putWorker E w s)) = s_peerAcked s"
  "s_revIndex (snd (putWorker E w s)) = s_revIndex s"
  "s_closed (snd (putWorker E w s)) = s_closed s"
  "s_pending (snd (putWorker E w s)) = s_pending s"
  "s_counters (snd (putWorker E w s)) = s_counters s"
  "s_tick (snd (putWorker E w s)) = s_tick s"
  by (simp_all add: putWorker_def Let_def split: prod.splits option.splits)

lemma enqueueJob_frame [simp, frame]:
  "s_cfg (enqueueJob E k s) = s_cfg s"
  "s_members (enqueueJob E k s) = s_members s"
  "s_selfAddr (enqueueJob E k s) = s_selfAddr s"
  "s_db (enqueueJob E k s) = s_db s"
  "s_node (enqueueJob E k s) = s_node s"
  "s_workers (enqueueJob E k s) = s_workers s"
  "s_leases (enqueueJob E k s) = s_leases s"
  "s_retryTimers (enqueueJob E k s) = s_retryTimers s"
  "s_replLog (enqueueJob E k s) = s_replLog s"
  "s_replSeq (enqueueJob E k s) = s_replSeq s"
  "s_peerAcked (enqueueJob E k s) = s_peerAcked s"
  "s_revIndex (enqueueJob E k s) = s_revIndex s"
  "s_closed (enqueueJob E k s) = s_closed s"
  "s_pending (enqueueJob E k s) = s_pending s"
  "s_counters (enqueueJob E k s) = s_counters s"
  "s_tick (enqueueJob E k s) = s_tick s"
  by (simp_all add: enqueueJob_def split: sum.splits)

lemma armEnqueue_frame [simp, frame]:
  "s_cfg (armEnqueue E k dl s) = s_cfg s"
  "s_members (armEnqueue E k dl s) = s_members s"
  "s_selfAddr (armEnqueue E k dl s) = s_selfAddr s"
  "s_db (armEnqueue E k dl s) = s_db s"
  "s_node (armEnqueue E k dl s) = s_node s"
  "s_workers (armEnqueue E k dl s) = s_workers s"
  "s_leases (armEnqueue E k dl s) = s_leases s"
  "s_replLog (armEnqueue E k dl s) = s_replLog s"
  "s_replSeq (armEnqueue E k dl s) = s_replSeq s"
  "s_peerAcked (armEnqueue E k dl s) = s_peerAcked s"
  "s_revIndex (armEnqueue E k dl s) = s_revIndex s"
  "s_closed (armEnqueue E k dl s) = s_closed s"
  "s_pending (armEnqueue E k dl s) = s_pending s"
  "s_counters (armEnqueue E k dl s) = s_counters s"
  "s_tick (armEnqueue E k dl s) = s_tick s"
  by (simp_all add: armEnqueue_def)

lemma addLease_frame [simp, frame]:
  "s_cfg (addLease l s) = s_cfg s"
  "s_members (addLease l s) = s_members s"
  "s_selfAddr (addLease l s) = s_selfAddr s"
  "s_db (addLease l s) = s_db s"
  "s_queue (addLease l s) = s_queue s"
  "s_node (addLease l s) = s_node s"
  "s_workers (addLease l s) = s_workers s"
  "s_retryTimers (addLease l s) = s_retryTimers s"
  "s_replLog (addLease l s) = s_replLog s"
  "s_replSeq (addLease l s) = s_replSeq s"
  "s_peerAcked (addLease l s) = s_peerAcked s"
  "s_revIndex (addLease l s) = s_revIndex s"
  "s_closed (addLease l s) = s_closed s"
  "s_pending (addLease l s) = s_pending s"
  "s_counters (addLease l s) = s_counters s"
  "s_tick (addLease l s) = s_tick s"
  by (simp_all add: addLease_def)

lemma removeLease_frame [simp, frame]:
  "s_cfg (removeLease k s) = s_cfg s"
  "s_members (removeLease k s) = s_members s"
  "s_selfAddr (removeLease k s) = s_selfAddr s"
  "s_db (removeLease k s) = s_db s"
  "s_queue (removeLease k s) = s_queue s"
  "s_node (removeLease k s) = s_node s"
  "s_workers (removeLease k s) = s_workers s"
  "s_retryTimers (removeLease k s) = s_retryTimers s"
  "s_replLog (removeLease k s) = s_replLog s"
  "s_replSeq (removeLease k s) = s_replSeq s"
  "s_peerAcked (removeLease k s) = s_peerAcked s"
  "s_revIndex (removeLease k s) = s_revIndex s"
  "s_closed (removeLease k s) = s_closed s"
  "s_pending (removeLease k s) = s_pending s"
  "s_counters (removeLease k s) = s_counters s"
  "s_tick (removeLease k s) = s_tick s"
  by (simp_all add: removeLease_def)

end
