(* ===== verification/Cycle_Check.thy ===== *)
theory Cycle_Check
  imports Prelude
begin

text \<open>
  The depth-first search of \<open>wouldCreateCycle\<close> in \<open>internal/scheduler/deps.go\<close>, a recursive closure
  over two shared sets, and its correctness: it answers true exactly when a cycle can be reached
  from its starting point.
\<close>

section \<open>The search\<close>

text \<open>
  The graph is a Go map from job IDs to their dependencies; a missing ID has none. \<open>dfs_deps\<close> is
  the body of \<open>dfs n\<close> with the dependencies \<open>ds\<close> of \<open>n\<close> still to visit, \<open>vis\<close> and \<open>st\<close> are the
  sets \<open>visited\<close> and \<open>stack\<close>.
\<close>

type_synonym graph = "(string \<times> string list) list"

definition succs :: "graph \<Rightarrow> string \<Rightarrow> string list" where
  "succs g n = (case map_of g n of None \<Rightarrow> [] | Some ds \<Rightarrow> ds)"

definition graph_nodes :: "graph \<Rightarrow> string set" where
  "graph_nodes g = (\<Union>p \<in> set g. set (snd p))"

lemma succs_nodes: "set (succs g n) \<subseteq> graph_nodes g"
proof (cases "map_of g n")
  case (Some ds)
  then show ?thesis using map_of_SomeD [OF Some] by (force simp: succs_def graph_nodes_def)
qed (simp add: succs_def)

lemma finite_graph_nodes [simp]: "finite (graph_nodes g)"
  by (auto simp: graph_nodes_def)

function dfs_deps ::
  "graph \<Rightarrow> string \<Rightarrow> string list \<Rightarrow> string set \<Rightarrow> string set \<Rightarrow> bool \<times> string set \<times> string set" where
  "dfs_deps g n [] vis st = (False, vis, st - {n})"
| "dfs_deps g n (d # ds) vis st =
     (if d \<in> st then (True, vis, st)
      else if d \<notin> vis
           then (let (found, vis', st') = dfs_deps g d (succs g d) (insert d vis) (insert d st)
                 in if found then (True, vis', st') else dfs_deps g n ds vis' st')
      else dfs_deps g n ds vis st)"
  by pat_completeness auto

termination
proof (relation "measures [\<lambda>(g, n, ds, vis, st). card ((graph_nodes g \<union> set ds) - vis),
    \<lambda>(g, n, ds, vis, st). length ds]", goal_cases)
  case 1
  show ?case by simp
next
  case (2 g n d ds vis st)
  have "(graph_nodes g \<union> set (succs g d)) - insert d vis \<subset> (graph_nodes g \<union> set (d # ds)) - vis"
    using 2 succs_nodes [of g d] by auto
  then have "card ((graph_nodes g \<union> set (succs g d)) - insert d vis) < card ((graph_nodes g \<union> set (d # ds)) - vis)"
    by (intro psubset_card_mono) auto
  then show ?case by simp
next
  case (3 g n d ds vis st x found y vis' st')
  have visited: "vis \<subseteq> fst (snd (dfs_deps g n ds vis st))" if "dfs_deps_dom (g, n, ds, vis, st)" for g n ds vis st
    using that
  proof (induction g n ds vis st rule: dfs_deps.pinduct)
    case (2 g n d ds vis st)
    obtain f v t where inner: "dfs_deps g d (succs g d) (insert d vis) (insert d st) = (f, v, t)"
      by (cases "dfs_deps g d (succs g d) (insert d vis) (insert d st)")
    show ?case
      using 2(2) 2(3) [OF _ _ inner [symmetric] refl refl] 2(4)
      by (auto simp: dfs_deps.psimps(2) [OF 2(1)] inner)
  qed (simp add: dfs_deps.psimps)
  have "insert d vis \<subseteq> vis'"
    using visited [OF 3(7)] 3(3-5) by (metis fst_conv snd_conv)
  then have "card ((graph_nodes g \<union> set ds) - vis') \<le> card ((graph_nodes g \<union> set (d # ds)) - vis)"
    by (intro card_mono) auto
  then show ?case by (auto simp: le_less)
next
  case (4 g n d ds vis st)
  have "card ((graph_nodes g \<union> set ds) - vis) \<le> card ((graph_nodes g \<union> set (d # ds)) - vis)"
    by (intro card_mono) auto
  then show ?case by (auto simp: le_less)
qed

definition dfs :: "graph \<Rightarrow> string \<Rightarrow> string set \<Rightarrow> string set \<Rightarrow> bool \<times> string set \<times> string set" where
  "dfs g n vis st = dfs_deps g n (succs g n) (insert n vis) (insert n st)"

section \<open>Correctness\<close>

definition edges :: "graph \<Rightarrow> (string \<times> string) set" where
  "edges g = {(n, d). d \<in> set (succs g n)}"

lemma dfs_deps_mono: "dfs_deps g n ds vis st = (f, vis', st') \<Longrightarrow> vis \<subseteq> vis'"
  by (induction g n ds vis st arbitrary: f vis' st' rule: dfs_deps.induct)
    (force split: if_splits prod.splits)+

text \<open>A search that finds nothing leaves the stack as it was, without its own node.\<close>

lemma dfs_deps_stack: "dfs_deps g n ds vis st = (False, vis', st') \<Longrightarrow> st' = st - {n}"
proof (induction g n ds vis st arbitrary: vis' st' rule: dfs_deps.induct)
  case (2 g n d ds vis st)
  obtain f v t where inner: "dfs_deps g d (succs g d) (insert d vis) (insert d st) = (f, v, t)"
    by (cases "dfs_deps g d (succs g d) (insert d vis) (insert d st)")
  show ?case
  proof (cases "d \<in> vis")
    case True
    then show ?thesis using 2(3,4) by (auto split: if_splits)
  next
    case False
    then have d: "d \<notin> st" "\<not> f" "dfs_deps g n ds v t = (False, vis', st')"
      using 2(4) inner by (auto split: if_splits)
    then have "t = st" using 2(1) [OF d(1) False] inner by auto
    then show ?thesis using 2(2) [OF d(1) False inner [symmetric] refl refl] d(2,3) by simp
  qed
qed simp

text \<open>The finished nodes: closed under dependencies, and no cycle goes through them.\<close>

definition finished :: "graph \<Rightarrow> string set \<Rightarrow> bool" where
  "finished g B \<longleftrightarrow> (\<forall>b \<in> B. set (succs g b) \<subseteq> B) \<and> (\<forall>b \<in> B. (b, b) \<notin> (edges g)\<^sup>+)"

lemma finished_reach: "(b, c) \<in> (edges g)\<^sup>* \<Longrightarrow> finished g B \<Longrightarrow> b \<in> B \<Longrightarrow> c \<in> B"
  by (induction rule: rtrancl_induct) (auto simp: finished_def edges_def)

lemma finished_insert:
  assumes "finished g B" "set (succs g n) \<subseteq> B" "n \<notin> B"
  shows "finished g (insert n B)"
proof -
  have "(n, n) \<notin> (edges g)\<^sup>+"
  proof
    assume "(n, n) \<in> (edges g)\<^sup>+"
    then obtain d where "(n, d) \<in> edges g" "(d, n) \<in> (edges g)\<^sup>*" by (meson tranclD)
    then show False using assms finished_reach [of d n g B] by (auto simp: edges_def)
  qed
  then show ?thesis using assms by (auto simp: finished_def)
qed

lemma dfs_deps_none:
  assumes "dfs_deps g n ds vis st = (False, vis', st')" "n \<in> st" "st \<subseteq> vis" "finished g (vis - st)"
    and "set (succs g n) \<subseteq> set ds \<union> (vis - st)"
  shows "finished g (vis' - st') \<and> insert n (vis - st) \<subseteq> vis' - st'"
  using assms
proof (induction g n ds vis st arbitrary: vis' st' rule: dfs_deps.induct)
  case (1 g n vis st)
  then have "vis' - st' = insert n (vis - st)" by auto
  then show ?case using 1 finished_insert [of g "vis - st" n] by auto
next
  case (2 g n d ds vis st)
  obtain f v t where inner: "dfs_deps g d (succs g d) (insert d vis) (insert d st) = (f, v, t)"
    by (cases "dfs_deps g d (succs g d) (insert d vis) (insert d st)")
  show ?case
  proof (cases "d \<in> vis")
    case True
    then show ?thesis using 2(3-8) by (auto split: if_splits)
  next
    case False
    then have d: "d \<notin> st" "\<not> f" "dfs_deps g n ds v t = (False, vis', st')"
      using 2(4) inner by (auto split: if_splits)
    have t: "t = st" using dfs_deps_stack [of g d "succs g d" "insert d vis" "insert d st" v t] inner d(1,2) by simp
    have same: "insert d vis - insert d st = vis - st" using False by auto
    have in1: "finished g (v - t) \<and> insert d (vis - st) \<subseteq> v - t"
      using 2(1) [OF d(1) False, of v t] inner d(2) 2(6,7) same by auto
    have "finished g (vis' - st') \<and> insert n (v - t) \<subseteq> vis' - st'"
      using 2(2) [OF d(1) False inner [symmetric] refl refl _ d(3)] d(2) in1 2(5-8) t
        dfs_deps_mono [OF inner] by auto
    then show ?thesis using in1 by auto
  qed
qed

text \<open>A search that finds something found a dependency back into the stack.\<close>

lemma dfs_deps_found:
  assumes "dfs_deps g n ds vis st = (True, vis', st')" "set ds \<subseteq> set (succs g n)"
    and "(r, n) \<in> (edges g)\<^sup>*" "\<forall>x \<in> st. (x, n) \<in> (edges g)\<^sup>*"
  shows "\<exists>c. (r, c) \<in> (edges g)\<^sup>* \<and> (c, c) \<in> (edges g)\<^sup>+"
  using assms
proof (induction g n ds vis st arbitrary: vis' st' rule: dfs_deps.induct)
  case (2 g n d ds vis st)
  obtain f v t where inner: "dfs_deps g d (succs g d) (insert d vis) (insert d st) = (f, v, t)"
    by (cases "dfs_deps g d (succs g d) (insert d vis) (insert d st)")
  have nd: "(n, d) \<in> edges g" using 2(5) by (auto simp: edges_def)
  consider (loop) "d \<in> st" | (down) "d \<notin> st" "d \<notin> vis" "f"
    | (next_dep) "d \<notin> st" "d \<notin> vis" "\<not> f" "dfs_deps g n ds v t = (True, vis', st')"
    | (skip) "d \<notin> st" "d \<in> vis" "dfs_deps g n ds vis st = (True, vis', st')"
    using 2(4) inner by (auto split: if_splits)
  then show ?case
  proof cases
    case loop
    then have "(d, d) \<in> (edges g)\<^sup>+" "(r, d) \<in> (edges g)\<^sup>*"
      using 2(6,7) nd by (auto intro: rtrancl_into_trancl1 rtrancl_into_rtrancl)
    then show ?thesis by blast
  next
    case down
    have "(r, d) \<in> (edges g)\<^sup>*" "\<forall>x \<in> insert d st. (x, d) \<in> (edges g)\<^sup>*"
      using 2(6,7) nd by (auto intro: rtrancl_into_rtrancl)
    then show ?thesis using 2(1) [OF down(1,2), of v t] inner down(3) by auto
  next
    case next_dep
    have "t = st" using dfs_deps_stack [of g d "succs g d" "insert d vis" "insert d st" v t] inner next_dep by simp
    then show ?thesis
      using 2(2) [OF next_dep(1,2) inner [symmetric] refl refl next_dep(3,4)] 2(5-7) by auto
  next
    case skip
    then show ?thesis using 2(3) [OF skip(1) _ skip(3)] 2(5-7) by auto
  qed
qed simp

lemma dfs_correct: "fst (dfs g n {} {}) \<longleftrightarrow> (\<exists>c. (n, c) \<in> (edges g)\<^sup>* \<and> (c, c) \<in> (edges g)\<^sup>+)"
proof -
  obtain f v t where r: "dfs_deps g n (succs g n) {n} {n} = (f, v, t)"
    by (cases "dfs_deps g n (succs g n) {n} {n}")
  show ?thesis
  proof (cases f)
    case True
    then show ?thesis using r dfs_deps_found [of g n "succs g n" "{n}" "{n}" v t n] by (auto simp: dfs_def)
  next
    case False
    then have "finished g (v - t)" "n \<in> v - t"
      using r dfs_deps_none [of g n "succs g n" "{n}" "{n}" v t] by (auto simp: finished_def)
    then have "(c, c) \<notin> (edges g)\<^sup>+" if "(n, c) \<in> (edges g)\<^sup>*" for c
      using finished_reach [OF that] by (auto simp: finished_def)
    then show ?thesis using False r by (auto simp: dfs_def)
  qed
qed

end
