(* ===== verification/Deps.thy ===== *)
theory Deps
  imports Server_State Cycle_Check
begin

text \<open>
  Dependencies and schedules (\<open>internal/scheduler/deps.go\<close>): the reverse dependency index, the
  cycle check at submission, placing, promoting and cancelling jobs, and cron.
\<close>

fun terminal :: "JobState \<Rightarrow> bool" where
  "terminal JOB_STATE_SUCCEEDED = True"
| "terminal JOB_STATE_FAILED = True"
| "terminal JOB_STATE_CANCELED = True"
| "terminal _ = False"

definition nextCron :: "'db env \<Rightarrow> string \<Rightarrow> time \<Rightarrow> goerr + time" where
  "nextCron E expr now = (case env_cron E expr of Inl e \<Rightarrow> Inl e | Inr next \<Rightarrow> Inr (next now))"

section \<open>The reverse index\<close>

definition index_of :: "string \<Rightarrow> 'db server \<Rightarrow> (string \<times> unit) list" where
  "index_of dep s = (case map_of (s_revIndex s) dep of None \<Rightarrow> [] | Some ds \<Rightarrow> ds)"

definition addDeps :: "Job \<Rightarrow> 'db server \<Rightarrow> 'db server" where
  "addDeps job s =
     fold (\<lambda>dep s. s\<lparr>s_revIndex := AList.update dep (AList.update (j_Id job) () (index_of dep s)) (s_revIndex s)\<rparr>)
       (j_DependsOn job) s"

definition removeFromIndex :: "string \<Rightarrow> 'db server \<Rightarrow> 'db server" where
  "removeFromIndex jobID s =
     s\<lparr>s_revIndex := filter (\<lambda>(dep, ds). ds \<noteq> [])
         (map (\<lambda>(dep, ds). (dep, AList.delete jobID ds)) (s_revIndex s))\<rparr>"

lemma removeFromIndex_frame [simp, frame]:
  "s_cfg (removeFromIndex k s) = s_cfg s" "s_members (removeFromIndex k s) = s_members s"
  "s_selfAddr (removeFromIndex k s) = s_selfAddr s" "s_db (removeFromIndex k s) = s_db s"
  "s_queue (removeFromIndex k s) = s_queue s" "s_node (removeFromIndex k s) = s_node s"
  "s_workers (removeFromIndex k s) = s_workers s" "s_leases (removeFromIndex k s) = s_leases s"
  "s_retryTimers (removeFromIndex k s) = s_retryTimers s" "s_replLog (removeFromIndex k s) = s_replLog s"
  "s_replSeq (removeFromIndex k s) = s_replSeq s" "s_peerAcked (removeFromIndex k s) = s_peerAcked s"
  "s_closed (removeFromIndex k s) = s_closed s" "s_pending (removeFromIndex k s) = s_pending s"
  "s_tick (removeFromIndex k s) = s_tick s"
  by (simp_all add: removeFromIndex_def)

lemma addDeps_frame [simp, frame]:
  "s_cfg (addDeps j s) = s_cfg s" "s_members (addDeps j s) = s_members s"
  "s_selfAddr (addDeps j s) = s_selfAddr s" "s_db (addDeps j s) = s_db s"
  "s_queue (addDeps j s) = s_queue s" "s_node (addDeps j s) = s_node s"
  "s_workers (addDeps j s) = s_workers s" "s_leases (addDeps j s) = s_leases s"
  "s_retryTimers (addDeps j s) = s_retryTimers s" "s_replLog (addDeps j s) = s_replLog s"
  "s_replSeq (addDeps j s) = s_replSeq s" "s_peerAcked (addDeps j s) = s_peerAcked s"
  "s_closed (addDeps j s) = s_closed s" "s_pending (addDeps j s) = s_pending s"
  "s_tick (addDeps j s) = s_tick s"
  unfolding addDeps_def by (rule fold_keeps, simp)+

definition dependentsOf :: "'db env \<Rightarrow> string \<Rightarrow> 'db server \<Rightarrow> string list \<times> 'db server" where
  "dependentsOf E depID s = (range_keys (env_order E) (s_tick s) (index_of depID s), asked s)"

fun deps_satisfied :: "'db env \<Rightarrow> 'db \<Rightarrow> string list \<Rightarrow> bool \<times> string" where
  "deps_satisfied E db [] = (True, '''')"
| "deps_satisfied E db (depID # deps) =
     (case Store_GetJob E db depID of
        Inl _ \<Rightarrow> (False, '''')
      | Inr dep \<Rightarrow>
          (case j_State dep of
             JOB_STATE_SUCCEEDED \<Rightarrow> deps_satisfied E db deps
           | JOB_STATE_FAILED \<Rightarrow> (False, depID)
           | JOB_STATE_CANCELED \<Rightarrow> (False, depID)
           | _ \<Rightarrow> (False, '''')))"

definition depsSatisfied :: "'db env \<Rightarrow> Job \<Rightarrow> 'db server \<Rightarrow> bool \<times> string" where
  "depsSatisfied E job s = deps_satisfied E (s_db s) (j_DependsOn job)"

section \<open>The cycle check\<close>

definition wouldCreateCycle :: "'db env \<Rightarrow> string \<Rightarrow> string list \<Rightarrow> 'db server \<Rightarrow> bool" where
  "wouldCreateCycle E newID deps s =
     (case Store_ListJobs E (s_db s) of
        Inl _ \<Rightarrow> False
      | Inr jobs \<Rightarrow>
          (let graph = fold (\<lambda>j g. AList.update (j_Id j) (j_DependsOn j) g) jobs [];
               graph = AList.update newID deps graph
           in fst (dfs graph newID {} {})))"

section \<open>Cancelling a job and its dependents\<close>

text \<open>The part of one turn of the loop that cancels the job \<open>cur\<close>.\<close>

definition cancel_one :: "'db env \<Rightarrow> time \<Rightarrow> string \<Rightarrow> string \<Rightarrow> 'db server \<Rightarrow> 'db server" where
  "cancel_one E now reason cur s =
     (case Store_GetJob E (s_db s) cur of
        Inl _ \<Rightarrow> s
      | Inr job \<Rightarrow>
          if terminal (j_State job) then s
          else let job = job\<lparr>j_State := JOB_STATE_CANCELED, j_LastError := reason, j_UpdatedAt := Some now\<rparr>;
                   s = snd (putJob E job s);
                   s = s\<lparr>s_queue := snd (PQ_Remove cur (s_queue s))\<rparr>
               in Inc JobsCanceled s)"

definition upstream_failed :: "string \<Rightarrow> string" where
  "upstream_failed k = ''upstream dependency '' @ k @ '' did not succeed''"

definition index_ids :: "'db server \<Rightarrow> string set" where
  "index_ids s = (\<Union>p \<in> set (s_revIndex s). fst ` set (snd p))"

lemma finite_index_ids [simp]: "finite (index_ids s)"
  by (simp add: index_ids_def)

lemma index_ids_cong: "s_revIndex s' = s_revIndex s \<Longrightarrow> index_ids s' = index_ids s"
  by (simp add: index_ids_def)

lemma cancel_one_frame [simp, frame]:
  "s_cfg (cancel_one E now r k s) = s_cfg s" "s_members (cancel_one E now r k s) = s_members s"
  "s_selfAddr (cancel_one E now r k s) = s_selfAddr s" "s_node (cancel_one E now r k s) = s_node s"
  "s_workers (cancel_one E now r k s) = s_workers s" "s_leases (cancel_one E now r k s) = s_leases s"
  "s_retryTimers (cancel_one E now r k s) = s_retryTimers s"
  "s_peerAcked (cancel_one E now r k s) = s_peerAcked s" "s_revIndex (cancel_one E now r k s) = s_revIndex s"
  "s_closed (cancel_one E now r k s) = s_closed s" "s_pending (cancel_one E now r k s) = s_pending s"
  "s_tick (cancel_one E now r k s) = s_tick s"
  by (simp_all add: cancel_one_def Let_def split: sum.splits)

lemma index_of_ids: "fst ` set (index_of k s) \<subseteq> index_ids s"
proof (cases "map_of (s_revIndex s) k")
  case (Some ds)
  then have "fst ` set ds \<subseteq> index_ids s"
    unfolding index_ids_def using map_of_SomeD [OF Some] by (intro UN_upper [of "(k, ds)", THEN order_trans [rotated]]) auto
  then show ?thesis using Some by (simp add: index_of_def)
qed (simp add: index_of_def)

lemma index_ids_remove: "index_ids (removeFromIndex k s) \<subseteq> index_ids s"
proof -
  have "(\<Union>p \<in> set (filter (\<lambda>(dep, ds). ds \<noteq> []) (map (\<lambda>(dep, ds). (dep, AList.delete k ds)) xs)).
      fst ` set (snd p)) \<subseteq> (\<Union>p \<in> set xs. fst ` set (snd p))" for xs :: "(string \<times> (string \<times> unit) list) list"
  proof (induction xs)
    case (Cons p xs)
    obtain dep ds where p: "p = (dep, ds)" by force
    show ?case using Cons by (simp add: p set_keys_delete del: set_map set_filter) blast
  qed simp
  then show ?thesis by (simp add: index_ids_def removeFromIndex_def del: set_map set_filter)
qed

lemma dependentsOf_ids: "dependentsOf E k s = (ds, s') \<Longrightarrow> set ds \<subseteq> index_ids s \<and> s_revIndex s' = s_revIndex s"
  using index_of_ids [of k s] by (auto simp: dependentsOf_def)

function cancel_loop ::
  "'db env \<Rightarrow> time \<Rightarrow> string set \<Rightarrow> string list \<Rightarrow> string \<Rightarrow> 'db server \<Rightarrow> 'db server" where
  "cancel_loop E now visited work reason s =
     (if work = [] then s
      else let cur = last work; work = butlast work in
        if cur \<in> visited then cancel_loop E now visited work reason s
        else let s1 = cancel_one E now reason cur s;
                 (dependents, s2) = dependentsOf E cur s1
             in cancel_loop E now (insert cur visited) (work @ dependents) (upstream_failed cur)
                  (removeFromIndex cur s2))"
  by pat_completeness auto
termination
proof (relation "measures [\<lambda>(E, now, visited, work, reason, s). card ((index_ids s \<union> set work) - visited),
    \<lambda>(E, now, visited, work, reason, s). length work]", goal_cases)
  case 1
  show ?case by simp
next
  case (2 E now visited work reason s cur work')
  have "card ((index_ids s \<union> set work') - visited) \<le> card ((index_ids s \<union> set work) - visited)"
    using 2(1,2,3) by (intro card_mono) (auto dest: in_set_butlastD)
  moreover have "length work' < length work" using 2(1,3) by (cases work) auto
  ultimately show ?case by (auto simp: le_less)
next
  case (3 E now visited work reason s cur work' s1 p dependents s2)
  have ids: "set dependents \<subseteq> index_ids s" "s_revIndex s2 = s_revIndex s"
    using dependentsOf_ids [of E cur s1 dependents s2] 3(5-7) index_ids_cong [of s1 s] by auto
  have "index_ids (removeFromIndex cur s2) \<subseteq> index_ids s"
    using index_ids_remove [of cur s2] index_ids_cong [OF ids(2)] by blast
  moreover have "cur \<in> set work" "set work' \<subseteq> set work" using 3(1-3) by (auto dest: in_set_butlastD)
  ultimately have "(index_ids (removeFromIndex cur s2) \<union> set (work' @ dependents)) - insert cur visited
      \<subset> (index_ids s \<union> set work) - visited"
    using ids(1) 3(4) by auto
  then show ?case by (simp add: psubset_card_mono)
qed

declare cancel_loop.simps [simp del]

lemma cancel_loop_nil [simp]: "cancel_loop E now visited [] r s = s"
  by (simp add: cancel_loop.simps)

lemma cancel_loop_seen:
  "work \<noteq> [] \<Longrightarrow> last work \<in> visited \<Longrightarrow>
   cancel_loop E now visited work r s = cancel_loop E now visited (butlast work) r s"
  by (subst cancel_loop.simps) (simp add: Let_def)

lemma cancel_loop_new:
  "work \<noteq> [] \<Longrightarrow> last work \<notin> visited \<Longrightarrow>
   dependentsOf E (last work) (cancel_one E now r (last work) s) = (ds, s2) \<Longrightarrow>
   cancel_loop E now visited work r s =
     cancel_loop E now (insert (last work) visited) (butlast work @ ds) (upstream_failed (last work))
       (removeFromIndex (last work) s2)"
  by (subst cancel_loop.simps) (simp add: Let_def)

lemma cancel_loop_induct [case_names nil seen new]:
  assumes "\<And>visited r s. P visited [] r s"
    and "\<And>visited work r s. work \<noteq> [] \<Longrightarrow> last work \<in> visited \<Longrightarrow> P visited (butlast work) r s \<Longrightarrow> P visited work r s"
    and "\<And>visited work r s ds s2. work \<noteq> [] \<Longrightarrow> last work \<notin> visited \<Longrightarrow>
      dependentsOf E (last work) (cancel_one E now r (last work) s) = (ds, s2) \<Longrightarrow>
      P (insert (last work) visited) (butlast work @ ds) (upstream_failed (last work)) (removeFromIndex (last work) s2) \<Longrightarrow>
      P visited work r s"
  shows "P visited work r (s :: 'db server)"
proof -
  have "E' = E \<longrightarrow> now' = now \<longrightarrow> P visited work r s" for E' now'
  proof (induction E' now' visited work r s rule: cancel_loop.induct)
    case (1 E' now' visited work r s)
    obtain ds s2 where ds: "dependentsOf E' (last work) (cancel_one E' now' r (last work) s) = (ds, s2)" by force
    show ?case
      using assms(1) assms(2) [of work visited r s] assms(3) [of work visited r s ds s2] ds
        1(1) [OF _ refl refl] 1(2) [OF _ refl refl _ refl ds [symmetric] refl]
      by (cases "work = []"; cases "last work \<in> visited") auto
  qed
  then show ?thesis by blast
qed

definition cancelCascade :: "'db env \<Rightarrow> string \<Rightarrow> string \<Rightarrow> 'db server \<Rightarrow> 'db server" where
  "cancelCascade E jobID reason s =
     (let now = time_Now E s in cancel_loop E now {} [jobID] reason (asked s))"

section \<open>Placing and promoting jobs\<close>

definition makeReady :: "'db env \<Rightarrow> Job \<Rightarrow> time \<Rightarrow> 'db server \<Rightarrow> 'db server" where
  "makeReady E job now s =
     (let (job, delay, s) =
            (case j_Schedule job of
               None \<Rightarrow> (job, 0, s)
             | Some sched \<Rightarrow>
                 let expr = Schedule_GetCronExpr (Some sched) in
                 if expr \<noteq> ''''
                 then (case nextCron E expr now of
                         Inr next \<Rightarrow> (job\<lparr>j_ScheduledAt := Some next\<rparr>, time_Until E s next, asked s)
                       | Inl _ \<Rightarrow> (job, 0, s))
                 else (case Schedule_GetRunAt (Some sched) of
                         Some ra \<Rightarrow>
                           if now < ra then (job\<lparr>j_ScheduledAt := Some ra\<rparr>, time_Until E s ra, asked s)
                           else (job, 0, s)
                       | None \<Rightarrow> (job, 0, s)));
          job = job\<lparr>j_State := JOB_STATE_QUEUED, j_UpdatedAt := Some now\<rparr>
      in case putJob E job s of
           (Some _, s) \<Rightarrow> s
         | (None, s) \<Rightarrow> armEnqueue E (j_Id job) delay s)"

definition placeNewJob :: "'db env \<Rightarrow> Job \<Rightarrow> time \<Rightarrow> 'db server \<Rightarrow> 'db server" where
  "placeNewJob E job now s =
     (let (ready, failedDep) = depsSatisfied E job s in
      if failedDep \<noteq> ''''
      then let job = job\<lparr>j_State := JOB_STATE_CANCELED, j_LastError := upstream_failed failedDep,
                          j_UpdatedAt := Some now\<rparr>
           in Inc JobsCanceled (snd (putJob E job s))
      else if \<not> ready
      then let job = job\<lparr>j_State := JOB_STATE_PENDING, j_UpdatedAt := Some now\<rparr>
           in addDeps job (snd (putJob E job s))
      else makeReady E job now s)"

definition tryPromote :: "'db env \<Rightarrow> string \<Rightarrow> 'db server \<Rightarrow> 'db server" where
  "tryPromote E jobID s =
     (case Store_GetJob E (s_db s) jobID of
        Inl _ \<Rightarrow> s
      | Inr job \<Rightarrow>
          if j_State job \<noteq> JOB_STATE_PENDING then s
          else let (ready, failedDep) = depsSatisfied E job s in
               if failedDep \<noteq> '''' then cancelCascade E jobID (upstream_failed failedDep) s
               else if ready then removeFromIndex jobID (makeReady E job (time_Now E s) (asked s))
               else s)"

definition promoteDependents :: "'db env \<Rightarrow> string \<Rightarrow> 'db server \<Rightarrow> 'db server" where
  "promoteDependents E depID s =
     (let (dependents, s) = dependentsOf E depID s in fold (tryPromote E) dependents s)"

text \<open>
  The job is mutated in place, also when the reschedule is given up after the store refused it,
  so the mutated job is part of the answer.
\<close>

definition maybeRescheduleCron ::
  "'db env \<Rightarrow> Job \<Rightarrow> time \<Rightarrow> 'db server \<Rightarrow> bool \<times> Job \<times> 'db server" where
  "maybeRescheduleCron E job now s =
     (let expr = Schedule_GetCronExpr (j_Schedule job) in
      if expr = '''' then (False, job, s)
      else case nextCron E expr now of
             Inl _ \<Rightarrow> (False, job, s)
           | Inr next \<Rightarrow>
               let job = job\<lparr>j_State := JOB_STATE_QUEUED, j_Attempt := 0, j_AssignedWorkerId := '''',
                             j_LastError := '''', j_FinishedAt := None, j_ScheduledAt := Some next,
                             j_UpdatedAt := Some now\<rparr>
               in case putJob E job s of
                    (Some _, s) \<Rightarrow> (False, job, s)
                  | (None, s) \<Rightarrow> (True, job, armEnqueue E (j_Id job) (time_Until E s next) (asked s)))"

end
