(* ===== verification/Dispatch.thy ===== *)
theory Dispatch
  imports Deps
begin

text \<open>
  Leasing tasks to workers, taking their reports, and what a lost attempt costs
  (\<open>internal/scheduler/dispatch.go\<close>, \<open>internal/scheduler/recovery.go\<close>).
\<close>

section \<open>Failed attempts\<close>

definition retried :: "Job \<Rightarrow> time \<Rightarrow> Job" where
  "retried job t = job\<lparr>j_State := JOB_STATE_QUEUED, j_ScheduledAt := Some t\<rparr>"

text \<open>
  \<open>handleFailure\<close> mutates the job it is given; the mutated job is part of the answer. An answer
  \<^const>\<open>None\<close> is a nil error.
\<close>

definition handleFailure ::
  "'db env \<Rightarrow> Job \<Rightarrow> string \<Rightarrow> time \<Rightarrow> 'db server \<Rightarrow> rpc_error option \<times> Job \<times> 'db server" where
  "handleFailure E job errMsg now s =
     (let job = job\<lparr>j_LastError := errMsg, j_AssignedWorkerId := '''', j_UpdatedAt := Some now\<rparr>;
          maxAttempts = MaxAttempts (j_RetryPolicy job)
      in if j_Attempt job < maxAttempts
         then let delay = Backoff (env_unrep E) (env_float E (s_tick s)) (j_RetryPolicy job) (j_Attempt job);
                  s = asked s;
                  job = retried job (now + delay)
              in (case putJob E job s of
                    (Some e, s) \<Rightarrow> (Some (Err_PersistRetry e), job, s)
                  | (None, s) \<Rightarrow> (None, job, Inc TasksRetried (armEnqueue E (j_Id job) delay s)))
         else case maybeRescheduleCron E job now s of
                (True, job, s) \<Rightarrow> (None, job, s)
              | (False, job, s) \<Rightarrow>
                  let job = job\<lparr>j_State := JOB_STATE_FAILED, j_FinishedAt := Some now\<rparr> in
                  (case Store_PutDeadLetter E (s_db s) job of
                     (Some e, db) \<Rightarrow> (Some (Err_PersistDeadLetter e), job, s\<lparr>s_db := db\<rparr>)
                   | (None, db) \<Rightarrow>
                       (case putJob E job (s\<lparr>s_db := db\<rparr>) of
                          (Some e, s) \<Rightarrow> (Some (Err_PersistFailure e), job, s)
                        | (None, s) \<Rightarrow>
                            (None, job,
                             cancelCascade E (j_Id job) (upstream_failed (j_Id job))
                               (removeFromIndex (j_Id job) (Inc JobsDeadLettered s))))))"

section \<open>Leasing tasks\<close>

definition maxBatch :: int where "maxBatch = 64"

definition running :: "Job \<Rightarrow> string \<Rightarrow> time \<Rightarrow> Job" where
  "running job workerID now =
     job\<lparr>j_State := JOB_STATE_RUNNING, j_Attempt := i32 (j_Attempt job + 1), j_AssignedWorkerId := workerID,
         j_ScheduledAt := None, j_StartedAt := Some now, j_UpdatedAt := Some now\<rparr>"

lemma putJob_queue: "putJob E j s = (r, s') \<Longrightarrow> s_queue s' = s_queue s"
  using putJob_frame(4) [of E j s] by simp

text \<open>
  The loop \<open>for len(out) < n\<close> of \<open>PollTask\<close>. Every turn pops the ready queue, which gets a job
  back only when the loop ends, so the loop ends.
\<close>

function poll_loop ::
  "'db env \<Rightarrow> string \<Rightarrow> time \<Rightarrow> nat \<Rightarrow> TaskAssignment list \<Rightarrow> 'db server \<Rightarrow> TaskAssignment list \<times> 'db server"
  where
  "poll_loop E workerID now n out s =
     (if \<not> length out < n then (out, s)
      else case PQ_Pop (s_queue s) of
             (None, q) \<Rightarrow> (out, s\<lparr>s_queue := q\<rparr>)
           | (Some jobID, q) \<Rightarrow>
               let s1 = s\<lparr>s_queue := q\<rparr> in
               (case Store_GetJob E (s_db s1) jobID of
                  Inl _ \<Rightarrow> poll_loop E workerID now n out s1
                | Inr job \<Rightarrow>
                    if j_State job \<noteq> JOB_STATE_QUEUED then poll_loop E workerID now n out s1
                    else
                      let taskID = ids_New E s1 ''task'';
                          deadline = now + cfg_LeaseTTL (s_cfg s1);
                          job' = running job workerID now
                      in (case putJob E job' (asked s1) of
                            (Some _, s2) \<Rightarrow>
                              (out, s2\<lparr>s_queue := snd (PQ_Push jobID (j_Priority job') (AsTime (j_CreatedAt job')) (s_queue s2))\<rparr>)
                          | (None, s2) \<Rightarrow>
                              let l = \<lparr>ls_taskID = taskID, ls_jobID = jobID, ls_workerID = workerID,
                                       ls_attempt = j_Attempt job', ls_deadline = deadline\<rparr>;
                                  a = \<lparr>ta_TaskId = taskID, ta_JobId = jobID, ta_Attempt = j_Attempt job',
                                       ta_Spec = j_Spec job', ta_LeaseDeadline = Some deadline\<rparr>
                              in poll_loop E workerID now n (out @ [a]) (Inc TasksDispatched (addLease l s2)))))"
  by pat_completeness auto
termination
  by (relation "measure (\<lambda>(E, workerID, now, n, out, s). length (pq_h (s_queue s)))")
    (auto intro: PQ_Pop_shorter [OF sym] dest!: putJob_queue [OF sym])

declare poll_loop.simps [simp del]

text \<open>The five ways through one turn of the loop.\<close>

definition poll_lease :: "'db env \<Rightarrow> 'db server \<Rightarrow> string \<Rightarrow> string \<Rightarrow> Job \<Rightarrow> time \<Rightarrow> lease" where
  "poll_lease E s workerID jobID job now =
     \<lparr>ls_taskID = ids_New E s ''task'', ls_jobID = jobID, ls_workerID = workerID,
      ls_attempt = j_Attempt job, ls_deadline = now + cfg_LeaseTTL (s_cfg s)\<rparr>"

definition poll_assignment :: "lease \<Rightarrow> Job \<Rightarrow> TaskAssignment" where
  "poll_assignment l job =
     \<lparr>ta_TaskId = ls_taskID l, ta_JobId = ls_jobID l, ta_Attempt = ls_attempt l, ta_Spec = j_Spec job,
      ta_LeaseDeadline = Some (ls_deadline l)\<rparr>"

definition stale_entry :: "'db env \<Rightarrow> 'db server \<Rightarrow> string \<Rightarrow> bool" where
  "stale_entry E s k = (case Store_GetJob E (s_db s) k of Inl _ \<Rightarrow> True | Inr job \<Rightarrow> j_State job \<noteq> JOB_STATE_QUEUED)"

lemma poll_loop_full: "\<not> length out < n \<Longrightarrow> poll_loop E w now n out s = (out, s)"
  by (simp add: poll_loop.simps)

lemma poll_loop_empty:
  "length out < n \<Longrightarrow> PQ_Pop (s_queue s) = (None, q) \<Longrightarrow> poll_loop E w now n out s = (out, s\<lparr>s_queue := q\<rparr>)"
  by (simp add: poll_loop.simps)

lemma poll_loop_stale:
  "length out < n \<Longrightarrow> PQ_Pop (s_queue s) = (Some k, q) \<Longrightarrow> stale_entry E s k \<Longrightarrow>
   poll_loop E w now n out s = poll_loop E w now n out (s\<lparr>s_queue := q\<rparr>)"
  by (subst poll_loop.simps) (auto simp: stale_entry_def split: sum.splits)

lemma poll_loop_refused:
  "length out < n \<Longrightarrow> PQ_Pop (s_queue s) = (Some k, q) \<Longrightarrow> Store_GetJob E (s_db s) k = Inr job \<Longrightarrow>
   j_State job = JOB_STATE_QUEUED \<Longrightarrow> putJob E (running job w now) (asked (s\<lparr>s_queue := q\<rparr>)) = (Some e, s2) \<Longrightarrow>
   poll_loop E w now n out s =
     (out, s2\<lparr>s_queue := snd (PQ_Push k (j_Priority job) (AsTime (j_CreatedAt job)) (s_queue s2))\<rparr>)"
  by (subst poll_loop.simps) (simp add: running_def)

lemma poll_loop_leased:
  "length out < n \<Longrightarrow> PQ_Pop (s_queue s) = (Some k, q) \<Longrightarrow> Store_GetJob E (s_db s) k = Inr job \<Longrightarrow>
   j_State job = JOB_STATE_QUEUED \<Longrightarrow> putJob E (running job w now) (asked (s\<lparr>s_queue := q\<rparr>)) = (None, s2) \<Longrightarrow>
   l = poll_lease E s w k (running job w now) now \<Longrightarrow>
   poll_loop E w now n out s =
     poll_loop E w now n (out @ [poll_assignment l job]) (Inc TasksDispatched (addLease l s2))"
  by (subst poll_loop.simps)
    (simp add: running_def poll_lease_def poll_assignment_def ids_New_def Let_def)

lemma poll_loop_induct [case_names full empty stale refused leased]:
  assumes full: "\<And>out s. \<not> length out < n \<Longrightarrow> P out s"
    and empty: "\<And>out s q. length out < n \<Longrightarrow> PQ_Pop (s_queue s) = (None, q) \<Longrightarrow> P out s"
    and stale: "\<And>out s k q. length out < n \<Longrightarrow> PQ_Pop (s_queue s) = (Some k, q) \<Longrightarrow> stale_entry E s k \<Longrightarrow>
      P out (s\<lparr>s_queue := q\<rparr>) \<Longrightarrow> P out s"
    and refused: "\<And>out s k q job e s2. length out < n \<Longrightarrow> PQ_Pop (s_queue s) = (Some k, q) \<Longrightarrow>
      Store_GetJob E (s_db s) k = Inr job \<Longrightarrow> j_State job = JOB_STATE_QUEUED \<Longrightarrow>
      putJob E (running job w now) (asked (s\<lparr>s_queue := q\<rparr>)) = (Some e, s2) \<Longrightarrow> P out s"
    and leased: "\<And>out s k q job s2 l. length out < n \<Longrightarrow> PQ_Pop (s_queue s) = (Some k, q) \<Longrightarrow>
      Store_GetJob E (s_db s) k = Inr job \<Longrightarrow> j_State job = JOB_STATE_QUEUED \<Longrightarrow>
      putJob E (running job w now) (asked (s\<lparr>s_queue := q\<rparr>)) = (None, s2) \<Longrightarrow>
      l = poll_lease E s w k (running job w now) now \<Longrightarrow>
      P (out @ [poll_assignment l job]) (Inc TasksDispatched (addLease l s2)) \<Longrightarrow> P out s"
  shows "P out (s :: 'db server)"
proof (induction "length (pq_h (s_queue s))" arbitrary: out s rule: less_induct)
  case less
  obtain r q where pop: "PQ_Pop (s_queue s) = (r, q)" by force
  show ?case
  proof (cases "length out < n \<and> r \<noteq> None")
    case True
    then obtain k where k: "PQ_Pop (s_queue s) = (Some k, q)" using pop by auto
    have q: "length (pq_h q) < length (pq_h (s_queue s))" by (rule PQ_Pop_shorter [OF k])
    show ?thesis
    proof (cases "stale_entry E s k")
      case st: True
      show ?thesis using less [of "s\<lparr>s_queue := q\<rparr>" out] stale [OF _ k st] True q by simp
    next
      case False
      then obtain job where job: "Store_GetJob E (s_db s) k = Inr job" "j_State job = JOB_STATE_QUEUED"
        by (auto simp: stale_entry_def split: sum.splits)
      obtain e s2 where put: "putJob E (running job w now) (asked (s\<lparr>s_queue := q\<rparr>)) = (e, s2)" by force
      have "s_queue s2 = q" using putJob_queue [OF put] by simp
      then show ?thesis
        using refused [OF _ k job] leased [OF _ k job _ refl] less True put q by (cases e) auto
    qed
  qed (use full empty pop in \<open>cases "length out < n"; auto\<close>)
qed

definition batch_size :: "int \<Rightarrow> nat" where
  "batch_size maxTasks = (let n = (if maxTasks \<le> 0 then 1 else maxTasks) in nat (if maxBatch < n then maxBatch else n))"

definition PollTask ::
  "'db env \<Rightarrow> string \<Rightarrow> int \<Rightarrow> 'db server \<Rightarrow> (rpc_error + TaskAssignment list) \<times> 'db server" where
  "PollTask E workerID maxTasks s =
     (case requireLeader s of
        Some e \<Rightarrow> (Inl e, s)
      | None \<Rightarrow>
          if \<not> workerKnown workerID s then (Inl (Err_UnknownWorker workerID), s)
          else let now = time_Now E s;
                   (out, s) = poll_loop E workerID now (batch_size maxTasks) [] (asked s)
               in (Inr out, s))"

section \<open>Reports\<close>

definition succeeded :: "Job \<Rightarrow> time \<Rightarrow> Job" where
  "succeeded job now =
     job\<lparr>j_State := JOB_STATE_SUCCEEDED, j_AssignedWorkerId := '''', j_LastError := '''',
         j_FinishedAt := Some now, j_UpdatedAt := Some now\<rparr>"

definition ReportTask ::
  "'db env \<Rightarrow> ReportTaskRequest \<Rightarrow> 'db server \<Rightarrow> (rpc_error + bool) \<times> 'db server" where
  "ReportTask E req s =
     (case requireLeader s of
        Some e \<Rightarrow> (Inl e, s)
      | None \<Rightarrow>
          (case getLease (rt_TaskId req) s of
             None \<Rightarrow> (Inr True, s)
           | Some ls \<Rightarrow>
               (case Store_GetJob E (s_db s) (ls_jobID ls) of
                  Inl _ \<Rightarrow> (Inr True, removeLease (rt_TaskId req) s)
                | Inr job \<Rightarrow>
                    if j_State job \<noteq> JOB_STATE_RUNNING then (Inr True, removeLease (rt_TaskId req) s)
                    else
                      let now = time_Now E s; s = asked s in
                      (case rt_Result req of
                         TASK_RESULT_SUCCEEDED \<Rightarrow>
                           (case maybeRescheduleCron E job now (removeLease (rt_TaskId req) s) of
                              (True, _, s) \<Rightarrow> (Inr True, s)
                            | (False, job, s) \<Rightarrow>
                                let job = succeeded job now in
                                (case putJob E job s of
                                   (Some e, s) \<Rightarrow> (Inl (Err_PersistSuccess e), s)
                                 | (None, s) \<Rightarrow>
                                     (Inr True,
                                      promoteDependents E (j_Id job)
                                        (removeFromIndex (j_Id job) (Inc JobsSucceeded s)))))
                       | TASK_RESULT_FAILED \<Rightarrow>
                           (case handleFailure E job (rt_Error req) now s of
                              (Some e, _, s) \<Rightarrow> (Inl e, s)
                            | (None, _, s) \<Rightarrow> (Inr True, removeLease (rt_TaskId req) s))
                       | _ \<Rightarrow> (Inl Err_ResultRequired, s)))))"

section \<open>The reaper\<close>

definition requeueLease :: "'db env \<Rightarrow> string \<Rightarrow> string \<Rightarrow> 'db server \<Rightarrow> 'db server" where
  "requeueLease E reason taskID s =
     (case getLease taskID s of
        None \<Rightarrow> s
      | Some l \<Rightarrow>
          let s = removeLease taskID s in
          (case Store_GetJob E (s_db s) (ls_jobID l) of
             Inl _ \<Rightarrow> s
           | Inr job \<Rightarrow>
               if j_State job \<noteq> JOB_STATE_RUNNING then s
               else let s = Inc TasksRequeued s; now = time_Now E s
                    in snd (snd (handleFailure E job reason now (asked s)))))"

text \<open>The task IDs of the leases that satisfy \<open>P\<close>, in the order of an iteration over the map.\<close>

definition leases_where :: "'db env \<Rightarrow> (lease \<Rightarrow> bool) \<Rightarrow> 'db server \<Rightarrow> string list" where
  "leases_where E P s =
     filter (\<lambda>k. case map_of (s_leases s) k of Some l \<Rightarrow> P l | None \<Rightarrow> False)
       (range_keys (env_order E) (s_tick s) (s_leases s))"

definition requeueLeasesForWorker :: "'db env \<Rightarrow> string \<Rightarrow> string \<Rightarrow> 'db server \<Rightarrow> 'db server" where
  "requeueLeasesForWorker E reason workerID s =
     fold (requeueLease E reason) (leases_where E (\<lambda>l. ls_workerID l = workerID) s) (asked s)"

text \<open>The state the sweep decides for a worker last heard of \<open>age\<close> ago.\<close>

definition liveness :: "duration \<Rightarrow> duration \<Rightarrow> WorkerState" where
  "liveness timeout age =
     (if timeout < age then WORKER_STATE_DEAD
      else if timeout sdiv 2 < age then WORKER_STATE_SUSPECT
      else WORKER_STATE_ALIVE)"

definition changed_worker :: "duration \<Rightarrow> time \<Rightarrow> WorkerInfo \<Rightarrow> WorkerInfo option" where
  "changed_worker timeout now cur =
     (let target = liveness timeout (time_sub now (AsTime (w_LastHeartbeat cur)))
      in if target \<noteq> WORKER_STATE_ALIVE \<and> w_State cur \<noteq> target then Some (cur\<lparr>w_State := target\<rparr>) else None)"

definition reap_changes :: "'db env \<Rightarrow> time \<Rightarrow> 'db server \<Rightarrow> (string \<times> WorkerInfo) list" where
  "reap_changes E now s =
     List.map_filter
       (\<lambda>k. case map_of (s_workers s) k of
              None \<Rightarrow> None
            | Some cur \<Rightarrow> map_option (\<lambda>w. (k, w)) (changed_worker (cfg_HeartbeatTimeout (s_cfg s)) now cur))
       (range_keys (env_order E) (s_tick s) (s_workers s))"

definition reapOnce :: "'db env \<Rightarrow> 'db server \<Rightarrow> 'db server" where
  "reapOnce E s =
     (let now = time_Now E s; s = asked s;
          changes = reap_changes E now s; s = asked s;
          s = fold (\<lambda>(_, w) s. snd (putWorker E w s)) changes s;
          dead = map fst (filter (\<lambda>(_, w). w_State w = WORKER_STATE_DEAD) changes);
          s = fold (requeueLeasesForWorker E ''worker missed heartbeats'') dead s;
          expired = leases_where E (\<lambda>l. ls_deadline l < now) s
      in fold (requeueLease E ''lease deadline exceeded'') expired (asked s))"

text \<open>One tick of \<open>reaperLoop\<close>.\<close>

definition reaperTick :: "'db env \<Rightarrow> 'db server \<Rightarrow> 'db server" where
  "reaperTick E s = (if Node_IsLeader (s_node s) then reapOnce E s else s)"

end
