(* ===== verification/Services.thy ===== *)
theory Services
  imports Dispatch
begin

text \<open>
  The job and worker services (\<open>internal/scheduler/job.go\<close>, \<open>internal/scheduler/worker.go\<close>).
\<close>

section \<open>JobService\<close>

definition loadJob :: "'db env \<Rightarrow> string \<Rightarrow> 'db server \<Rightarrow> rpc_error + Job" where
  "loadJob E k s =
     (if k = '''' then Inl Err_JobIdRequired
      else case Store_GetJob E (s_db s) k of
             Inl ErrNotFound \<Rightarrow> Inl (Err_JobNotFound k)
           | Inl e \<Rightarrow> Inl (Err_LoadJob e)
           | Inr job \<Rightarrow> Inr job)"

definition SubmitJob :: "'db env \<Rightarrow> Job option \<Rightarrow> 'db server \<Rightarrow> (rpc_error + string) \<times> 'db server" where
  "SubmitJob E req s =
     (case requireLeader s of
        Some e \<Rightarrow> (Inl e, s)
      | None \<Rightarrow>
          (case req of
             None \<Rightarrow> (Inl Err_JobRequired, s)
           | Some job \<Rightarrow>
               if TaskSpec_GetCommand (j_Spec job) = '''' then (Inl Err_CommandRequired, s)
               else
                 let expr = Schedule_GetCronExpr (j_Schedule job);
                     (bad, s) = (if expr \<noteq> ''''
                                 then ((case nextCron E expr (time_Now E s) of Inl e \<Rightarrow> Some e | Inr _ \<Rightarrow> None), asked s)
                                 else (None, s))
                 in (case bad of
                       Some e \<Rightarrow> (Inl (Err_InvalidCron e), s)
                     | None \<Rightarrow>
                         let (job, s) = (if j_Id job = '''' then (job\<lparr>j_Id := ids_New E s ''job''\<rparr>, asked s) else (job, s))
                         in if j_DependsOn job \<noteq> [] \<and> wouldCreateCycle E (j_Id job) (j_DependsOn job) s
                            then (Inl Err_Cycle, s)
                            else let now = time_Now E s; s = asked s;
                                     job = job\<lparr>j_Attempt := 0, j_AssignedWorkerId := '''', j_LastError := '''',
                                               j_CreatedAt := Some now, j_UpdatedAt := Some now\<rparr>
                                 in (Inr (j_Id job), Inc JobsSubmitted (placeNewJob E job now s)))))"

definition GetJob :: "'db env \<Rightarrow> string \<Rightarrow> 'db server \<Rightarrow> rpc_error + Job" where
  "GetJob E k s = loadJob E k s"

definition ListJobs :: "'db env \<Rightarrow> JobState \<Rightarrow> int \<Rightarrow> 'db server \<Rightarrow> rpc_error + Job list" where
  "ListJobs E stateFilter pageSize s =
     (case Store_ListJobs E (s_db s) of
        Inl e \<Rightarrow> Inl (Err_ListJobs e)
      | Inr all \<Rightarrow>
          let out = filter (\<lambda>j. \<not> (stateFilter \<noteq> JOB_STATE_UNSPECIFIED \<and> j_State j \<noteq> stateFilter)) all
          in Inr (if 0 < pageSize \<and> pageSize < int (length out) then take (nat pageSize) out else out))"

definition CancelJob :: "'db env \<Rightarrow> string \<Rightarrow> 'db server \<Rightarrow> (rpc_error + Job) \<times> 'db server" where
  "CancelJob E k s =
     (case requireLeader s of
        Some e \<Rightarrow> (Inl e, s)
      | None \<Rightarrow>
          (case loadJob E k s of
             Inl e \<Rightarrow> (Inl e, s)
           | Inr job \<Rightarrow>
               if j_State job = JOB_STATE_CANCELED then (Inr job, s)
               else if j_State job = JOB_STATE_SUCCEEDED \<or> j_State job = JOB_STATE_FAILED
               then (Inl (Err_Terminal (j_Id job) (j_State job)), s)
               else
                 let job = job\<lparr>j_State := JOB_STATE_CANCELED, j_UpdatedAt := Some (time_Now E s)\<rparr>; s = asked s in
                 (case putJob E job s of
                    (Some e, s) \<Rightarrow> (Inl (Err_PersistCancel e), s)
                  | (None, s) \<Rightarrow>
                      let s = s\<lparr>s_queue := snd (PQ_Remove (j_Id job) (s_queue s))\<rparr>;
                          s = Inc JobsCanceled s
                      in (Inr job,
                          cancelCascade E (j_Id job) (''upstream dependency '' @ j_Id job @ '' was canceled'') s))))"

section \<open>WorkerService\<close>

definition RegisterWorker ::
  "'db env \<Rightarrow> WorkerInfo option \<Rightarrow> 'db server \<Rightarrow> (rpc_error + string \<times> string) \<times> 'db server" where
  "RegisterWorker E req s =
     (case requireLeader s of
        Some e \<Rightarrow> (Inl e, s)
      | None \<Rightarrow>
          (case req of
             None \<Rightarrow> (Inl Err_WorkerRequired, s)
           | Some w \<Rightarrow>
               let (w, s) = (if w_Id w = '''' then (w\<lparr>w_Id := ids_New E s ''worker''\<rparr>, asked s) else (w, s));
                   w = (if w_Capacity w \<le> 0 then w\<lparr>w_Capacity := 1\<rparr> else w);
                   w = w\<lparr>w_State := WORKER_STATE_ALIVE, w_LastHeartbeat := Some (time_Now E s), w_RunningTasks := 0\<rparr>;
                   s = asked s
               in (case putWorker E w s of
                     (Some e, s) \<Rightarrow> (Inl (Err_PersistWorker e), s)
                   | (None, s) \<Rightarrow> (Inr (w_Id w, s_selfAddr s), s))))"

definition Heartbeat ::
  "'db env \<Rightarrow> string \<Rightarrow> string list \<Rightarrow> 'db server \<Rightarrow> (rpc_error + bool \<times> string) \<times> 'db server" where
  "Heartbeat E workerID runningTaskIds s =
     (case requireLeader s of
        Some e \<Rightarrow> (Inl e, s)
      | None \<Rightarrow>
          (case map_of (s_workers s) workerID of
             None \<Rightarrow> (Inr (False, s_selfAddr s), s)
           | Some cur \<Rightarrow>
               let w = cur\<lparr>w_State := WORKER_STATE_ALIVE, w_LastHeartbeat := Some (time_Now E s),
                           w_RunningTasks := i32 (int (length runningTaskIds))\<rparr>;
                   s = asked s
               in (case putWorker E w s of
                     (Some e, s) \<Rightarrow> (Inl (Err_PersistHeartbeat e), s)
                   | (None, s) \<Rightarrow> (Inr (True, ''''), s))))"

end
