(* ===== verification/Leadership.thy ===== *)
theory Leadership
  imports Services
begin

text \<open>
  Becoming and ceasing to be leader, replication to followers, and the life of a node
  (\<open>internal/scheduler/server.go\<close>, \<open>internal/scheduler/cluster.go\<close>).
\<close>

section \<open>Scheduling state\<close>

definition clearSchedulingState :: "'db server \<Rightarrow> 'db server" where
  "clearSchedulingState s =
     s\<lparr>s_queue := PQ_Clear (s_queue s), s_retryTimers := [], s_leases := [], s_revIndex := []\<rparr>"

text \<open>One turn of the first loop of \<open>rebuildSchedulingState\<close>; \<open>handleFailure\<close> mutates the job.\<close>

definition rebuild_one :: "'db env \<Rightarrow> time \<Rightarrow> Job \<Rightarrow> 'db server \<Rightarrow> Job \<times> 'db server" where
  "rebuild_one E now j s =
     (let s = (if terminal (j_State j) then s else addDeps j s) in
      case j_State j of
        JOB_STATE_QUEUED \<Rightarrow>
          (j, if j_ScheduledAt j = None \<or> \<not> now < AsTime (j_ScheduledAt j)
              then s\<lparr>s_queue := snd (PQ_Push (j_Id j) (j_Priority j) (AsTime (j_CreatedAt j)) (s_queue s))\<rparr>
              else armEnqueue E (j_Id j) (time_sub (AsTime (j_ScheduledAt j)) now) s)
      | JOB_STATE_RUNNING \<Rightarrow>
          snd (handleFailure E j ''reclaimed orphaned task after leadership change'' now s)
      | _ \<Rightarrow> (j, s))"

fun rebuild_jobs :: "'db env \<Rightarrow> time \<Rightarrow> Job list \<Rightarrow> 'db server \<Rightarrow> Job list \<times> 'db server" where
  "rebuild_jobs E now [] s = ([], s)"
| "rebuild_jobs E now (j # js) s =
     (let (j', s1) = rebuild_one E now j s; (js', s2) = rebuild_jobs E now js s1 in (j' # js', s2))"

definition rebuildSchedulingState :: "'db env \<Rightarrow> 'db server \<Rightarrow> 'db server" where
  "rebuildSchedulingState E s =
     (let s = clearSchedulingState s in
      case Store_ListJobs E (s_db s) of
        Inl _ \<Rightarrow> s
      | Inr jobs \<Rightarrow>
          let now = time_Now E s;
              (jobs, s) = rebuild_jobs E now jobs (asked s)
          in fold (\<lambda>j s. if j_State j = JOB_STATE_PENDING then tryPromote E (j_Id j) s else s) jobs s)"

section \<open>The replication log\<close>

fun number_entries :: "int \<Rightarrow> Mutation list \<Rightarrow> ReplicationEntry list" where
  "number_entries seq [] = []"
| "number_entries seq (m # ms) =
     \<lparr>re_Seq = i64 (seq + 1), re_Mutation = Some m\<rparr> # number_entries (i64 (seq + 1)) ms"

definition seedReplication :: "'db env \<Rightarrow> 'db server \<Rightarrow> 'db server" where
  "seedReplication E s =
     (let jobs = (case Store_ListJobs E (s_db s) of Inl _ \<Rightarrow> [] | Inr js \<Rightarrow> js);
          workers = (case Store_ListWorkers E (s_db s) of Inl _ \<Rightarrow> [] | Inr ws \<Rightarrow> ws);
          log = number_entries 0
            (map ReplicationEntry_UpsertJob jobs @ map ReplicationEntry_UpsertWorker workers)
      in s\<lparr>s_replLog := log, s_replSeq := (if log = [] then 0 else re_Seq (last log)), s_peerAcked := []\<rparr>)"

definition onBecomeLeader :: "'db env \<Rightarrow> int \<Rightarrow> 'db server \<Rightarrow> 'db server" where
  "onBecomeLeader E term s = seedReplication E (rebuildSchedulingState E s)"

definition onStepDown :: "int \<Rightarrow> 'db server \<Rightarrow> 'db server" where
  "onStepDown term s = clearSchedulingState s"

definition run_callback :: "'db env \<Rightarrow> callback \<Rightarrow> 'db server \<Rightarrow> 'db server" where
  "run_callback E c s = (case c of OnLeader t \<Rightarrow> onBecomeLeader E t s | OnStepDown t \<Rightarrow> onStepDown t s)"

definition acked :: "string \<Rightarrow> 'db server \<Rightarrow> int" where
  "acked peerID s = (case map_of (s_peerAcked s) peerID of None \<Rightarrow> 0 | Some n \<Rightarrow> n)"

definition entriesForPeer :: "string \<Rightarrow> 'db server \<Rightarrow> ReplicationEntry list" where
  "entriesForPeer peerID s = filter (\<lambda>e. acked peerID s < re_Seq e) (s_replLog s)"

definition ackPeer :: "string \<Rightarrow> int \<Rightarrow> 'db server \<Rightarrow> 'db server" where
  "ackPeer peerID applied s =
     (if applied \<le> 0 then s
      else if acked peerID s < applied then s\<lparr>s_peerAcked := AList.update peerID applied (s_peerAcked s)\<rparr>
      else s)"

section \<open>SchedulerService\<close>

definition draw_of :: "'db env \<Rightarrow> 'db server \<Rightarrow> draw" where
  "draw_of E s = (env_now E (s_tick s), env_int63 E (s_tick s))"

definition RequestVote ::
  "'db env \<Rightarrow> int \<Rightarrow> string \<Rightarrow> 'db server \<Rightarrow> (bool \<times> int) \<times> 'db server" where
  "RequestVote E term candidateID s =
     (case HandleVote (electionStore E) (draw_of E s) (draw_of E (asked s)) term candidateID (s_node s) (s_db s) of
        (r, cbs, n, db) \<Rightarrow> (r, (asked (asked s))\<lparr>s_node := n, s_db := db, s_pending := s_pending s @ cbs\<rparr>))"

definition apply_entry :: "'db env \<Rightarrow> ReplicationEntry \<Rightarrow> 'db server \<Rightarrow> 'db server" where
  "apply_entry E e s =
     (case re_Mutation e of
        Some (ReplicationEntry_UpsertJob j) \<Rightarrow> s\<lparr>s_db := snd (Store_PutJob E (s_db s) j)\<rparr>
      | Some (ReplicationEntry_UpsertWorker w) \<Rightarrow>
          (case Store_PutWorker E (s_db s) w of
             (Some _, db) \<Rightarrow> s\<lparr>s_db := db\<rparr>
           | (None, db) \<Rightarrow> s\<lparr>s_db := db, s_workers := AList.update (w_Id w) w (s_workers s)\<rparr>)
      | Some (ReplicationEntry_DeleteJobId k) \<Rightarrow> s\<lparr>s_db := snd (Store_DeleteJob E (s_db s) k)\<rparr>
      | None \<Rightarrow> s)"

definition applyEntries :: "'db env \<Rightarrow> ReplicationEntry list \<Rightarrow> 'db server \<Rightarrow> int \<times> 'db server" where
  "applyEntries E es s =
     fold (\<lambda>e (last, s). (if last < re_Seq e then re_Seq e else last, apply_entry E e s)) es (0, s)"

definition Replicate ::
  "'db env \<Rightarrow> int \<Rightarrow> string \<Rightarrow> ReplicationEntry list \<Rightarrow> 'db server \<Rightarrow> ReplicateResponse \<times> 'db server" where
  "Replicate E term leaderID es s =
     (case ObserveLeader (electionStore E) (draw_of E s) (draw_of E (asked s)) term leaderID (s_node s) (s_db s) of
        ((accepted, currentTerm), cbs, n, db) \<Rightarrow>
          let s = (asked (asked s))\<lparr>s_node := n, s_db := db, s_pending := s_pending s @ cbs\<rparr> in
          if \<not> accepted then (\<lparr>rr_Ok = False, rr_CurrentTerm = currentTerm, rr_AppliedThrough = 0\<rparr>, s)
          else let (applied, s) = applyEntries E es s
               in (\<lparr>rr_Ok = True, rr_CurrentTerm = currentTerm, rr_AppliedThrough = applied\<rparr>, s))"

definition GetClusterStatus ::
  "'db env \<Rightarrow> 'db server \<Rightarrow> (rpc_error + GetClusterStatusResponse) \<times> 'db server" where
  "GetClusterStatus E s =
     (let leaderID = Node_LeaderID (s_node s);
          ids = range_keys (env_order E) (s_tick s) (s_members s);
          nodes = map (\<lambda>k. \<lparr>sn_Id = k, sn_Address = the (map_of (s_members s) k),
                    sn_Role = (if k = leaderID then SCHEDULER_ROLE_LEADER else SCHEDULER_ROLE_FOLLOWER),
                    sn_LastSeen = None\<rparr>) ids
      in (case Store_ListWorkers E (s_db s) of
            Inl e \<Rightarrow> Inl (Err_ListWorkers e)
          | Inr ws \<Rightarrow>
              Inr \<lparr>cs_Lease = Some \<lparr>li_HolderId = leaderID, li_Term = Node_Term (s_node s),
                     li_AcquiredAt = None, li_ExpiresAt = None\<rparr>,
                   cs_Schedulers = nodes, cs_Workers = ws\<rparr>,
          asked s))"

text \<open>
  One follower's turn in \<open>broadcastReplicate\<close>: \<open>send\<close> is the RPC to the peer, which answers an error
  or a response.
\<close>

definition replicate_peer ::
  "'db env \<Rightarrow> (string \<Rightarrow> int \<Rightarrow> string \<Rightarrow> ReplicationEntry list \<Rightarrow> goerr + ReplicateResponse) \<Rightarrow> int \<Rightarrow> string \<Rightarrow>
   'db server \<Rightarrow> 'db server" where
  "replicate_peer E send term k s =
     (if k = cfg_NodeID (s_cfg s) then s
      else case send k term (cfg_NodeID (s_cfg s)) (entriesForPeer k s) of
             Inl _ \<Rightarrow> s
           | Inr r \<Rightarrow>
               if \<not> rr_Ok r
               then (case MaybeStepDown (electionStore E) (draw_of E s) (rr_CurrentTerm r) (s_node s) (s_db s) of
                       (cbs, n, db) \<Rightarrow> (asked s)\<lparr>s_node := n, s_db := db, s_pending := s_pending s @ cbs\<rparr>)
               else ackPeer k (rr_AppliedThrough r) s)"

definition broadcastReplicate ::
  "'db env \<Rightarrow> (string \<Rightarrow> int \<Rightarrow> string \<Rightarrow> ReplicationEntry list \<Rightarrow> goerr + ReplicateResponse) \<Rightarrow>
   'db server \<Rightarrow> 'db server" where
  "broadcastReplicate E send s =
     fold (replicate_peer E send (Node_Term (s_node s))) (range_keys (env_order E) (s_tick s) (s_members s)) (asked s)"

text \<open>One tick of \<open>replicationLoop\<close>.\<close>

definition replicationTick ::
  "'db env \<Rightarrow> (string \<Rightarrow> int \<Rightarrow> string \<Rightarrow> ReplicationEntry list \<Rightarrow> goerr + ReplicateResponse) \<Rightarrow>
   'db server \<Rightarrow> 'db server" where
  "replicationTick E send s = (if Node_IsLeader (s_node s) then broadcastReplicate E send s else s)"

section \<open>The life of a node\<close>

text \<open>The worker cache read back from the store.\<close>

definition recover :: "'db env \<Rightarrow> 'db server \<Rightarrow> store_err option \<times> 'db server" where
  "recover E s =
     (case Store_ListWorkers E (s_db s) of
        Inl e \<Rightarrow> (Some e, s)
      | Inr ws \<Rightarrow> (None, s\<lparr>s_workers := fold (\<lambda>w m. AList.update (w_Id w) w m) ws (s_workers s)\<rparr>))"

text \<open>
  \<open>filepath.Join\<close> of a directory and a file name: the path with its empty, \<open>.\<close> and \<open>..\<close> elements
  resolved.
\<close>

fun split_path :: "string \<Rightarrow> string list" where
  "split_path [] = [[]]"
| "split_path (c # cs) =
     (if c = CHR ''/'' then [] # split_path cs
      else case split_path cs of [] \<Rightarrow> [[c]] | e # es \<Rightarrow> (c # e) # es)"

definition push_element :: "bool \<Rightarrow> string \<Rightarrow> string list \<Rightarrow> string list" where
  "push_element rooted e out =
     (if e = '''' \<or> e = ''.'' then out
      else if e = ''..''
      then (if out \<noteq> [] \<and> last out \<noteq> ''..'' then butlast out else if rooted then out else out @ [e])
      else out @ [e])"

fun join_path :: "string list \<Rightarrow> string" where
  "join_path [] = ''''"
| "join_path [e] = e"
| "join_path (e # es) = e @ ''/'' @ join_path es"

definition filepath_Clean :: "string \<Rightarrow> string" where
  "filepath_Clean path =
     (let rooted = (path \<noteq> [] \<and> hd path = CHR ''/'');
          out = fold (push_element rooted) (split_path path) []
      in if rooted then ''/'' @ join_path out else if out = [] then ''.'' else join_path out)"

definition db_path :: "Config \<Rightarrow> string" where
  "db_path cfg =
     filepath_Clean (if cfg_DataDir cfg = '''' then ''distsched.db'' else cfg_DataDir cfg @ ''/'' @ ''distsched.db'')"

text \<open>
  \<open>New\<close> up to the background loops: open the store, read the worker cache, bind the metrics
  endpoint, start the election. A single-node cluster becomes leader and rebuilds its state before
  \<open>New\<close> returns. \<^const>\<open>None\<close> is a panic of the election state's decoding. \<open>Server_boot\<close> is the
  part of \<open>New\<close> after the store has been opened, so that it can be applied to the database a
  stopped node left behind.
\<close>

datatype new_error = New_Open store_err | New_Recover store_err | New_Metrics "string \<times> goerr"

definition startMetricsHTTP :: "'db env \<Rightarrow> string \<Rightarrow> (string \<times> goerr) option" where
  "startMetricsHTTP E addr = map_option (Pair addr) (env_listen E addr)"

definition new_server :: "nat \<Rightarrow> Config \<Rightarrow> 'db \<Rightarrow> 'db server" where
  "new_server tick cfg db =
     (let members = fold (\<lambda>m ms. AList.update (m_ID m) (m_Address m) ms) (cfg_Members cfg) [];
          ncfg = \<lparr>nc_NodeID = cfg_NodeID cfg, nc_Members = map m_ID (cfg_Members cfg),
                  nc_ElectionTimeoutMin = cfg_ElectionTimeoutMin cfg,
                  nc_ElectionTimeoutMax = cfg_ElectionTimeoutMax cfg\<rparr>
      in \<lparr>s_cfg = cfg, s_members = members,
          s_selfAddr = (case map_of members (cfg_NodeID cfg) of None \<Rightarrow> '''' | Some a \<Rightarrow> a),
          s_db = db, s_queue = PQ_New, s_node = Node_New ncfg, s_workers = [], s_leases = [],
          s_retryTimers = [], s_replLog = [], s_replSeq = 0, s_peerAcked = [], s_revIndex = [],
          s_closed = False, s_pending = [], s_counters = [], s_tick = tick\<rparr>)"

definition Server_boot :: "'db env \<Rightarrow> nat \<Rightarrow> Config \<Rightarrow> 'db \<Rightarrow> (new_error + 'db server) option" where
  "Server_boot E tick cfg db =
     (case recover E (new_server tick cfg db) of
        (Some e, _) \<Rightarrow> Some (Inl (New_Recover e))
      | (None, s) \<Rightarrow>
          (case (if cfg_MetricsAddr cfg \<noteq> '''' then startMetricsHTTP E (cfg_MetricsAddr cfg) else None) of
             Some e \<Rightarrow> Some (Inl (New_Metrics e))
           | None \<Rightarrow>
               (case Node_Start (electionStore E) (draw_of E s) (s_node s) (s_db s) of
                  None \<Rightarrow> None
                | Some (cbs, n, db) \<Rightarrow>
                    Some (Inr (fold (run_callback E) cbs ((asked s)\<lparr>s_node := n, s_db := db\<rparr>))))))"

definition Server_New :: "'db env \<Rightarrow> nat \<Rightarrow> Config \<Rightarrow> (new_error + 'db server) option" where
  "Server_New E tick cfg =
     (let cfg = Config_withDefaults cfg in
      case Store_Open E (db_path cfg) of
        Inl e \<Rightarrow> Some (Inl (New_Open e))
      | Inr db \<Rightarrow> Server_boot E tick cfg db)"

text \<open>\<open>Shutdown\<close>, as far as the state goes: no timer fires and no job is enqueued any more.\<close>

definition Shutdown :: "'db server \<Rightarrow> 'db server" where
  "Shutdown s = s\<lparr>s_closed := True, s_retryTimers := []\<rparr>"

end
