(* ===== verification/Replication.thy ===== *)
theory Replication
  imports Leadership
begin

text \<open>
  What the replication log means. Replaying a log over a table applies its upserts and deletions in
  order; the follower side (\<open>applyEntries\<close>) computes exactly that, the leader side keeps its log
  equal to its own tables, and a follower that is sent overlapping parts of the log ends where a
  follower ends that is sent the log once.
\<close>

section \<open>Replaying a log\<close>

fun replay_entry :: "ReplicationEntry \<Rightarrow> (string \<rightharpoonup> Job) \<Rightarrow> (string \<rightharpoonup> Job)" where
  "replay_entry e J =
     (case re_Mutation e of
        Some (ReplicationEntry_UpsertJob j) \<Rightarrow> J(j_Id j \<mapsto> j)
      | Some (ReplicationEntry_DeleteJobId k) \<Rightarrow> J(k := None)
      | _ \<Rightarrow> J)"

fun replay_worker :: "ReplicationEntry \<Rightarrow> (string \<rightharpoonup> WorkerInfo) \<Rightarrow> (string \<rightharpoonup> WorkerInfo)" where
  "replay_worker e W =
     (case re_Mutation e of Some (ReplicationEntry_UpsertWorker w) \<Rightarrow> W(w_Id w \<mapsto> w) | _ \<Rightarrow> W)"

definition replay :: "ReplicationEntry list \<Rightarrow> (string \<rightharpoonup> Job) \<Rightarrow> (string \<rightharpoonup> Job)" where
  "replay es J = fold replay_entry es J"

definition replay_workers :: "ReplicationEntry list \<Rightarrow> (string \<rightharpoonup> WorkerInfo) \<Rightarrow> (string \<rightharpoonup> WorkerInfo)" where
  "replay_workers es W = fold replay_worker es W"

text \<open>What entry \<open>e\<close> says about job \<open>k\<close>: nothing, or that it is now \<open>v\<close>.\<close>

definition says :: "ReplicationEntry \<Rightarrow> string \<Rightarrow> Job option option" where
  "says e k =
     (case re_Mutation e of
        Some (ReplicationEntry_UpsertJob j) \<Rightarrow> if j_Id j = k then Some (Some j) else None
      | Some (ReplicationEntry_DeleteJobId k') \<Rightarrow> if k' = k then Some None else None
      | _ \<Rightarrow> None)"

text \<open>The last thing a log says about job \<open>k\<close>.\<close>

fun last_word :: "ReplicationEntry list \<Rightarrow> string \<Rightarrow> Job option option" where
  "last_word [] k = None"
| "last_word (e # es) k = (case last_word es k of None \<Rightarrow> says e k | Some v \<Rightarrow> Some v)"

lemma replay_simps [simp]:
  "replay [] J = J" "replay (e # es) J = replay es (replay_entry e J)"
  "replay (es @ es') J = replay es' (replay es J)"
  "replay_workers [] W = W" "replay_workers (e # es) W = replay_workers es (replay_worker e W)"
  "replay_workers (es @ es') W = replay_workers es' (replay_workers es W)"
  by (simp_all add: replay_def replay_workers_def)

lemma replay_entry_says: "replay_entry e J k = (case says e k of None \<Rightarrow> J k | Some v \<Rightarrow> v)"
  by (auto simp: says_def split: option.splits Mutation.splits)

lemma replay_last_word: "replay es J k = (case last_word es k of None \<Rightarrow> J k | Some v \<Rightarrow> v)"
  by (induction es arbitrary: J) (auto simp: replay_entry_says split: option.splits simp del: replay_entry.simps)

lemma last_word_append:
  "last_word (es @ es') k = (case last_word es' k of None \<Rightarrow> last_word es k | Some v \<Rightarrow> Some v)"
  by (induction es) (auto split: option.splits)

lemma last_word_None: "last_word es k = None \<longleftrightarrow> (\<forall>e \<in> set es. says e k = None)"
  by (induction es) (auto split: option.splits)

text \<open>Sending a part of the log again changes nothing, as long as everything after it follows.\<close>

lemma replay_overlap:
  assumes "i \<le> j"
  shows "replay (drop i es) (replay (take j es) J) = replay es J"
proof
  fix k
  have es: "last_word es k = (case last_word (drop i es) k of None \<Rightarrow> last_word (take i es) k | Some v \<Rightarrow> Some v)"
    by (metis append_take_drop_id last_word_append)
  have "take j es = take i es @ take (j - i) (drop i es)"
    using assms by (metis le_add_diff_inverse take_add)
  then have tk: "last_word (take j es) k =
      (case last_word (take (j - i) (drop i es)) k of None \<Rightarrow> last_word (take i es) k | Some v \<Rightarrow> Some v)"
    by (simp add: last_word_append)
  have "last_word (take (j - i) (drop i es)) k = None" if "last_word (drop i es) k = None"
    using that set_take_subset [of "j - i" "drop i es"] by (auto simp: last_word_None)
  then show "replay (drop i es) (replay (take j es) J) k = replay es J k"
    using es tk by (auto simp: replay_last_word split: option.splits)
qed

section \<open>The log of a leader\<close>

definition upserts_only :: "ReplicationEntry list \<Rightarrow> bool" where
  "upserts_only es \<longleftrightarrow> (\<forall>e \<in> set es. \<forall>k. re_Mutation e \<noteq> Some (ReplicationEntry_DeleteJobId k))"

text \<open>Sequence numbers count from 1; they wrap around only after \<open>2 ^ 63\<close> entries.\<close>

definition numbered :: "ReplicationEntry list \<Rightarrow> int \<Rightarrow> bool" where
  "numbered es seq \<longleftrightarrow>
     (length es < 2 ^ 63 \<longrightarrow> map re_Seq es = map int [1..<Suc (length es)] \<and> seq = int (length es))"

definition log_ok :: "'db env \<Rightarrow> 'db server \<Rightarrow> bool" where
  "log_ok E s \<longleftrightarrow>
     replay (s_replLog s) Map.empty = jobs_of E (s_db s) \<and>
     replay_workers (s_replLog s) Map.empty = workers_of E (s_db s) \<and>
     upserts_only (s_replLog s) \<and> numbered (s_replLog s) (s_replSeq s)"

lemma upserts_only_simps [simp]:
  "upserts_only []" "upserts_only (es @ es') \<longleftrightarrow> upserts_only es \<and> upserts_only es'"
  "upserts_only (e # es) \<longleftrightarrow> (\<forall>k. re_Mutation e \<noteq> Some (ReplicationEntry_DeleteJobId k)) \<and> upserts_only es"
  by (auto simp: upserts_only_def)

lemma numbered_snoc:
  assumes "numbered es seq"
  shows "numbered (es @ [\<lparr>re_Seq = i64 (seq + 1), re_Mutation = m\<rparr>]) (i64 (seq + 1))"
proof (cases "Suc (length es) < 2 ^ 63")
  case True
  then have len: "length es < 2 ^ 63" by linarith
  then have seq: "map re_Seq es = map int [1..<Suc (length es)]" "seq = int (length es)"
    using assms by (simp_all add: numbered_def)
  have "int (Suc (length es)) < int (2 ^ 63)" using True by (simp only: of_nat_less_iff)
  then have "i64 (int (length es) + 1) = int (length es) + 1" by (intro i64_id) simp_all
  then show ?thesis using seq by (simp add: numbered_def)
qed (simp add: numbered_def)

lemma log_ok_appendRepl:
  assumes "Node_IsLeader (s_node s)" "numbered (s_replLog s) (s_replSeq s)"
  shows "s_replLog (appendRepl m s) = s_replLog s @ [\<lparr>re_Seq = i64 (s_replSeq s + 1), re_Mutation = Some m\<rparr>]"
    and "numbered (s_replLog (appendRepl m s)) (s_replSeq (appendRepl m s))"
  using assms numbered_snoc [of "s_replLog s" "s_replSeq s" "Some m"] by (simp_all add: appendRepl_def Let_def)

text \<open>Every write of a leader keeps its log equal to its tables.\<close>

lemma putJob_log:
  assumes laws: "store_laws E" and wf: "store_wf E (s_db s)" and leader: "Node_IsLeader (s_node s)" and ok: "log_ok E s"
  shows "log_ok E (snd (putJob E j s))"
proof (cases "Store_PutJob E (s_db s) j")
  case (Pair r db)
  let ?s = "s\<lparr>s_db := db\<rparr>"
  have num: "numbered (s_replLog ?s) (s_replSeq ?s)" using ok by (simp add: log_ok_def)
  show ?thesis
    using ok log_ok_appendRepl [OF _ num, of "ReplicationEntry_UpsertJob j"] leader
      PutJob_store(2,3) [OF laws wf, of j] Pair
    by (cases r) (simp_all add: putJob_def log_ok_def)
qed

lemma putWorker_log:
  assumes laws: "store_laws E" and wf: "store_wf E (s_db s)" and leader: "Node_IsLeader (s_node s)" and ok: "log_ok E s"
  shows "log_ok E (snd (putWorker E w s))"
proof (cases "Store_PutWorker E (s_db s) w")
  case (Pair r db)
  let ?s = "s\<lparr>s_db := db\<rparr>"
  have num: "numbered (s_replLog ?s) (s_replSeq ?s)" using ok by (simp add: log_ok_def)
  show ?thesis
    using ok log_ok_appendRepl [OF _ num, of "ReplicationEntry_UpsertWorker w"] leader
      PutWorker_store(2,3) [OF laws wf, of w] Pair
    by (cases r) (simp_all add: putWorker_def log_ok_def Let_def)
qed

lemma log_ok_same:
  "log_ok E s \<Longrightarrow> jobs_of E (s_db s') = jobs_of E (s_db s) \<Longrightarrow> workers_of E (s_db s') = workers_of E (s_db s) \<Longrightarrow>
   s_replLog s' = s_replLog s \<Longrightarrow> s_replSeq s' = s_replSeq s \<Longrightarrow> log_ok E s'"
  by (simp add: log_ok_def)


section \<open>Shipping the log\<close>

text \<open>Under consecutive numbers, a peer that acknowledged \<open>a\<close> is sent what follows the first \<open>a\<close> entries.\<close>

lemma numbered_filter:
  assumes "map re_Seq es = map int [Suc i..<Suc (i + length es)]"
  shows "filter (\<lambda>e. a < re_Seq e) es = drop (nat (a - int i)) es"
  using assms
proof (induction es arbitrary: i)
  case (Cons e es)
  have up: "[Suc i..<Suc (i + length (e # es))] = Suc i # [Suc (Suc i)..<Suc (Suc i + length es)]"
    by (simp add: upt_rec)
  then have e: "re_Seq e = int (Suc i)" and es: "map re_Seq es = map int [Suc (Suc i)..<Suc (Suc i + length es)]"
    using Cons(2) by simp_all
  show ?case
  proof (cases "a < int (Suc i)")
    case True
    moreover from this have "filter (\<lambda>e. a < re_Seq e) es = es" using Cons(1) [OF es] by simp
    ultimately show ?thesis using e by simp
  next
    case False
    moreover from this have "nat (a - int i) = Suc (nat (a - int (Suc i)))" by linarith
    ultimately show ?thesis using e Cons(1) [OF es] by simp
  qed
qed simp

lemma entriesForPeer_drop:
  assumes "numbered (s_replLog s) (s_replSeq s)" "length (s_replLog s) < 2 ^ 63"
  shows "entriesForPeer p s = drop (nat (acked p s)) (s_replLog s)"
  using assms numbered_filter [of "s_replLog s" 0 "acked p s"] by (simp add: numbered_def entriesForPeer_def)

lemma apply_entry_frame [simp]:
  "s_queue (apply_entry E e s) = s_queue s" "s_node (apply_entry E e s) = s_node s"
  "s_cfg (apply_entry E e s) = s_cfg s" "s_members (apply_entry E e s) = s_members s"
  by (simp_all add: apply_entry_def split: option.splits Mutation.splits prod.splits)

lemma apply_entry_replay:
  assumes laws: "store_laws E" and rel: "no_faults E" and wf: "store_wf E (s_db s)"
  shows "store_wf E (s_db (apply_entry E e s))"
    and "jobs_of E (s_db (apply_entry E e s)) = replay_entry e (jobs_of E (s_db s))"
    and "workers_of E (s_db (apply_entry E e s)) = replay_worker e (workers_of E (s_db s))"
  using PutJob_store [OF laws wf] PutWorker_store [OF laws wf] DeleteJob_store [OF laws wf] no_faults_writes [OF rel] wf
  by (auto simp: apply_entry_def split: option.splits Mutation.splits prod.splits)
    (metis fst_conv option.simps(4) snd_conv option.distinct(1))+


lemma applyEntries_replay:
  assumes laws: "store_laws E" and rel: "no_faults E" and wf: "store_wf E (s_db s)" and app: "applyEntries E es s = (n, s')"
  shows "store_wf E (s_db s') \<and> jobs_of E (s_db s') = replay es (jobs_of E (s_db s)) \<and>
    workers_of E (s_db s') = replay_workers es (workers_of E (s_db s)) \<and> n = fold (\<lambda>e m. max m (re_Seq e)) es 0"
proof -
  let ?f = "\<lambda>e (m, s). (if m < re_Seq e then re_Seq e else m, apply_entry E e s)"
  have "store_wf E (s_db (snd (fold ?f es (m, s)))) \<and>
      jobs_of E (s_db (snd (fold ?f es (m, s)))) = replay es (jobs_of E (s_db s)) \<and>
      workers_of E (s_db (snd (fold ?f es (m, s)))) = replay_workers es (workers_of E (s_db s)) \<and>
      fst (fold ?f es (m, s)) = fold (\<lambda>e m. max m (re_Seq e)) es m" for m
    using wf
  proof (induction es arbitrary: m s)
    case (Cons e es)
    then show ?case
      using apply_entry_replay [OF laws rel Cons(2), of e] by (auto simp: max_def simp del: replay_entry.simps replay_worker.simps)
  qed simp
  from this [of 0] show ?thesis using app by (simp add: applyEntries_def)
qed

lemma replay_upserts: "upserts_only es \<Longrightarrow> replay es J = J ++ replay es Map.empty"
proof (rule ext)
  fix k
  assume "upserts_only es"
  then have "last_word es k \<noteq> Some None"
    by (induction es) (auto simp: says_def split: option.splits Mutation.splits if_splits)
  then show "replay es J k = (J ++ replay es Map.empty) k"
    by (auto simp: replay_last_word map_add_def split: option.splits)
qed

text \<open>The number a follower answers with is the number of the last entry it was sent.\<close>

lemma fold_max_numbered:
  assumes "map re_Seq es = map int [Suc i..<Suc (i + length es)]" "es \<noteq> []" "m \<le> int (i + length es)"
  shows "fold (\<lambda>e m. max m (re_Seq e)) es m = int (i + length es)"
  using assms
proof (induction es arbitrary: i m)
  case (Cons e es)
  have up: "[Suc i..<Suc (i + length (e # es))] = Suc i # [Suc (Suc i)..<Suc (Suc i + length es)]"
    by (simp add: upt_rec)
  then have e: "re_Seq e = int (Suc i)" and es: "map re_Seq es = map int [Suc (Suc i)..<Suc (Suc i + length es)]"
    using Cons(2) by simp_all
  show ?case
  proof (cases "es = []")
    case True
    then show ?thesis using e Cons(4) by simp
  next
    case False
    then show ?thesis using e Cons(1) [OF es False, of "max m (re_Seq e)"] Cons(4) by simp
  qed
qed simp

lemma fold_max_drop:
  assumes "numbered es seq" "length es < 2 ^ 63" "a < length es"
  shows "fold (\<lambda>e m. max m (re_Seq e)) (drop a es) 0 = int (length es)"
proof -
  have m: "map re_Seq es = map int [1..<Suc (length es)]" using assms unfolding numbered_def by blast
  have "map re_Seq (drop a es) = drop a (map re_Seq es)" by (simp add: drop_map)
  also have "\<dots> = map int [Suc a..<Suc (a + length (drop a es))]"
    unfolding m using assms(3) by (simp add: drop_map del: upt_Suc)
  finally show ?thesis using fold_max_numbered [of "drop a es" a 0] assms(3) by simp
qed

end
