(* ===== verification/Job_Machine.thy ===== *)
theory Job_Machine
  imports Deps
begin

text \<open>
  What the scheduler promises about jobs, without queues, leases, timers or the network: a table of
  jobs, a table of dead letters, and the steps a job may take. The theory \<open>Server_Refines\<close> shows
  that every handler of the server only takes these steps; the invariants proved here carry over.
\<close>

section \<open>Jobs and their steps\<close>

type_synonym job_table = "string \<rightharpoonup> Job"

record machine =
  mc_jobs :: job_table
  mc_dead :: job_table

text \<open>What a job keeps for life.\<close>

definition same_job :: "Job \<Rightarrow> Job \<Rightarrow> bool" where
  "same_job j j' \<longleftrightarrow>
     j_Id j' = j_Id j \<and> j_Name j' = j_Name j \<and> j_Priority j' = j_Priority j \<and> j_Spec j' = j_Spec j \<and>
     j_DependsOn j' = j_DependsOn j \<and> j_Schedule j' = j_Schedule j \<and> j_RetryPolicy j' = j_RetryPolicy j \<and>
     j_CreatedAt j' = j_CreatedAt j"

definition deps_met :: "job_table \<Rightarrow> Job \<Rightarrow> bool" where
  "deps_met J j \<longleftrightarrow> (\<forall>d \<in> set (j_DependsOn j). \<exists>dj. J d = Some dj \<and> j_State dj = JOB_STATE_SUCCEEDED)"

definition is_cron :: "Job \<Rightarrow> bool" where
  "is_cron j \<longleftrightarrow> Schedule_GetCronExpr (j_Schedule j) \<noteq> ''''"

definition exhausted :: "Job \<Rightarrow> bool" where
  "exhausted j \<longleftrightarrow> MaxAttempts (j_RetryPolicy j) \<le> j_Attempt j"

inductive job_step :: "machine \<Rightarrow> Job \<Rightarrow> Job \<Rightarrow> bool" for M :: machine where
  promote: "same_job j j' \<Longrightarrow> j_State j = JOB_STATE_PENDING \<Longrightarrow> j_State j' = JOB_STATE_QUEUED \<Longrightarrow>
    j_Attempt j' = j_Attempt j \<Longrightarrow> deps_met (mc_jobs M) j \<Longrightarrow> job_step M j j'"
| dispatch: "same_job j j' \<Longrightarrow> j_State j = JOB_STATE_QUEUED \<Longrightarrow> j_State j' = JOB_STATE_RUNNING \<Longrightarrow>
    j_Attempt j' = i32 (j_Attempt j + 1) \<Longrightarrow> job_step M j j'"
| retry: "same_job j j' \<Longrightarrow> j_State j = JOB_STATE_RUNNING \<Longrightarrow> j_State j' = JOB_STATE_QUEUED \<Longrightarrow>
    j_Attempt j' = j_Attempt j \<Longrightarrow> \<not> exhausted j \<Longrightarrow> job_step M j j'"
| rearm: "same_job j j' \<Longrightarrow> j_State j = JOB_STATE_RUNNING \<Longrightarrow> j_State j' = JOB_STATE_QUEUED \<Longrightarrow>
    is_cron j \<Longrightarrow> j_Attempt j' = 0 \<Longrightarrow> job_step M j j'"
| succeed: "same_job j j' \<Longrightarrow> j_State j = JOB_STATE_RUNNING \<Longrightarrow> j_State j' = JOB_STATE_SUCCEEDED \<Longrightarrow>
    j_Attempt j' = j_Attempt j \<or> is_cron j \<and> j_Attempt j' = 0 \<Longrightarrow> job_step M j j'"
| fail: "same_job j j' \<Longrightarrow> j_State j = JOB_STATE_RUNNING \<Longrightarrow> j_State j' = JOB_STATE_FAILED \<Longrightarrow>
    j_Attempt j' = j_Attempt j \<or> is_cron j \<and> j_Attempt j' = 0 \<Longrightarrow> exhausted j \<Longrightarrow>
    mc_dead M (j_Id j) = Some j' \<Longrightarrow> job_step M j j'"
| cancel: "same_job j j' \<Longrightarrow> \<not> terminal (j_State j) \<Longrightarrow> j_State j' = JOB_STATE_CANCELED \<Longrightarrow>
    j_Attempt j' = j_Attempt j \<Longrightarrow> job_step M j j'"

inductive machine_step :: "machine \<Rightarrow> machine \<Rightarrow> bool" where
  job: "mc_jobs M k = Some j \<Longrightarrow> j_Id j = k \<Longrightarrow> job_step M j j' \<Longrightarrow>
    machine_step M (M\<lparr>mc_jobs := (mc_jobs M)(k \<mapsto> j')\<rparr>)"
| dead_letter: "mc_jobs M k = Some j \<Longrightarrow> j_Id j = k \<Longrightarrow> j_State j = JOB_STATE_RUNNING \<Longrightarrow> exhausted j \<Longrightarrow>
    same_job j d \<Longrightarrow> j_State d = JOB_STATE_FAILED \<Longrightarrow>
    machine_step M (M\<lparr>mc_dead := (mc_dead M)(k \<mapsto> d)\<rparr>)"

text \<open>A submission that the scheduler accepts.\<close>

definition dep_edges :: "job_table \<Rightarrow> (string \<times> string) set" where
  "dep_edges J = {(k, d). \<exists>j. J k = Some j \<and> d \<in> set (j_DependsOn j)}"

inductive submit_step :: "machine \<Rightarrow> string \<Rightarrow> machine \<Rightarrow> bool" where
  submit: "j_Id j = k \<Longrightarrow> j_Attempt j = 0 \<Longrightarrow>
    j_State j = JOB_STATE_PENDING \<or> j_State j = JOB_STATE_CANCELED \<or>
      j_State j = JOB_STATE_QUEUED \<and> deps_met (mc_jobs M) j \<Longrightarrow>
    (\<forall>c. (k, c) \<in> (dep_edges ((mc_jobs M)(k \<mapsto> j)))\<^sup>* \<longrightarrow> (c, c) \<notin> (dep_edges ((mc_jobs M)(k \<mapsto> j)))\<^sup>+) \<Longrightarrow>
    submit_step M k (M\<lparr>mc_jobs := (mc_jobs M)(k \<mapsto> j)\<rparr>)"

abbreviation machine_steps :: "machine \<Rightarrow> machine \<Rightarrow> bool" where
  "machine_steps \<equiv> machine_step\<^sup>*\<^sup>*"

inductive_cases job_stepE: "job_step M j j'"
inductive_cases machine_stepE: "machine_step M M'"
inductive_cases submit_stepE: "submit_step M k M'"

lemma job_step_same: "job_step M j j' \<Longrightarrow> same_job j j'"
  by (auto elim: job_stepE)

lemma job_step_nonterminal: "job_step M j j' \<Longrightarrow> \<not> terminal (j_State j)"
  by (auto elim: job_stepE)

section \<open>Lifecycle\<close>

text \<open>A finished job never changes again.\<close>

lemma terminal_stays:
  "machine_steps M M' \<Longrightarrow> mc_jobs M k = Some j \<Longrightarrow> terminal (j_State j) \<Longrightarrow> mc_jobs M' k = Some j"
proof (induction rule: rtranclp_induct)
  case (step M1 M2)
  then have "mc_jobs M1 k = Some j" by blast
  then show ?case using step(2,5) job_step_nonterminal by (auto elim!: machine_stepE)
qed

text \<open>A job never disappears and never changes its identity.\<close>

lemma job_persists:
  "machine_steps M M' \<Longrightarrow> mc_jobs M k = Some j \<Longrightarrow> \<exists>j'. mc_jobs M' k = Some j' \<and> same_job j j'"
proof (induction rule: rtranclp_induct)
  case base
  then show ?case by (auto simp: same_job_def)
next
  case (step M1 M2)
  then obtain j1 where j1: "mc_jobs M1 k = Some j1" "same_job j j1" by blast
  from step(2) show ?case
  proof cases
    case (job k' j2 j')
    then show ?thesis using j1 job_step_same [OF job(4)] by (cases "k' = k") (auto simp: same_job_def)
  qed (use j1 in auto)
qed

lemma no_new_jobs: "machine_steps M M' \<Longrightarrow> mc_jobs M k = None \<Longrightarrow> mc_jobs M' k = None"
  by (induction rule: rtranclp_induct) (auto elim!: machine_stepE)

lemma dep_edges_update:
  "J k = Some j \<Longrightarrow> j_DependsOn j' = j_DependsOn j \<Longrightarrow> dep_edges (J(k \<mapsto> j')) = dep_edges J"
  by (auto simp: dep_edges_def split: if_splits)

lemma dep_edges_step: "machine_step M M' \<Longrightarrow> dep_edges (mc_jobs M') = dep_edges (mc_jobs M)"
  by (auto elim!: machine_stepE simp: dep_edges_update dest!: job_step_same simp: same_job_def)

lemma dep_edges_steps: "machine_steps M M' \<Longrightarrow> dep_edges (mc_jobs M') = dep_edges (mc_jobs M)"
  by (induction rule: rtranclp_induct) (simp_all add: dep_edges_step)

section \<open>Invariants\<close>

text \<open>Attempts stay within the retry policy, so the 32-bit counter never wraps.\<close>

definition attempts_ok :: "Job \<Rightarrow> bool" where
  "attempts_ok j \<longleftrightarrow> MaxAttempts (j_RetryPolicy j) < 2 ^ 31 \<and>
     (j_State j = JOB_STATE_PENDING \<or> j_State j = JOB_STATE_QUEUED \<longrightarrow>
        0 \<le> j_Attempt j \<and> j_Attempt j < MaxAttempts (j_RetryPolicy j)) \<and>
     (j_State j = JOB_STATE_RUNNING \<longrightarrow> 1 \<le> j_Attempt j) \<and>
     0 \<le> j_Attempt j \<and> j_Attempt j \<le> MaxAttempts (j_RetryPolicy j)"

definition attempts_inv :: "machine \<Rightarrow> bool" where
  "attempts_inv M \<longleftrightarrow> (\<forall>k j. mc_jobs M k = Some j \<longrightarrow> attempts_ok j)"

definition dead_inv :: "machine \<Rightarrow> bool" where
  "dead_inv M \<longleftrightarrow> (\<forall>k j. mc_jobs M k = Some j \<longrightarrow> j_State j = JOB_STATE_FAILED \<longrightarrow> mc_dead M k \<noteq> None)"

definition acyclic_inv :: "machine \<Rightarrow> bool" where
  "acyclic_inv M \<longleftrightarrow> acyclic (dep_edges (mc_jobs M))"

text \<open>A job that may run, runs or has run had all its dependencies met.\<close>

definition released :: "JobState \<Rightarrow> bool" where
  "released st \<longleftrightarrow> st = JOB_STATE_QUEUED \<or> st = JOB_STATE_RUNNING \<or> st = JOB_STATE_SUCCEEDED"

definition deps_inv :: "machine \<Rightarrow> bool" where
  "deps_inv M \<longleftrightarrow> (\<forall>k j. mc_jobs M k = Some j \<longrightarrow> released (j_State j) \<longrightarrow> deps_met (mc_jobs M) j)"

lemma attempts_ok_step:
  assumes "job_step M j j'" "attempts_ok j"
  shows "attempts_ok j'"
  using assms
proof cases
  case dispatch
  then have "i32 (j_Attempt j + 1) = j_Attempt j + 1"
    using assms(2) by (intro i32_id) (auto simp: attempts_ok_def)
  then show ?thesis using dispatch assms(2) by (auto simp: attempts_ok_def same_job_def)
qed (use assms(2) MaxAttempts_pos [of "j_RetryPolicy j"] in
    \<open>auto simp: attempts_ok_def same_job_def exhausted_def\<close>)

lemma attempts_inv_step: "machine_step M M' \<Longrightarrow> attempts_inv M \<Longrightarrow> attempts_inv M'"
  by (auto elim!: machine_stepE simp: attempts_inv_def split: if_splits dest: attempts_ok_step)

lemma attempts_inv_submit:
  assumes "submit_step M k M'" "mc_jobs M' k = Some j" "MaxAttempts (j_RetryPolicy j) < 2 ^ 31" "attempts_inv M"
  shows "attempts_inv M'"
  using assms MaxAttempts_pos [of "j_RetryPolicy j"]
  by (auto elim!: submit_stepE simp: attempts_inv_def attempts_ok_def split: if_splits)

lemma dead_inv_step: "machine_step M M' \<Longrightarrow> dead_inv M \<Longrightarrow> dead_inv M'"
  by (auto elim!: machine_stepE job_stepE simp: dead_inv_def split: if_splits)

lemma dead_inv_submit: "submit_step M k M' \<Longrightarrow> dead_inv M \<Longrightarrow> dead_inv M'"
  by (auto elim!: submit_stepE simp: dead_inv_def split: if_splits)

lemma acyclic_inv_step: "machine_step M M' \<Longrightarrow> acyclic_inv M \<Longrightarrow> acyclic_inv M'"
  by (simp add: acyclic_inv_def dep_edges_step)

text \<open>A cycle through a new job could be reached from it, so an accepted submission closes none.\<close>

lemma acyclic_inv_submit:
  assumes step: "submit_step M k M'" and inv: "acyclic_inv M"
  shows "acyclic_inv M'"
  using step
proof cases
  case (submit j)
  let ?E' = "dep_edges ((mc_jobs M)(k \<mapsto> j))"
  have "acyclic ?E'"
  proof (rule acyclicI, rule allI, rule notI)
    fix c
    assume c: "(c, c) \<in> ?E'\<^sup>+"
    then have k: "(k, c) \<notin> ?E'\<^sup>*" using submit(5) by blast
    have "(c, d) \<in> (dep_edges (mc_jobs M))\<^sup>+" if "(c, d) \<in> ?E'\<^sup>+" "(d, c) \<in> ?E'\<^sup>*" for d
      using that
    proof (induction rule: trancl_induct)
      case (base d)
      moreover have "c \<noteq> k" using k by blast
      ultimately show ?case by (auto simp: dep_edges_def)
    next
      case (step d e)
      have "(d, c) \<in> ?E'\<^sup>*" using step by (meson converse_rtrancl_into_rtrancl)
      moreover have "d \<noteq> k" using k \<open>(d, c) \<in> ?E'\<^sup>*\<close> by blast
      then have "(d, e) \<in> dep_edges (mc_jobs M)" using step(2) by (auto simp: dep_edges_def)
      ultimately show ?case using step by (meson trancl_into_trancl)
    qed
    from this [OF c rtrancl_refl] show False using inv by (simp add: acyclic_inv_def acyclic_def)
  qed
  then show ?thesis using submit by (simp add: acyclic_inv_def)
qed

lemma deps_met_step:
  assumes "machine_step M M'" "deps_met (mc_jobs M) j"
  shows "deps_met (mc_jobs M') j"
  using assms by (fastforce elim!: machine_stepE simp: deps_met_def dest: job_step_nonterminal)

lemma deps_inv_step:
  assumes step: "machine_step M M'" and inv: "deps_inv M"
  shows "deps_inv M'"
  using step
proof cases
  case (job k j j')
  have "deps_met (mc_jobs M) j'" if "released (j_State j')"
  proof -
    have "deps_met (mc_jobs M) j"
      using job(4) that inv job(2) by cases (auto simp: deps_inv_def released_def)
    then show ?thesis using job_step_same [OF job(4)] by (simp add: deps_met_def same_job_def)
  qed
  then show ?thesis
    using inv deps_met_step [OF step] by (auto simp: deps_inv_def job(1))
qed (use inv in \<open>auto simp: deps_inv_def\<close>)

lemma deps_inv_steps: "machine_steps M M' \<Longrightarrow> deps_inv M \<Longrightarrow> deps_inv M'"
  by (induction rule: rtranclp_induct) (simp_all add: deps_inv_step)

text \<open>Submitting a job under a new ID leaves the dependencies of the others met.\<close>

lemma deps_inv_submit:
  assumes step: "submit_step M k M'" and inv: "deps_inv M" and fresh: "mc_jobs M k = None"
  shows "deps_inv M'"
  using step
proof cases
  case (submit j)
  have mono: "deps_met ((mc_jobs M)(k \<mapsto> j)) j1" if "deps_met (mc_jobs M) j1" for j1
    using that fresh by (fastforce simp: deps_met_def)
  then show ?thesis using submit inv by (auto simp: deps_inv_def released_def)
qed

end
