(* ===== verification/Server_Refines.thy ===== *)
theory Server_Refines
  imports Replication Job_Machine
begin

text \<open>
  Every handler, timer, sweep and callback of the scheduler only takes steps of the job machine.
  \<open>refines E s s'\<close> says that the server leaves its configuration and its election node alone and
  that, from a state whose store and ready queue are well formed, it goes to such a state again, the
  job table and the dead letters move by \<^const>\<open>machine_steps\<close>, and a leader's replication log goes
  on describing its tables.
\<close>

section \<open>The view of a server as a job machine\<close>

definition view :: "'db env \<Rightarrow> 'db server \<Rightarrow> machine" where
  "view E s = \<lparr>mc_jobs = jobs_of E (s_db s), mc_dead = dead_of E (s_db s)\<rparr>"

definition sane :: "'db env \<Rightarrow> 'db server \<Rightarrow> bool" where
  "sane E s \<longleftrightarrow> store_wf E (s_db s) \<and> pq_inv (s_queue s)"

abbreviation same_life :: "'db server \<Rightarrow> 'db server \<Rightarrow> bool" where
  "same_life s s' \<equiv> s_cfg s' = s_cfg s \<and> s_members s' = s_members s \<and> s_selfAddr s' = s_selfAddr s \<and>
     s_node s' = s_node s \<and> s_closed s' = s_closed s \<and> s_pending s' = s_pending s \<and> s_tick s \<le> s_tick s'"

definition refines :: "'db env \<Rightarrow> 'db server \<Rightarrow> 'db server \<Rightarrow> bool" where
  "refines E s s' \<longleftrightarrow>
     (sane E s \<longrightarrow> sane E s' \<and> same_life s s' \<and> machine_steps (view E s) (view E s') \<and>
        (Node_IsLeader (s_node s) \<longrightarrow> log_ok E s \<longrightarrow> log_ok E s'))"

lemma refines_refl [simp, intro]: "refines E s s"
  by (simp add: refines_def)

lemma refines_trans [trans]: "refines E s t \<Longrightarrow> refines E t u \<Longrightarrow> refines E s u"
  unfolding refines_def by (intro impI) (simp, elim conjE, blast intro: rtranclp_trans)

lemma refines_if_sane: "(sane E s \<Longrightarrow> refines E s s') \<Longrightarrow> refines E s s'"
  by (auto simp: refines_def)

lemma refines_fold:
  assumes "\<And>x s. x \<in> set xs \<Longrightarrow> refines E s (f x s)"
  shows "refines E s (fold f xs s)"
  using assms by (induction xs arbitrary: s) (auto intro: refines_trans)

text \<open>Steps that do not touch the store.\<close>

lemma view_same: "s_db s' = s_db s \<Longrightarrow> view E s' = view E s"
  by (simp add: view_def)

lemma sane_same: "sane E s \<Longrightarrow> s_db s' = s_db s \<Longrightarrow> pq_inv (s_queue s') \<Longrightarrow> sane E s'"
  by (simp add: sane_def)

lemma refines_same:
  "s_db s' = s_db s \<Longrightarrow> (pq_inv (s_queue s) \<Longrightarrow> pq_inv (s_queue s')) \<Longrightarrow> same_life s s' \<Longrightarrow>
   s_replLog s' = s_replLog s \<Longrightarrow> s_replSeq s' = s_replSeq s \<Longrightarrow> refines E s s'"
  by (auto simp: refines_def sane_def view_def intro: log_ok_same)

lemma pq_inv_ops:
  "pq_inv q \<Longrightarrow> pq_inv (snd (PQ_Push k p c q))" "pq_inv q \<Longrightarrow> pq_inv (snd (PQ_Remove k q))"
  "pq_inv q \<Longrightarrow> pq_inv (snd (PQ_Pop q))"
  using pq.push_spec [of q k p c] pq.remove_spec [of q k] pq.pop_spec [of q]
  by (metis prod.collapse)+

lemma view_simps [simp]: "mc_jobs (view E s) = jobs_of E (s_db s)" "mc_dead (view E s) = dead_of E (s_db s)"
  by (simp_all add: view_def)

section \<open>Writes\<close>

lemma putJob_view:
  assumes "store_laws E" "sane E s"
  shows "sane E (snd (putJob E j s))"
    and "view E (snd (putJob E j s)) = (case fst (putJob E j s) of
      None \<Rightarrow> (view E s)\<lparr>mc_jobs := (jobs_of E (s_db s))(j_Id j \<mapsto> j)\<rparr> | Some _ \<Rightarrow> view E s)"
  using PutJob_store [OF assms(1), of "s_db s" j] assms(2)
  by (auto simp: putJob_def sane_def view_def split: prod.splits option.splits)

lemma putJob_step:
  assumes laws: "store_laws E" and j: "sane E s \<Longrightarrow> jobs_of E (s_db s) (j_Id j') = Some j \<and> job_step (view E s) j j'"
  shows "refines E s (snd (putJob E j' s))"
proof -
  have "sane E (snd (putJob E j' s)) \<and> machine_steps (view E s) (view E (snd (putJob E j' s)))" if s: "sane E s"
  proof -
    have "machine_step (view E s) ((view E s)\<lparr>mc_jobs := (mc_jobs (view E s))(j_Id j' \<mapsto> j')\<rparr>)"
      using j [OF s] job_step_same [of "view E s" j j'] by (intro machine_step.job) (auto simp: same_job_def)
    then show ?thesis using putJob_view [OF laws s, of j'] by (cases "fst (putJob E j' s)") auto
  qed
  then show ?thesis using putJob_log [OF laws] by (simp add: refines_def sane_def)
qed

lemma putWorker_view:
  assumes "store_laws E" "sane E s"
  shows "sane E (snd (putWorker E w s))" and "view E (snd (putWorker E w s)) = view E s"
  using PutWorker_store [OF assms(1), of "s_db s" w] assms(2)
  by (auto simp: putWorker_def sane_def view_def Let_def split: prod.splits option.splits)

lemma refines_putWorker: "store_laws E \<Longrightarrow> refines E s (snd (putWorker E w s))"
  using putWorker_log [of E s w] by (simp add: refines_def putWorker_view) (simp add: sane_def)

lemma get_job:
  assumes "store_laws E" "sane E s" "Store_GetJob E (s_db s) k = Inr j"
  shows "jobs_of E (s_db s) k = Some j" "j_Id j = k"
proof -
  show "jobs_of E (s_db s) k = Some j"
    using assms by (auto simp: sane_def jobs.get_spec split: option.splits)
  then show "j_Id j = k" using jobs.keyed assms by (auto simp: sane_def)
qed

lemma refines_enqueueJob: "refines E s (enqueueJob E k s)"
  by (rule refines_same) (auto simp: enqueueJob_def pq_inv_ops split: sum.splits)

lemma refines_armEnqueue: "refines E s (armEnqueue E k d s)"
  using refines_enqueueJob by (auto simp: armEnqueue_def intro: refines_same)

lemma refines_timerFired: "refines E s (timerFired E k s)"
proof -
  have "refines E s (s\<lparr>s_retryTimers := AList.delete k (s_retryTimers s)\<rparr>)" by (rule refines_same) auto
  then show ?thesis unfolding timerFired_def using refines_enqueueJob refines_trans by blast
qed

lemma refines_asked [simp]: "refines E s (asked s)" by (rule refines_same) auto
lemma refines_Inc [simp]: "refines E s (Inc c s)" by (rule refines_same) auto
lemma refines_removeLease [simp]: "refines E s (removeLease k s)" by (rule refines_same) auto
lemma refines_addLease [simp]: "refines E s (addLease l s)" by (rule refines_same) auto

lemma refines_removeFromIndex [simp]: "refines E s (removeFromIndex k s)" by (rule refines_same) auto

lemma refines_addDeps [simp]: "refines E s (addDeps j s)" by (rule refines_same) auto

lemma refines_dependentsOf: "dependentsOf E k s = (ds, s') \<Longrightarrow> refines E s s'"
  by (auto simp: dependentsOf_def)

section \<open>Cancelling\<close>

lemma refines_cancel_one:
  assumes laws: "store_laws E"
  shows "refines E s (cancel_one E now r k s)"
proof (cases "Store_GetJob E (s_db s) k")
  case (Inr job)
  show ?thesis
  proof (cases "terminal (j_State job)")
    case False
    let ?j = "job\<lparr>j_State := JOB_STATE_CANCELED, j_LastError := r, j_UpdatedAt := Some now\<rparr>"
    have "refines E s (snd (putJob E ?j s))"
      using get_job [OF laws _ Inr] False
      by (intro putJob_step [OF laws, where j = job]) (auto simp: same_job_def intro!: job_step.cancel)
    also have "refines E (snd (putJob E ?j s)) (cancel_one E now r k s)"
      using Inr False by (intro refines_same) (auto simp: cancel_one_def Let_def pq_inv_ops)
    finally show ?thesis .
  qed (simp add: cancel_one_def Inr)
qed (simp add: cancel_one_def)

lemma refines_cancel_loop:
  assumes laws: "store_laws E"
  shows "refines E s (cancel_loop E now visited work r s)"
proof (induction visited work r s rule: cancel_loop_induct [where E = E and now = now])
  case (seen visited work r s)
  then show ?case by (simp add: cancel_loop_seen)
next
  case (new visited work r s ds s2)
  have "refines E s (cancel_one E now r (last work) s)" by (rule refines_cancel_one [OF laws])
  also have "refines E (cancel_one E now r (last work) s) s2" by (rule refines_dependentsOf [OF new(3)])
  also have "refines E s2 (removeFromIndex (last work) s2)" by simp
  also note new(4)
  finally show ?case by (simp add: cancel_loop_new [OF new(1-3)])
qed simp

lemma refines_cancelCascade: "store_laws E \<Longrightarrow> refines E s (cancelCascade E k r s)"
  unfolding cancelCascade_def Let_def using refines_cancel_loop refines_asked refines_trans by blast

section \<open>Dependencies\<close>

lemma depsSatisfied_met:
  assumes "store_laws E" "sane E s" "depsSatisfied E job s = (True, f)"
  shows "deps_met (jobs_of E (s_db s)) job"
proof -
  have "deps_satisfied E (s_db s) ds = (True, f) \<Longrightarrow>
      \<forall>d \<in> set ds. \<exists>dj. jobs_of E (s_db s) d = Some dj \<and> j_State dj = JOB_STATE_SUCCEEDED" for ds
  proof (induction ds)
    case (Cons d ds)
    then show ?case
      using get_job(1) [OF assms(1,2), of d] by (auto split: sum.splits JobState.splits)
  qed simp
  then show ?thesis using assms(3) by (simp add: depsSatisfied_def deps_met_def)
qed

text \<open>\<open>makeReady\<close> is a write of the job as QUEUED, followed by arming the queue.\<close>

lemma makeReady_shape:
  obtains job' delay s1 where "same_job job job'" "j_State job' = JOB_STATE_QUEUED" "j_Attempt job' = j_Attempt job"
    "s1 = s \<or> s1 = asked s" "makeReady E job now s =
      (case putJob E job' s1 of (Some _, s) \<Rightarrow> s | (None, s) \<Rightarrow> armEnqueue E (j_Id job) delay s)"
proof -
  have "\<exists>job0 delay s1. makeReady E job now s =
      (let job' = job0\<lparr>j_State := JOB_STATE_QUEUED, j_UpdatedAt := Some now\<rparr>
       in case putJob E job' s1 of (Some _, s) \<Rightarrow> s | (None, s) \<Rightarrow> armEnqueue E (j_Id job') delay s) \<and>
      (job0 = job \<or> (\<exists>t. job0 = job\<lparr>j_ScheduledAt := t\<rparr>)) \<and> (s1 = s \<or> s1 = asked s)"
    by (auto simp: makeReady_def Let_def split: option.splits sum.splits)
  then obtain job0 delay s1 where eq: "makeReady E job now s =
      (let job' = job0\<lparr>j_State := JOB_STATE_QUEUED, j_UpdatedAt := Some now\<rparr>
       in case putJob E job' s1 of (Some _, s) \<Rightarrow> s | (None, s) \<Rightarrow> armEnqueue E (j_Id job') delay s)"
    and job0: "job0 = job \<or> (\<exists>t. job0 = job\<lparr>j_ScheduledAt := t\<rparr>)" and s1: "s1 = s \<or> s1 = asked s"
    by blast
  let ?j = "job0\<lparr>j_State := JOB_STATE_QUEUED, j_UpdatedAt := Some now\<rparr>"
  have "j_Id ?j = j_Id job" using job0 by auto
  then show thesis
    using job0 s1 eq [unfolded Let_def] by (intro that [of ?j s1 delay]) (auto simp only: same_job_def, auto)
qed

text \<open>Arming the queue changes no job.\<close>

lemma then_armEnqueue:
  assumes "s' = (case putJob E j s of (Some _, s) \<Rightarrow> s | (None, s) \<Rightarrow> armEnqueue E k d s)"
  shows "refines E (snd (putJob E j s)) s'" "s_db s' = s_db (snd (putJob E j s))"
  using assms by (auto split: prod.splits option.splits intro: refines_armEnqueue)

lemma refines_makeReady:
  assumes laws: "store_laws E"
    and job: "sane E s \<Longrightarrow> jobs_of E (s_db s) (j_Id job) = Some job \<and> j_State job = JOB_STATE_PENDING \<and>
      deps_met (jobs_of E (s_db s)) job"
  shows "refines E s (makeReady E job now s)"
proof -
  obtain job' delay s1 where j: "same_job job job'" "j_State job' = JOB_STATE_QUEUED" "j_Attempt job' = j_Attempt job"
    and s1': "s1 = s \<or> s1 = asked s" and eq: "makeReady E job now s =
      (case putJob E job' s1 of (Some _, s) \<Rightarrow> s | (None, s) \<Rightarrow> armEnqueue E (j_Id job) delay s)"
    by (rule makeReady_shape [of job s E now])
  have s1: "s_db s1 = s_db s" "s_queue s1 = s_queue s" using s1' by auto
  have "refines E s s1" using s1' by auto
  also have "refines E s1 (snd (putJob E job' s1))"
    using job j s1 view_same [of s1 s E]
    by (intro putJob_step [OF laws, where j = job])
      (auto simp: sane_def same_job_def intro!: job_step.promote)
  also note then_armEnqueue(1) [OF eq]
  finally show ?thesis .
qed

lemma refines_tryPromote:
  assumes laws: "store_laws E"
  shows "refines E s (tryPromote E k s)"
proof (cases "Store_GetJob E (s_db s) k")
  case (Inr job)
  obtain ready failed where deps: "depsSatisfied E job s = (ready, failed)" by force
  show ?thesis
  proof (cases "j_State job = JOB_STATE_PENDING \<and> failed = '''' \<and> ready")
    case True
    have "refines E (asked s) (makeReady E job (time_Now E s) (asked s))"
      using get_job [OF laws _ Inr] depsSatisfied_met [OF laws, of s job failed] deps True
      by (intro refines_makeReady [OF laws]) (auto simp: sane_def)
    then have "refines E s (removeFromIndex k (makeReady E job (time_Now E s) (asked s)))"
      by (meson refines_asked refines_removeFromIndex refines_trans)
    then show ?thesis using Inr True deps by (simp add: tryPromote_def)
  next
    case False
    then show ?thesis
      using Inr deps refines_cancelCascade [OF laws] by (auto simp: tryPromote_def)
  qed
qed (simp add: tryPromote_def)

lemma refines_promoteDependents: "store_laws E \<Longrightarrow> refines E s (promoteDependents E k s)"
  unfolding promoteDependents_def
  by (auto split: prod.splits dest!: refines_dependentsOf intro: refines_trans refines_fold refines_tryPromote)

section \<open>Failed and finished attempts\<close>

lemma maybeRescheduleCron_refines:
  assumes laws: "store_laws E"
    and job: "sane E s \<Longrightarrow> jobs_of E (s_db s) (j_Id job) = Some old \<and> j_State old = JOB_STATE_RUNNING \<and> same_job old job"
    and res: "maybeRescheduleCron E job now s = (b, job', s')"
  shows "refines E s s'" "same_job job job'" "\<not> b \<Longrightarrow> sane E s \<Longrightarrow> sane E s' \<and> view E s' = view E s"
    "j_Attempt job' = j_Attempt job \<or> is_cron job \<and> j_Attempt job' = 0"
proof -
  consider (none) "b = False" "job' = job" "s' = s"
    | (put) t r s1 where "is_cron job" "job' = job\<lparr>j_State := JOB_STATE_QUEUED, j_Attempt := 0,
        j_AssignedWorkerId := '''', j_LastError := '''', j_FinishedAt := None, j_ScheduledAt := Some t,
        j_UpdatedAt := Some now\<rparr>" "putJob E job' s = (r, s1)" "b \<longleftrightarrow> r = None"
      "s' = (if r = None then armEnqueue E (j_Id job') (time_Until E s1 t) (asked s1) else s1)"
    using res by (auto simp: maybeRescheduleCron_def is_cron_def Let_def split: if_splits sum.splits prod.splits option.splits)
  then have "refines E s s' \<and> same_job job job' \<and> (\<not> b \<longrightarrow> sane E s \<longrightarrow> sane E s' \<and> view E s' = view E s) \<and>
    (j_Attempt job' = j_Attempt job \<or> is_cron job \<and> j_Attempt job' = 0)"
  proof cases
    case none
    then show ?thesis by (simp add: same_job_def)
  next
    case put
    have same: "same_job job job'" using put(2) by (simp add: same_job_def)
    have "refines E s (snd (putJob E job' s))"
      using job same put(1,2)
      by (intro putJob_step [OF laws, where j = old]) (auto simp: same_job_def is_cron_def intro!: job_step.rearm)
    moreover have "refines E s1 s'"
      using put(5) by (auto intro: refines_trans [OF refines_asked refines_armEnqueue])
    moreover have "sane E s \<Longrightarrow> r \<noteq> None \<Longrightarrow> sane E s1 \<and> view E s1 = view E s"
      using putJob_view [OF laws, of s job'] put(3) by auto
    ultimately show ?thesis using put same by (auto intro: refines_trans)
  qed
  then show "refines E s s'" "same_job job job'" "\<not> b \<Longrightarrow> sane E s \<Longrightarrow> sane E s' \<and> view E s' = view E s"
    "j_Attempt job' = j_Attempt job \<or> is_cron job \<and> j_Attempt job' = 0" by auto
qed

lemma PutDeadLetter_view:
  assumes "store_laws E" "sane E s" "Store_PutDeadLetter E (s_db s) j = (r, db)"
  shows "sane E (s\<lparr>s_db := db\<rparr>)"
    and "view E (s\<lparr>s_db := db\<rparr>) = (case r of
      None \<Rightarrow> (view E s)\<lparr>mc_dead := (dead_of E (s_db s))(j_Id j \<mapsto> j)\<rparr> | Some _ \<Rightarrow> view E s)"
  using PutDeadLetter_store [OF assms(1), of "s_db s" j] assms(2,3)
  by (auto simp: sane_def view_def split: option.splits)

text \<open>The last attempt of a job: a dead letter, then the job as FAILED, then its dependents.\<close>

lemma bury_refines:
  assumes laws: "store_laws E"
    and job: "sane E s \<Longrightarrow> jobs_of E (s_db s) (j_Id d) = Some old \<and> j_State old = JOB_STATE_RUNNING \<and>
      exhausted old \<and> same_job old d \<and> (j_Attempt d = j_Attempt old \<or> is_cron old \<and> j_Attempt d = 0)"
    and d: "j_State d = JOB_STATE_FAILED" and put: "Store_PutDeadLetter E (s_db s) d = (r, db)"
  shows "refines E s (s\<lparr>s_db := db\<rparr>)" and "r = None \<Longrightarrow> refines E s (snd (putJob E d (s\<lparr>s_db := db\<rparr>)))"
proof -
  show 1: "refines E s (s\<lparr>s_db := db\<rparr>)"
  proof (rule refines_if_sane)
    assume s: "sane E s"
    have "machine_step (view E s) ((view E s)\<lparr>mc_dead := (mc_dead (view E s))(j_Id d \<mapsto> d)\<rparr>)"
      using job [OF s] d by (intro machine_step.dead_letter [where j = old]) (auto simp: same_job_def)
    then have "machine_steps (view E s) (view E (s\<lparr>s_db := db\<rparr>))"
      using PutDeadLetter_view(2) [OF laws s put] by (cases r) auto
    moreover have "log_ok E s \<Longrightarrow> log_ok E (s\<lparr>s_db := db\<rparr>)"
      using PutDeadLetter_store(3,4) [OF laws, of "s_db s" d] put s by (simp add: log_ok_def sane_def)
    ultimately show "refines E s (s\<lparr>s_db := db\<rparr>)"
      using PutDeadLetter_view(1) [OF laws s put] by (simp add: refines_def)
  qed
  assume r: "r = None"
  show "refines E s (snd (putJob E d (s\<lparr>s_db := db\<rparr>)))"
  proof (rule refines_if_sane)
    assume s: "sane E s"
    let ?s = "s\<lparr>s_db := db\<rparr>"
    have v: "jobs_of E db = jobs_of E (s_db s)" "dead_of E db (j_Id d) = Some d"
      using PutDeadLetter_view(2) [OF laws s put] r
      by (auto simp: view_def fun_eq_iff dest!: arg_cong [where f = mc_jobs] arg_cong [where f = mc_dead])
    have "refines E ?s (snd (putJob E d ?s))"
      using job [OF s] d v
      by (intro putJob_step [OF laws, where j = old]) (auto simp: same_job_def intro!: job_step.fail)
    then show "refines E s (snd (putJob E d ?s))" by (rule refines_trans [OF 1])
  qed
qed

text \<open>The last attempt failed: a cron job goes to its next run, any other job is buried.\<close>

lemma exhausted_refines:
  assumes laws: "store_laws E"
    and job: "sane E s \<Longrightarrow> jobs_of E (s_db s) (j_Id job1) = Some job \<and> j_State job = JOB_STATE_RUNNING \<and> same_job job job1"
    and same: "j_Attempt job1 = j_Attempt job" "exhausted job"
    and mc: "maybeRescheduleCron E job1 now s = (b, job2, s2)" and nb: "\<not> b"
    and put: "Store_PutDeadLetter E (s_db s2) (job2\<lparr>j_State := JOB_STATE_FAILED, j_FinishedAt := Some now\<rparr>) = (r, db)"
  shows "refines E s (s2\<lparr>s_db := db\<rparr>)"
    "r = None \<Longrightarrow> refines E s (snd (putJob E (job2\<lparr>j_State := JOB_STATE_FAILED, j_FinishedAt := Some now\<rparr>) (s2\<lparr>s_db := db\<rparr>)))"
proof -
  let ?d = "job2\<lparr>j_State := JOB_STATE_FAILED, j_FinishedAt := Some now\<rparr>"
  note M = maybeRescheduleCron_refines [OF laws job mc]
  have s2: "refines E s s2" "sane E s \<Longrightarrow> sane E s2 \<and> view E s2 = view E s" using M(1,3) nb by auto
  have stored: "sane E s \<Longrightarrow> jobs_of E (s_db s2) (j_Id ?d) = Some job \<and> j_State job = JOB_STATE_RUNNING \<and>
      exhausted job \<and> same_job job ?d \<and> (j_Attempt ?d = j_Attempt job \<or> is_cron job \<and> j_Attempt ?d = 0)"
    using s2(2) job M(2,4) same by (auto simp: same_job_def is_cron_def dest: arg_cong [where f = mc_jobs])
  have B: "refines E s2 (s2\<lparr>s_db := db\<rparr>)" "r = None \<Longrightarrow> refines E s2 (snd (putJob E ?d (s2\<lparr>s_db := db\<rparr>)))" if "sane E s"
    using bury_refines [OF laws stored [OF that] _ put] by simp_all
  show "refines E s (s2\<lparr>s_db := db\<rparr>)" by (rule refines_if_sane) (use refines_trans [OF s2(1)] B in blast)
  show "r = None \<Longrightarrow> refines E s (snd (putJob E ?d (s2\<lparr>s_db := db\<rparr>)))"
    by (rule refines_if_sane) (use refines_trans [OF s2(1)] B in blast)
qed

lemma handleFailure_refines:
  assumes laws: "store_laws E"
    and job: "sane E s \<Longrightarrow> jobs_of E (s_db s) (j_Id job) = Some job \<and> j_State job = JOB_STATE_RUNNING"
    and res: "handleFailure E job msg now s = (e, job', s')"
  shows "refines E s s'"
proof -
  define job1 where "job1 = job\<lparr>j_LastError := msg, j_AssignedWorkerId := '''', j_UpdatedAt := Some now\<rparr>"
  have j1: "same_job job job1" "j_Attempt job1 = j_Attempt job" "j_RetryPolicy job1 = j_RetryPolicy job"
    by (simp_all add: job1_def same_job_def)
  show ?thesis
  proof (cases "j_Attempt job1 < MaxAttempts (j_RetryPolicy job1)")
    case True
    define delay where "delay = Backoff (env_unrep E) (env_float E (s_tick s)) (j_RetryPolicy job1) (j_Attempt job1)"
    let ?j = "retried job1 (now + delay)"
    have "refines E s (asked s)" by simp
    also have "refines E (asked s) (snd (putJob E ?j (asked s)))"
      using job j1 True
      by (intro putJob_step [OF laws, where j = job])
        (auto simp: sane_def same_job_def retried_def exhausted_def intro!: job_step.retry)
    also have "refines E (snd (putJob E ?j (asked s))) s'"
      using res True
      by (auto simp: handleFailure_def job1_def [symmetric] delay_def [symmetric] Let_def
          split: prod.splits option.splits intro: refines_trans [OF refines_armEnqueue refines_Inc])
    finally show ?thesis .
  next
    case False
    obtain b job2 s2 where mc: "maybeRescheduleCron E job1 now s = (b, job2, s2)" by (cases "maybeRescheduleCron E job1 now s")
    let ?d = "job2\<lparr>j_State := JOB_STATE_FAILED, j_FinishedAt := Some now\<rparr>"
    obtain r db where put: "Store_PutDeadLetter E (s_db s2) ?d = (r, db)" by force
    have pre: "sane E s \<Longrightarrow> jobs_of E (s_db s) (j_Id job1) = Some job \<and> j_State job = JOB_STATE_RUNNING \<and> same_job job job1"
      using job j1 by (auto simp: same_job_def)
    have ex: "exhausted job" using False j1 by (simp add: exhausted_def)
    note B = exhausted_refines [OF laws pre j1(2) ex mc _ put]
    show ?thesis
      using res False mc put maybeRescheduleCron_refines(1) [OF laws pre mc] B
      by (cases b; cases r) (auto simp: handleFailure_def job1_def [symmetric] Let_def split: prod.splits option.splits
          intro: refines_trans [OF _ refines_trans [OF refines_Inc refines_trans [OF refines_removeFromIndex refines_cancelCascade [OF laws]]]])
  qed
qed

section \<open>Handlers\<close>

lemma refines_set_queue:
  "(pq_inv (s_queue s) \<Longrightarrow> pq_inv q) \<Longrightarrow> refines E s (s\<lparr>s_queue := q\<rparr>)"
  by (rule refines_same) auto

lemma refines_pop: "PQ_Pop (s_queue s) = (r, q) \<Longrightarrow> refines E s (s\<lparr>s_queue := q\<rparr>)"
  using pq_inv_ops(3) [of "s_queue s"] by (intro refines_set_queue) auto

lemma refines_dispatch:
  assumes laws: "store_laws E" and pop: "PQ_Pop (s_queue s) = (Some k, q)"
    and job: "Store_GetJob E (s_db s) k = Inr job" "j_State job = JOB_STATE_QUEUED"
  shows "refines E s (snd (putJob E (running job w now) (asked (s\<lparr>s_queue := q\<rparr>))))"
proof -
  let ?s = "asked (s\<lparr>s_queue := q\<rparr>)"
  have "refines E s ?s" by (rule refines_trans [OF refines_pop [OF pop] refines_asked])
  moreover have "refines E ?s (snd (putJob E (running job w now) ?s))" if "sane E s"
    using get_job [OF laws that job(1)] job(2)
    by (intro putJob_step [OF laws, where j = job]) (auto simp: running_def same_job_def intro!: job_step.dispatch)
  ultimately show ?thesis by (auto simp: refines_def)
qed

lemma refines_poll_loop:
  assumes laws: "store_laws E"
  shows "refines E s (snd (poll_loop E w now n out s))"
proof (induction out s rule: poll_loop_induct [where E = E and w = w and now = now and n = n])
  case (full out s)
  then show ?case by (simp add: poll_loop_full)
next
  case (empty out s q)
  then show ?case using refines_pop by (simp add: poll_loop_empty)
next
  case (stale out s k q)
  then show ?case using refines_trans [OF refines_pop] by (simp add: poll_loop_stale)
next
  case (refused out s k q job e s2)
  have "refines E s s2" using refines_dispatch [OF laws refused(2-4), of w now] refused(5) by simp
  also have "refines E s2 (snd (poll_loop E w now n out s))"
    unfolding poll_loop_refused [OF refused] by (simp add: refines_set_queue pq_inv_ops)
  finally show ?case .
next
  case (leased out s k q job s2 l)
  have "refines E s s2" using refines_dispatch [OF laws leased(2-4), of w now] leased(5) by simp
  also have "refines E s2 (Inc TasksDispatched (addLease l s2))"
    by (rule refines_trans [OF refines_addLease refines_Inc])
  also note leased(7)
  finally show ?case unfolding poll_loop_leased [OF leased(1-6)] .
qed

lemma refines_PollTask:
  assumes laws: "store_laws E"
  shows "refines E s (snd (PollTask E w n s))"
proof -
  have "refines E s (snd (poll_loop E w (time_Now E s) (batch_size n) [] (asked s)))"
    by (rule refines_trans [OF refines_asked refines_poll_loop [OF laws]])
  then show ?thesis unfolding PollTask_def by (auto simp: Let_def split_beta split: option.splits)
qed

lemma ReportTask_idle:
  "\<not> (requireLeader s = None \<and> (\<exists>ls job. getLease (rt_TaskId req) s = Some ls \<and>
      Store_GetJob E (s_db s) (ls_jobID ls) = Inr job \<and> j_State job = JOB_STATE_RUNNING)) \<Longrightarrow>
   refines E s (snd (ReportTask E req s))"
  by (auto simp: ReportTask_def split: option.splits sum.splits)

lemma ReportTask_success:
  assumes laws: "store_laws E" and leader: "requireLeader s = None" and ls: "getLease (rt_TaskId req) s = Some ls"
    and job: "Store_GetJob E (s_db s) (ls_jobID ls) = Inr job" "j_State job = JOB_STATE_RUNNING"
    and res: "rt_Result req = TASK_RESULT_SUCCEEDED"
  shows "refines E s (snd (ReportTask E req s))"
proof -
  let ?s = "removeLease (rt_TaskId req) (asked s)"
  obtain b job' s1 where mc: "maybeRescheduleCron E job (time_Now E s) ?s = (b, job', s1)"
    by (cases "maybeRescheduleCron E job (time_Now E s) ?s")
  have pre: "sane E ?s \<Longrightarrow> jobs_of E (s_db ?s) (j_Id job) = Some job \<and> j_State job = JOB_STATE_RUNNING \<and> same_job job job"
    using get_job [OF laws _ job(1)] job(2) by (auto simp: sane_def same_job_def)
  note M = maybeRescheduleCron_refines [OF laws pre mc]
  have s1: "refines E s s1" by (meson M(1) refines_asked refines_removeLease refines_trans)
  show ?thesis
  proof (cases b)
    case True
    then show ?thesis using leader ls job res mc s1 by (simp add: ReportTask_def Let_def)
  next
    case False
    let ?j = "succeeded job' (time_Now E s)"
    have put: "refines E s1 (snd (putJob E ?j s1))" if s: "sane E s"
    proof -
      have "view E s1 = view E ?s" "sane E ?s" using M(3) False s by (auto simp: sane_def)
      then have "jobs_of E (s_db s1) (j_Id job) = Some job"
        using pre by (metis view_simps(1))
      then show ?thesis
        using M(2,4) job(2)
        by (intro putJob_step [OF laws, where j = job])
          (auto simp: same_job_def succeeded_def is_cron_def intro!: job_step.succeed)
    qed
    have "refines E (snd (putJob E ?j s1)) (snd (ReportTask E req s))"
      using leader ls job res mc False
      by (auto simp: ReportTask_def Let_def split: prod.splits option.splits
          intro: refines_trans [OF refines_Inc refines_trans [OF refines_removeFromIndex refines_promoteDependents [OF laws]]])
    then show ?thesis using s1 put by (auto simp: refines_def)
  qed
qed

lemma ReportTask_failure:
  assumes laws: "store_laws E" and leader: "requireLeader s = None" and ls: "getLease (rt_TaskId req) s = Some ls"
    and job: "Store_GetJob E (s_db s) (ls_jobID ls) = Inr job" "j_State job = JOB_STATE_RUNNING"
    and res: "rt_Result req = TASK_RESULT_FAILED"
  shows "refines E s (snd (ReportTask E req s))"
proof -
  obtain e job' s1 where hf: "handleFailure E job (rt_Error req) (time_Now E s) (asked s) = (e, job', s1)"
    by (cases "handleFailure E job (rt_Error req) (time_Now E s) (asked s)")
  have "refines E (asked s) s1"
    using get_job [OF laws _ job(1)] job(2)
    by (intro handleFailure_refines [OF laws _ hf]) (auto simp: sane_def)
  then have "refines E s s1" using refines_asked refines_trans by blast
  moreover have "refines E s (removeLease (rt_TaskId req) s1)" if "refines E s s1"
    by (rule refines_trans [OF that refines_removeLease])
  ultimately show ?thesis using leader ls job res hf by (auto simp: ReportTask_def Let_def split: option.splits)
qed

lemma refines_ReportTask:
  assumes laws: "store_laws E"
  shows "refines E s (snd (ReportTask E req s))"
proof (cases "requireLeader s = None \<and> (\<exists>ls job. getLease (rt_TaskId req) s = Some ls \<and>
    Store_GetJob E (s_db s) (ls_jobID ls) = Inr job \<and> j_State job = JOB_STATE_RUNNING)")
  case True
  then obtain ls job where H: "requireLeader s = None" "getLease (rt_TaskId req) s = Some ls"
    "Store_GetJob E (s_db s) (ls_jobID ls) = Inr job" "j_State job = JOB_STATE_RUNNING" by blast
  show ?thesis
    using ReportTask_success [OF laws H] ReportTask_failure [OF laws H] H
    by (cases "rt_Result req") (auto simp: ReportTask_def)
qed (rule ReportTask_idle)

lemma requeueLease_lost:
  assumes laws: "store_laws E"
    and lost: "getLease taskID s = Some l" "Store_GetJob E (s_db s) (ls_jobID l) = Inr job"
    "j_State job = JOB_STATE_RUNNING"
  shows "refines E s (requeueLease E reason taskID s)"
proof -
  let ?s = "Inc TasksRequeued (removeLease taskID s)"
  obtain e job' s1 where hf: "handleFailure E job reason (time_Now E ?s) (asked ?s) = (e, job', s1)"
    by (cases "handleFailure E job reason (time_Now E ?s) (asked ?s)")
  have "refines E (asked ?s) s1"
    using get_job [OF laws _ lost(2)] lost(3)
    by (intro handleFailure_refines [OF laws _ hf]) (auto simp: sane_def)
  then have "refines E s s1"
    by (rule refines_trans [OF refines_removeLease refines_trans [OF refines_Inc refines_trans [OF refines_asked]]])
  then show ?thesis using lost hf by (simp add: requeueLease_def Let_def)
qed

lemma refines_requeueLease:
  assumes laws: "store_laws E"
  shows "refines E s (requeueLease E reason taskID s)"
proof (cases "getLease taskID s")
  case None
  then show ?thesis by (simp add: requeueLease_def)
next
  case (Some l)
  note lease = Some
  show ?thesis
  proof (cases "Store_GetJob E (s_db s) (ls_jobID l)")
    case (Inl e)
    then show ?thesis using lease by (simp add: requeueLease_def)
  next
    case (Inr job)
    show ?thesis
    proof (cases "j_State job = JOB_STATE_RUNNING")
      case True
      then show ?thesis using requeueLease_lost [OF laws lease Inr] by simp
    next
      case False
      then show ?thesis using lease Inr by (simp add: requeueLease_def)
    qed
  qed
qed

lemma refines_requeueLeasesForWorker: "store_laws E \<Longrightarrow> refines E s (requeueLeasesForWorker E reason w s)"
  unfolding requeueLeasesForWorker_def
  by (rule refines_trans [OF refines_asked refines_fold]) (rule refines_requeueLease)

lemma refines_reapOnce:
  assumes laws: "store_laws E"
  shows "refines E s (reapOnce E s)"
proof -
  let ?now = "time_Now E s" and ?s1 = "asked (asked s)"
  let ?ch = "reap_changes E ?now (asked s)"
  let ?s2 = "fold (\<lambda>(_, w) s. snd (putWorker E w s)) ?ch ?s1"
  let ?dead = "map fst (filter (\<lambda>(_, w). w_State w = WORKER_STATE_DEAD) ?ch)"
  let ?s3 = "fold (requeueLeasesForWorker E ''worker missed heartbeats'') ?dead ?s2"
  have "refines E s ?s1" by (rule refines_trans [OF refines_asked refines_asked])
  also have "refines E ?s1 ?s2" using refines_putWorker [OF laws] by (intro refines_fold) auto
  also have "refines E ?s2 ?s3" using refines_requeueLeasesForWorker [OF laws] by (intro refines_fold)
  also have "refines E ?s3 (asked ?s3)" by simp
  also have "refines E (asked ?s3) (reapOnce E s)"
    unfolding reapOnce_def Let_def using refines_requeueLease [OF laws] by (intro refines_fold)
  finally show ?thesis .
qed

lemma refines_CancelJob:
  assumes laws: "store_laws E"
  shows "refines E s (snd (CancelJob E k s))"
proof (cases "requireLeader s = None")
  case leader: True
  show ?thesis
  proof (cases "loadJob E k s")
    case (Inr job)
    then have get: "Store_GetJob E (s_db s) k = Inr job"
      by (auto simp: loadJob_def split: if_splits sum.splits store_err.splits)
    show ?thesis
    proof (cases "terminal (j_State job)")
      case True
      then show ?thesis using Inr leader by (cases "j_State job") (auto simp: CancelJob_def)
    next
      case False
      let ?j = "job\<lparr>j_State := JOB_STATE_CANCELED, j_UpdatedAt := Some (time_Now E s)\<rparr>"
      have "refines E s (asked s)" by simp
      also have "refines E (asked s) (snd (putJob E ?j (asked s)))"
        using get_job [OF laws _ get] False
        by (intro putJob_step [OF laws, where j = job]) (auto simp: sane_def same_job_def intro!: job_step.cancel)
      also have "refines E (snd (putJob E ?j (asked s))) (snd (CancelJob E k s))"
      proof -
        have q: "refines E s1 (s1\<lparr>s_queue := snd (PQ_Remove k' (s_queue s1))\<rparr>)" for s1 k'
          by (rule refines_same) (auto simp: pq_inv_ops)
        show ?thesis
          using Inr leader False
          by (auto simp: CancelJob_def Let_def split: prod.splits option.splits
              intro: refines_trans [OF q refines_trans [OF refines_Inc refines_cancelCascade [OF laws]]])
      qed
      finally show ?thesis .
    qed
  qed (simp add: CancelJob_def leader)
qed (auto simp: CancelJob_def)

lemma refines_RegisterWorker:
  assumes laws: "store_laws E"
  shows "refines E s (snd (RegisterWorker E w s))"
proof -
  have "refines E s (snd (putWorker E w' (asked s)))" "refines E s (snd (putWorker E w' (asked (asked s))))" for w'
    using refines_putWorker [OF laws] by (meson refines_asked refines_trans)+
  then show ?thesis
    unfolding RegisterWorker_def by (auto simp: Let_def split: option.splits prod.splits) (metis snd_conv)+
qed

lemma refines_Heartbeat:
  assumes laws: "store_laws E"
  shows "refines E s (snd (Heartbeat E w ts s))"
proof -
  have "refines E s (snd (putWorker E w' (asked s)))" for w'
    by (rule refines_trans [OF refines_asked refines_putWorker [OF laws]])
  then show ?thesis
    unfolding Heartbeat_def by (auto simp: Let_def split: option.splits prod.splits) (metis snd_conv)+
qed

end
