(* ===== verification/Rebuild.thy ===== *)
theory Rebuild
  imports Server_Refines
begin

text \<open>
  Taking over leadership. The rebuild walks over a snapshot of the jobs while it changes the store,
  so it has to be shown that a job of the snapshot is still what the store holds when its turn comes:
  a turn only touches its own job and jobs whose turn is over, because only those are in the
  dependency index.
\<close>

section \<open>What an operation touches\<close>

definition touches :: "'db env \<Rightarrow> string set \<Rightarrow> 'db server \<Rightarrow> 'db server \<Rightarrow> bool" where
  "touches E X s s' \<longleftrightarrow>
     (sane E s \<longrightarrow> sane E s' \<and> (\<forall>k. k \<notin> X \<longrightarrow> jobs_of E (s_db s') k = jobs_of E (s_db s) k)) \<and>
     (index_ids s \<subseteq> X \<longrightarrow> index_ids s' \<subseteq> X)"

lemma touches_refl [simp, intro]: "touches E X s s"
  by (simp add: touches_def)

lemma touches_trans [trans]: "touches E X s t \<Longrightarrow> touches E X t u \<Longrightarrow> touches E X s u"
  by (auto simp: touches_def)

lemma touches_index: "touches E X s s' \<Longrightarrow> index_ids s \<subseteq> X \<Longrightarrow> index_ids s' \<subseteq> X"
  by (simp add: touches_def)

lemma touches_same:
  "s_db s' = s_db s \<Longrightarrow> (pq_inv (s_queue s) \<Longrightarrow> pq_inv (s_queue s')) \<Longrightarrow> s_revIndex s' = s_revIndex s \<Longrightarrow>
   touches E X s s'"
  by (simp add: touches_def sane_def index_ids_def)

lemma touches_basic [simp, intro]:
  "touches E X s (asked s)" "touches E X s (Inc c s)" "touches E X s (removeLease k s)"
  "touches E X s (enqueueJob E k s)" "touches E X s (armEnqueue E k d s)"
  "touches E X s (s\<lparr>s_queue := snd (PQ_Remove k (s_queue s))\<rparr>)"
  "touches E X s (s\<lparr>s_queue := snd (PQ_Push k p t (s_queue s))\<rparr>)"
proof -
  have "pq_inv (s_queue s) \<Longrightarrow> pq_inv (s_queue (enqueueJob E k s))"
    by (auto simp: enqueueJob_def pq_inv_ops split: sum.splits)
  then show "touches E X s (enqueueJob E k s)" "touches E X s (armEnqueue E k d s)"
    by (auto simp: armEnqueue_def intro!: touches_same)
qed (auto intro!: touches_same simp: pq_inv_ops)

lemma touches_removeFromIndex [simp, intro]: "touches E X s (removeFromIndex k s)"
  using index_ids_remove [of k s] by (auto simp: touches_def sane_def)

lemma touches_putJob:
  assumes "store_laws E" "j_Id j \<in> X"
  shows "touches E X s (snd (putJob E j s))"
  using putJob_view [OF assms(1), of s j] assms(2) index_ids_cong [of "snd (putJob E j s)" s]
  by (auto simp: touches_def dest!: arg_cong [where f = mc_jobs] split: option.splits)

lemma touches_cancel_one:
  assumes laws: "store_laws E" and k: "k \<in> X" and s: "sane E s"
  shows "touches E X s (cancel_one E now r k s)"
proof (cases "Store_GetJob E (s_db s) k")
  case (Inr job)
  let ?j = "job\<lparr>j_State := JOB_STATE_CANCELED, j_LastError := r, j_UpdatedAt := Some now\<rparr>"
  let ?s = "snd (putJob E ?j s)"
  have "touches E X s ?s" using get_job(2) [OF laws s Inr] k by (intro touches_putJob [OF laws]) simp
  also have "touches E X ?s (Inc JobsCanceled (?s\<lparr>s_queue := snd (PQ_Remove k (s_queue ?s))\<rparr>))"
    by (rule touches_trans [OF touches_basic(6) touches_basic(2)])
  finally show ?thesis using Inr by (simp add: cancel_one_def Let_def)
qed (simp add: cancel_one_def)

lemma touches_if_sane: "(sane E s \<Longrightarrow> touches E X s s') \<Longrightarrow> (index_ids s \<subseteq> X \<Longrightarrow> index_ids s' \<subseteq> X) \<Longrightarrow> touches E X s s'"
  by (auto simp: touches_def)

lemma touches_cancel_loop:
  assumes laws: "store_laws E"
  shows "set work \<subseteq> X \<Longrightarrow> index_ids s \<subseteq> X \<Longrightarrow> sane E s \<Longrightarrow> touches E X s (cancel_loop E now visited work r s)"
proof (induction visited work r s rule: cancel_loop_induct [where E = E and now = now])
  case (seen visited work r s)
  then show ?case by (auto simp: cancel_loop_seen dest: in_set_butlastD)
next
  case (new visited work r s ds s2)
  let ?k = "last work" and ?s1 = "cancel_one E now r (last work) s"
  have k: "?k \<in> X" using new(1,5) by auto
  have t1: "touches E X s ?s1" by (rule touches_cancel_one [OF laws k new(7)])
  have s2: "s2 = asked ?s1" "set ds \<subseteq> index_ids ?s1"
    using new(3) dependentsOf_ids [OF new(3)] by (auto simp: dependentsOf_def)
  have "touches E X s (removeFromIndex ?k s2)"
    unfolding s2 by (rule touches_trans [OF t1 touches_trans [OF touches_basic(1) touches_removeFromIndex]])
  also have "touches E X (removeFromIndex ?k s2)
      (cancel_loop E now (insert ?k visited) (butlast work @ ds) (upstream_failed ?k) (removeFromIndex ?k s2))"
    using new(5-7) calculation touches_index [OF t1 new(6)] s2(2)
    by (intro new(4)) (auto simp: touches_def dest: in_set_butlastD)
  finally show ?case by (simp add: cancel_loop_new [OF new(1-3)])
qed simp

lemma touches_cancelCascade:
  assumes "store_laws E" "k \<in> X" "index_ids s \<subseteq> X" "sane E s"
  shows "touches E X s (cancelCascade E k r s)"
  unfolding cancelCascade_def Let_def
  using assms index_ids_cong [of "asked s" s]
  by (intro touches_trans [OF touches_basic(1) touches_cancel_loop [OF assms(1)]]) (auto simp: sane_def)

lemma PutDeadLetter_touches:
  assumes "store_laws E" "Store_PutDeadLetter E (s_db s) j = (r, db)"
  shows "touches E X s (s\<lparr>s_db := db\<rparr>)"
  using PutDeadLetter_store(1,3) [OF assms(1), of "s_db s" j] assms(2)
  by (simp add: touches_def sane_def index_ids_def)

lemma touches_maybeRescheduleCron:
  assumes "store_laws E" "j_Id job \<in> X" "maybeRescheduleCron E job now s = (b, job', s')"
  shows "touches E X s s'" "j_Id job' = j_Id job"
proof -
  have "touches E X s (armEnqueue E k d (asked s1))" if "touches E X s s1" for k d s1
    by (rule touches_trans [OF that touches_trans [OF touches_basic(1) touches_basic(5)]])
  then show "touches E X s s'" "j_Id job' = j_Id job"
    using assms(3) touches_putJob [OF assms(1), of _ X s] assms(2)
    by (auto simp: maybeRescheduleCron_def Let_def split: if_splits sum.splits prod.splits option.splits dest!: arg_cong [where f = snd])
qed


section \<open>The ways through \<open>handleFailure\<close>\<close>

definition lost_attempt :: "Job \<Rightarrow> string \<Rightarrow> time \<Rightarrow> Job" where
  "lost_attempt job msg now = job\<lparr>j_LastError := msg, j_AssignedWorkerId := '''', j_UpdatedAt := Some now\<rparr>"

definition buried :: "Job \<Rightarrow> time \<Rightarrow> Job" where
  "buried job now = job\<lparr>j_State := JOB_STATE_FAILED, j_FinishedAt := Some now\<rparr>"

lemma failed_job_simps [simp]:
  "j_Id (lost_attempt job msg now) = j_Id job" "j_Id (buried job now) = j_Id job" "j_Id (retried job t) = j_Id job"
  "j_State (buried job now) = JOB_STATE_FAILED" "j_State (retried job t) = JOB_STATE_QUEUED"
  "j_State (lost_attempt job msg now) = j_State job"
  by (simp_all add: lost_attempt_def buried_def retried_def)

lemma handleFailure_cases [consumes 1, case_names retry rearm no_letter no_job buried]:
  assumes "handleFailure E job msg now s = (e, job', s')"
  obtains
    d r s1 where "\<not> exhausted job" "job' = retried (lost_attempt job msg now) (now + d)" "putJob E job' (asked s) = (r, s1)"
      "s' = (if r = None then Inc TasksRetried (armEnqueue E (j_Id job) d s1) else s1)" "e = None \<longleftrightarrow> r = None"
  | "exhausted job" "maybeRescheduleCron E (lost_attempt job msg now) now s = (True, job', s')" "e = None"
  | j2 s2 er db where "exhausted job" "maybeRescheduleCron E (lost_attempt job msg now) now s = (False, j2, s2)"
      "job' = buried j2 now" "Store_PutDeadLetter E (s_db s2) job' = (Some er, db)" "s' = s2\<lparr>s_db := db\<rparr>" "e \<noteq> None"
  | j2 s2 db er where "exhausted job" "maybeRescheduleCron E (lost_attempt job msg now) now s = (False, j2, s2)"
      "job' = buried j2 now" "Store_PutDeadLetter E (s_db s2) job' = (None, db)"
      "putJob E job' (s2\<lparr>s_db := db\<rparr>) = (Some er, s')" "e \<noteq> None"
  | j2 s2 db s3 where "exhausted job" "maybeRescheduleCron E (lost_attempt job msg now) now s = (False, j2, s2)"
      "job' = buried j2 now" "Store_PutDeadLetter E (s_db s2) job' = (None, db)"
      "putJob E job' (s2\<lparr>s_db := db\<rparr>) = (None, s3)"
      "s' = cancelCascade E (j_Id job') (upstream_failed (j_Id job')) (removeFromIndex (j_Id job') (Inc JobsDeadLettered s3))"
      "e = None"
proof (cases "exhausted job")
  case False
  define d where "d = Backoff (env_unrep E) (env_float E (s_tick s)) (j_RetryPolicy job) (j_Attempt job)"
  define j where "j = retried (lost_attempt job msg now) (now + d)"
  obtain r s1 where put: "putJob E j (asked s) = (r, s1)" by force
  show thesis
    using assms put False
    by (intro that(1) [OF False, of d r s1]; cases r)
      (auto simp: handleFailure_def exhausted_def lost_attempt_def d_def [symmetric] j_def Let_def)
next
  case True
  obtain b j2 s2 where mc: "maybeRescheduleCron E (lost_attempt job msg now) now s = (b, j2, s2)"
    by (cases "maybeRescheduleCron E (lost_attempt job msg now) now s")
  obtain r db where letter: "Store_PutDeadLetter E (s_db s2) (buried j2 now) = (r, db)" by force
  obtain r' s3 where put: "putJob E (buried j2 now) (s2\<lparr>s_db := db\<rparr>) = (r', s3)" by force
  note eqs = assms mc letter put True
  show thesis
  proof (cases b)
    case True
    then show thesis using eqs
      by (intro that(2)) (simp_all add: handleFailure_def exhausted_def lost_attempt_def Let_def)
  next
    case b: False
    show thesis
    proof (cases r)
      case (Some er)
      then show thesis using eqs b
        by (intro that(3) [of j2 s2 er db]) (auto simp: handleFailure_def exhausted_def lost_attempt_def buried_def Let_def)
    next
      case r: None
      show thesis
      proof (cases r')
        case None
        then show thesis using eqs b r
          by (intro that(5) [of j2 s2 db s3]) (auto simp: handleFailure_def exhausted_def lost_attempt_def buried_def Let_def)
      next
        case (Some er)
        then show thesis using eqs b r
          by (intro that(4) [of j2 s2 db er]) (auto simp: handleFailure_def exhausted_def lost_attempt_def buried_def Let_def)
      qed
    qed
  qed
qed


lemma touches_handleFailure:
  assumes laws: "store_laws E" and k: "j_Id job \<in> X" and idx: "index_ids s \<subseteq> X" and s: "sane E s"
    and res: "handleFailure E job msg now s = (e, job', s')"
  shows "touches E X s s'"
  using res
proof (cases rule: handleFailure_cases)
  case (retry d r s1)
  have "touches E X (asked s) s1" using touches_putJob [OF laws, of job' X "asked s"] retry(2,3) k by simp
  then have "touches E X s s1" by (rule touches_trans [OF touches_basic(1)])
  moreover have "touches E X s (Inc TasksRetried (armEnqueue E (j_Id job) d s1))" if "touches E X s s1"
    by (rule touches_trans [OF that touches_trans [OF touches_basic(5) touches_basic(2)]])
  ultimately show ?thesis using retry(4) by simp
next
  case rearm
  then show ?thesis using touches_maybeRescheduleCron(1) [OF laws _ rearm(2)] k by simp
next
  case (no_letter j2 s2 er db)
  have "touches E X s s2" using touches_maybeRescheduleCron(1) [OF laws _ no_letter(2)] k by simp
  then show ?thesis unfolding no_letter(5) by (rule touches_trans [OF _ PutDeadLetter_touches [OF laws no_letter(4)]])
next
  case (no_job j2 s2 db er)
  have t: "touches E X s s2" "j_Id job' = j_Id job"
    using touches_maybeRescheduleCron [OF laws _ no_job(2)] k no_job(3) by simp_all
  have "touches E X (s2\<lparr>s_db := db\<rparr>) s'"
    using touches_putJob [OF laws, of job' X "s2\<lparr>s_db := db\<rparr>"] no_job(5) k t by simp
  then show ?thesis by (rule touches_trans [OF touches_trans [OF t(1) PutDeadLetter_touches [OF laws no_job(4)]]])
next
  case (buried j2 s2 db s3)
  have t: "touches E X s s2" "j_Id job' = j_Id job"
    using touches_maybeRescheduleCron [OF laws _ buried(2)] k buried(3) by simp_all
  have "touches E X (s2\<lparr>s_db := db\<rparr>) s3"
    using touches_putJob [OF laws, of job' X "s2\<lparr>s_db := db\<rparr>"] buried(5) k t by simp
  then have "touches E X s s3" by (rule touches_trans [OF touches_trans [OF t(1) PutDeadLetter_touches [OF laws buried(4)]]])
  then have t3: "touches E X s (removeFromIndex (j_Id job') (Inc JobsDeadLettered s3))"
    by (rule touches_trans [OF _ touches_trans [OF touches_basic(2) touches_removeFromIndex]])
  have "touches E X (removeFromIndex (j_Id job') (Inc JobsDeadLettered s3)) s'"
    unfolding buried(6) using k t(2) s idx t3
    by (intro touches_cancelCascade [OF laws]) (simp_all add: touches_def)
  then show ?thesis by (rule touches_trans [OF t3])
qed

section \<open>The rebuild\<close>

lemma set_update_index: "set (AList.update d v m) \<subseteq> insert (d, v) (set m)"
  by (induction m) auto

lemma index_ids_addDeps: "index_ids (addDeps j s) \<subseteq> insert (j_Id j) (index_ids s)"
proof -
  let ?f = "\<lambda>dep s. s\<lparr>s_revIndex := AList.update dep (AList.update (j_Id j) () (index_of dep s)) (s_revIndex s)\<rparr>"
  have step: "index_ids (?f d s) \<subseteq> insert (j_Id j) (index_ids s)" for d and s :: "'a server"
  proof -
    let ?v = "AList.update (j_Id j) () (index_of d s)"
    have "index_ids (?f d s) \<subseteq> (\<Union>p \<in> insert (d, ?v) (set (s_revIndex s)). fst ` set (snd p))"
      using UN_mono [OF set_update_index [of d ?v "s_revIndex s"], of "\<lambda>p. fst ` set (snd p)" "\<lambda>p. fst ` set (snd p)"]
      by (simp add: index_ids_def)
    also have "\<dots> = insert (j_Id j) (fst ` set (index_of d s)) \<union> index_ids s"
      by (simp add: set_keys_update index_ids_def)
    finally show ?thesis using index_of_ids [of d s] by blast
  qed
  have "index_ids (fold ?f ds s) \<subseteq> insert (j_Id j) (index_ids s)" for ds
  proof (induction ds arbitrary: s)
    case (Cons d ds)
    then show ?case using step [of d s] by fastforce
  qed auto
  then show ?thesis by (simp add: addDeps_def)
qed

lemma touches_rebuild_one:
  assumes laws: "store_laws E" and k: "j_Id j \<in> X" and idx: "index_ids s \<subseteq> X" and s: "sane E s"
  shows "touches E X s (snd (rebuild_one E now j s))"
proof -
  let ?s = "if terminal (j_State j) then s else addDeps j s"
  have t: "touches E X s ?s" using index_ids_addDeps [of j s] k by (auto simp: touches_def sane_def)
  obtain e j' s' where hf: "handleFailure E j ''reclaimed orphaned task after leadership change'' now ?s = (e, j', s')"
    by (cases "handleFailure E j ''reclaimed orphaned task after leadership change'' now ?s")
  have "touches E X ?s s'"
    using t idx s by (intro touches_handleFailure [OF laws k _ _ hf]) (auto simp: touches_def)
  then have "touches E X s s'" by (rule touches_trans [OF t])
  moreover have "touches E X s (?s\<lparr>s_queue := snd (PQ_Push a p c (s_queue ?s))\<rparr>)" for a p c
    by (rule touches_trans [OF t touches_basic(7)])
  moreover have "touches E X s (armEnqueue E a d ?s)" for a d
    by (rule touches_trans [OF t touches_basic(5)])
  ultimately show ?thesis
    using t hf unfolding rebuild_one_def Let_def by (cases "j_State j") simp_all
qed


lemma rebuild_one_id: "j_Id (fst (rebuild_one E now j s)) = j_Id j"
proof -
  have "j_Id j' = j_Id j" if "handleFailure E j msg now s' = (e, j', s'')" for msg s' e j' s''
    using that
  proof (cases rule: handleFailure_cases)
    case rearm
    then show ?thesis by (auto simp: maybeRescheduleCron_def Let_def split: if_splits sum.splits prod.splits option.splits)
  qed (auto simp: maybeRescheduleCron_def Let_def split: if_splits sum.splits prod.splits option.splits)
  then show ?thesis
    unfolding rebuild_one_def Let_def by (cases "j_State j") (simp_all, metis fst_conv prod.collapse snd_conv)
qed

lemma refines_rebuild_one:
  assumes laws: "store_laws E" and job: "sane E s \<Longrightarrow> jobs_of E (s_db s) (j_Id j) = Some j"
  shows "refines E s (snd (rebuild_one E now j s))"
proof -
  let ?s = "if terminal (j_State j) then s else addDeps j s"
  have r: "refines E s ?s" by simp
  obtain e j' s' where hf: "handleFailure E j ''reclaimed orphaned task after leadership change'' now ?s = (e, j', s')"
    by (cases "handleFailure E j ''reclaimed orphaned task after leadership change'' now ?s")
  have "refines E s s'" if "j_State j = JOB_STATE_RUNNING"
    by (rule refines_trans [OF r handleFailure_refines [OF laws _ hf]]) (use job that in \<open>auto simp: sane_def\<close>)
  moreover have "refines E s (?s\<lparr>s_queue := snd (PQ_Push a p c (s_queue ?s))\<rparr>)" for a p c
    by (rule refines_trans [OF r refines_set_queue]) (simp add: pq_inv_ops)
  moreover have "refines E s (armEnqueue E a d ?s)" for a d
    by (rule refines_trans [OF r refines_armEnqueue])
  ultimately show ?thesis
    using r hf unfolding rebuild_one_def Let_def by (cases "j_State j") simp_all
qed

lemma rebuild_jobs_snd:
  "snd (rebuild_jobs E now js s) = fold (\<lambda>j s. snd (rebuild_one E now j s)) js s"
  by (induction js arbitrary: s) (simp_all add: Let_def split: prod.splits, metis snd_conv)

lemma refines_rebuild_jobs:
  assumes laws: "store_laws E"
  shows "\<lbrakk>distinct (map j_Id js); index_ids s \<subseteq> X; X \<inter> j_Id ` set js = {};
      sane E s \<Longrightarrow> \<forall>j \<in> set js. jobs_of E (s_db s) (j_Id j) = Some j\<rbrakk> \<Longrightarrow>
    refines E s (snd (rebuild_jobs E now js s))"
proof (induction js arbitrary: s X)
  case (Cons j js)
  let ?s = "snd (rebuild_one E now j s)" and ?X = "insert (j_Id j) X"
  show ?case
  proof (rule refines_if_sane)
    assume s: "sane E s"
    have t: "touches E ?X s ?s" using Cons(3) by (intro touches_rebuild_one [OF laws _ _ s]) auto
    have "refines E s ?s" using Cons(5) by (intro refines_rebuild_one [OF laws]) auto
    also have "refines E ?s (snd (rebuild_jobs E now js ?s))"
    proof (rule Cons(1))
      show "\<forall>j \<in> set js. jobs_of E (s_db ?s) (j_Id j) = Some j"
      proof
        fix i
        assume i: "i \<in> set js"
        then have "j_Id i \<notin> ?X" using Cons(2,4) by (auto simp: image_iff)
        then show "jobs_of E (s_db ?s) (j_Id i) = Some i"
          using t s Cons(5) [OF s] i by (simp add: touches_def)
      qed
      show "index_ids ?s \<subseteq> ?X" using Cons(3) by (intro touches_index [OF t]) auto
    qed (use Cons(2-4) in auto)
    finally show "refines E s (snd (rebuild_jobs E now (j # js) s))"
      by (simp add: rebuild_jobs_snd del: rebuild_jobs.simps)
  qed
qed simp

lemma refines_clearSchedulingState: "refines E s (clearSchedulingState s)"
  by (rule refines_same) (auto simp: clearSchedulingState_def pq_inv_Clear)

lemma refines_rebuildSchedulingState:
  assumes laws: "store_laws E"
  shows "refines E s (rebuildSchedulingState E s)"
proof (rule refines_if_sane)
  assume s: "sane E s"
  let ?c = "clearSchedulingState s"
  have c: "refines E s ?c" by (rule refines_clearSchedulingState)
  have db: "s_db ?c = s_db s" "index_ids (asked ?c) = {}"
    by (simp_all add: clearSchedulingState_def index_ids_def)
  obtain js where js: "Store_ListJobs E (s_db s) = Inr js" "distinct (map j_Id js)"
    "\<And>k v. jobs_of E (s_db s) k = Some v \<longleftrightarrow> v \<in> set js \<and> j_Id v = k"
    using jobs.listE [OF laws, of "s_db s"] s by (metis sane_def)
  obtain js' s1 where r: "rebuild_jobs E (time_Now E ?c) js (asked ?c) = (js', s1)" by force
  have "refines E (asked ?c) (snd (rebuild_jobs E (time_Now E ?c) js (asked ?c)))"
    using js db by (intro refines_rebuild_jobs [OF laws, where X = "{}"]) auto
  then have "refines E s s1" using r by (simp add: refines_trans [OF refines_trans [OF c refines_asked]])
  also have "refines E s1 (rebuildSchedulingState E s)"
    using js(1) r db unfolding rebuildSchedulingState_def Let_def
    by (auto intro!: refines_fold refines_tryPromote [OF laws])
  finally show "refines E s (rebuildSchedulingState E s)" .
qed

end
