(* ===== verification/Server_Run.thy ===== *)
theory Server_Run
  imports Rebuild
begin

text \<open>
  Submissions, leadership changes, and runs of one scheduler node: every RPC, timer, sweep, election
  event, replication round, shutdown and restart as a labelled step.
\<close>

section \<open>Submitting\<close>

lemma map_of_graph:
  "map_of (fold (\<lambda>j g. AList.update (j_Id j) (j_DependsOn j) g) js g) =
     map_of g ++ map_of (rev (map (\<lambda>j. (j_Id j, j_DependsOn j)) js))"
  by (induction js arbitrary: g) (auto simp: map_add_def fun_eq_iff split: option.splits)

text \<open>The graph the cycle check searches is the dependency graph with the new job in it.\<close>

lemma wouldCreateCycle_correct:
  assumes laws: "store_laws E" and s: "sane E s" and j: "j_Id j = k" "j_DependsOn j = deps"
  shows "wouldCreateCycle E k deps s \<longleftrightarrow>
    (\<exists>c. (k, c) \<in> (dep_edges ((jobs_of E (s_db s))(k \<mapsto> j)))\<^sup>* \<and>
         (c, c) \<in> (dep_edges ((jobs_of E (s_db s))(k \<mapsto> j)))\<^sup>+)"
proof -
  obtain js where js: "Store_ListJobs E (s_db s) = Inr js" "distinct (map j_Id js)"
    "\<And>k v. jobs_of E (s_db s) k = Some v \<longleftrightarrow> v \<in> set js \<and> j_Id v = k"
    using jobs.listE [OF laws, of "s_db s"] s by (metis sane_def)
  let ?g = "AList.update k deps (fold (\<lambda>j g. AList.update (j_Id j) (j_DependsOn j) g) js [])"
  have "map_of (rev (map (\<lambda>j. (j_Id j, j_DependsOn j)) js)) n = map_option j_DependsOn (jobs_of E (s_db s) n)" for n
  proof -
    have d: "distinct (map fst (rev (map (\<lambda>j. (j_Id j, j_DependsOn j)) js)))"
      using js(2) by (simp add: rev_map [symmetric] comp_def)
    show ?thesis
    proof (cases "jobs_of E (s_db s) n")
      case (Some v)
      then have "v \<in> set js" "j_Id v = n" by (simp_all add: js(3))
      then have "(n, j_DependsOn v) \<in> set (rev (map (\<lambda>j. (j_Id j, j_DependsOn j)) js))" by auto
      then show ?thesis using map_of_is_SomeI [OF d] Some by simp
    next
      case None
      then have "n \<notin> j_Id ` set js" using js(3) by (metis image_iff option.distinct(1))
      then have "n \<notin> fst ` set (rev (map (\<lambda>j. (j_Id j, j_DependsOn j)) js))" by (simp add: image_image)
      then have "map_of (rev (map (\<lambda>j. (j_Id j, j_DependsOn j)) js)) n = None" by (simp only: map_of_eq_None_iff simp_thms)
      then show ?thesis using None by simp
    qed
  qed
  then have "succs ?g n = (case ((jobs_of E (s_db s))(k \<mapsto> j)) n of None \<Rightarrow> [] | Some v \<Rightarrow> j_DependsOn v)" for n
    using j by (simp add: succs_def map_of_graph split: option.splits)
  then have sc: "edges ?g = {(n, d). d \<in> set (case ((jobs_of E (s_db s))(k \<mapsto> j)) n of None \<Rightarrow> [] | Some v \<Rightarrow> j_DependsOn v)}"
    by (simp only: edges_def)
  have "edges ?g = dep_edges ((jobs_of E (s_db s))(k \<mapsto> j))"
    unfolding sc by (auto simp: dep_edges_def split: option.splits if_splits) (metis not_Some_eq)+
  then show ?thesis using js(1) by (simp add: wouldCreateCycle_def dfs_correct)
qed


text \<open>An accepted submission of \<open>k\<close>: a submission step of the job machine, or nothing if the store refused it.\<close>

definition accepts :: "'db env \<Rightarrow> string \<Rightarrow> RetryPolicy option \<Rightarrow> 'db server \<Rightarrow> 'db server \<Rightarrow> bool" where
  "accepts E k pol s s' \<longleftrightarrow>
     (sane E s \<longrightarrow> sane E s' \<and> same_life s s' \<and>
        (view E s' = view E s \<or>
         submit_step (view E s) k (view E s') \<and> map_option j_RetryPolicy (mc_jobs (view E s') k) = Some pol) \<and>
        (Node_IsLeader (s_node s) \<longrightarrow> log_ok E s \<longrightarrow> log_ok E s'))"

lemma accepts_before:
  "refines E s t \<Longrightarrow> s_db t = s_db s \<Longrightarrow> accepts E k pol t u \<Longrightarrow> accepts E k pol s u"
  by (fastforce simp: accepts_def refines_def view_def)

lemma accepts_after:
  "accepts E k pol s t \<Longrightarrow> refines E t u \<Longrightarrow> s_db u = s_db t \<Longrightarrow> accepts E k pol s u"
  by (fastforce simp: accepts_def refines_def view_def)

definition uncycled :: "job_table \<Rightarrow> Job \<Rightarrow> bool" where
  "uncycled J j \<longleftrightarrow> (\<forall>c. (j_Id j, c) \<in> (dep_edges (J(j_Id j \<mapsto> j)))\<^sup>* \<longrightarrow> (c, c) \<notin> (dep_edges (J(j_Id j \<mapsto> j)))\<^sup>+)"

lemma accepts_putJob:
  assumes laws: "store_laws E"
    and j: "j_Attempt j = 0" "sane E s \<Longrightarrow> uncycled (jobs_of E (s_db s)) j"
      "sane E s \<Longrightarrow> j_State j = JOB_STATE_PENDING \<or> j_State j = JOB_STATE_CANCELED \<or>
         j_State j = JOB_STATE_QUEUED \<and> deps_met (jobs_of E (s_db s)) j"
  shows "accepts E (j_Id j) (j_RetryPolicy j) s (snd (putJob E j s))"
proof -
  have "submit_step (view E s) (j_Id j) ((view E s)\<lparr>mc_jobs := (mc_jobs (view E s))(j_Id j \<mapsto> j)\<rparr>)" if "sane E s"
    using j(2,3) [OF that] by (intro submit_step.submit) (simp_all add: j(1) uncycled_def)
  then show ?thesis
    using putJob_view [OF laws, of s j] putJob_log [OF laws, of s j]
    by (auto simp: accepts_def sane_def split: option.splits)
qed

lemma uncycled_cong:
  assumes "j_Id j' = j_Id j" "j_DependsOn j' = j_DependsOn j"
  shows "uncycled J j' \<longleftrightarrow> uncycled J j"
proof -
  have "dep_edges (J(j_Id j' \<mapsto> j')) = dep_edges (J(j_Id j \<mapsto> j))"
    using assms by (auto simp: dep_edges_def)
  then show ?thesis using assms by (simp add: uncycled_def)
qed

lemma accepts_makeReady:
  assumes laws: "store_laws E" and j: "j_Attempt j = 0" "sane E s \<Longrightarrow> uncycled (jobs_of E (s_db s)) j"
    "sane E s \<Longrightarrow> deps_met (jobs_of E (s_db s)) j"
  shows "accepts E (j_Id j) (j_RetryPolicy j) s (makeReady E j now s)"
proof -
  obtain j' delay s1 where j': "same_job j j'" "j_State j' = JOB_STATE_QUEUED" "j_Attempt j' = j_Attempt j"
    and s1: "s1 = s \<or> s1 = asked s" and eq: "makeReady E j now s =
      (case putJob E j' s1 of (Some _, s) \<Rightarrow> s | (None, s) \<Rightarrow> armEnqueue E (j_Id j) delay s)"
    by (rule makeReady_shape [of j s E now])
  have db: "s_db s1 = s_db s" "s_queue s1 = s_queue s" "refines E s s1" using s1 by auto
  have "accepts E (j_Id j') (j_RetryPolicy j') s1 (snd (putJob E j' s1))"
    using j j' db uncycled_cong [of j' j]
    by (intro accepts_putJob [OF laws]) (auto simp: sane_def same_job_def deps_met_def)
  moreover have "j_Id j' = j_Id j" "j_RetryPolicy j' = j_RetryPolicy j" using j'(1) by (simp_all add: same_job_def)
  ultimately have "accepts E (j_Id j) (j_RetryPolicy j) s (snd (putJob E j' s1))" using accepts_before [OF db(3,1)] by simp
  then show ?thesis by (rule accepts_after [OF _ then_armEnqueue [OF eq]])
qed

lemma accepts_placeNewJob:
  assumes laws: "store_laws E" and j: "j_Attempt j = 0" "sane E s \<Longrightarrow> uncycled (jobs_of E (s_db s)) j"
  shows "accepts E (j_Id j) (j_RetryPolicy j) s (placeNewJob E j now s)"
proof -
  obtain ready failed where deps: "depsSatisfied E j s = (ready, failed)" by force
  have put: "accepts E (j_Id j) (j_RetryPolicy j) s (snd (putJob E (j\<lparr>j_State := st, j_LastError := msg, j_UpdatedAt := t\<rparr>) s))"
    if "st = JOB_STATE_PENDING \<or> st = JOB_STATE_CANCELED" for st msg t
    using accepts_putJob [OF laws, of "j\<lparr>j_State := st, j_LastError := msg, j_UpdatedAt := t\<rparr>" s] j that
      uncycled_cong [of "j\<lparr>j_State := st, j_LastError := msg, j_UpdatedAt := t\<rparr>" j] by auto
  show ?thesis
  proof (cases "failed = ''''")
    case failed: True
    show ?thesis
    proof (cases ready)
      case True
      then show ?thesis
        using deps failed depsSatisfied_met [OF laws, of s j failed] accepts_makeReady [OF laws j]
        by (simp add: placeNewJob_def)
    next
      case False
      let ?j = "j\<lparr>j_State := JOB_STATE_PENDING, j_UpdatedAt := Some now\<rparr>"
      have "accepts E (j_Id j) (j_RetryPolicy j) s (snd (putJob E ?j s))"
        using put [where st = JOB_STATE_PENDING and msg = "j_LastError j" and t = "Some now"] by simp
      then have "accepts E (j_Id j) (j_RetryPolicy j) s (addDeps ?j (snd (putJob E ?j s)))" by (rule accepts_after) simp_all
      then show ?thesis using deps failed False by (simp add: placeNewJob_def Let_def)
    qed
  next
    case False
    then show ?thesis
      using deps accepts_after [OF put [where st = JOB_STATE_CANCELED and msg = "upstream_failed failed"
            and t = "Some now"] refines_Inc]
      by (simp add: placeNewJob_def)
  qed
qed


text \<open>
  \<open>SubmitJob\<close> refuses and leaves the jobs alone, or accepts a job whose dependencies close no cycle.
\<close>

lemma SubmitJob_shape:
  assumes "SubmitJob E req s = (Inr k, s')"
  obtains j s1 where "refines E s s1" "s_db s1 = s_db s" "j_Id j = k" "j_Attempt j = 0"
    "j_DependsOn j = [] \<or> \<not> wouldCreateCycle E k (j_DependsOn j) s1" "requireLeader s = None"
    "s' = Inc JobsSubmitted (placeNewJob E j (time_Now E s1) (asked s1))"
    "\<exists>job. req = Some job \<and> same_job (job\<lparr>j_Id := k, j_CreatedAt := j_CreatedAt j\<rparr>) j \<and> (j_Id job \<noteq> [] \<longrightarrow> k = j_Id job) \<and> k \<noteq> []" "s1 = s \<or> s1 = asked s \<or> s1 = asked (asked s)"
proof -
  have leader: "requireLeader s = None" and req: "req \<noteq> None"
    using assms by (auto simp: SubmitJob_def split: option.splits)
  then obtain job where job: "req = Some job" by blast
  define sa where "sa = (if Schedule_GetCronExpr (j_Schedule job) \<noteq> '''' then asked s else s)"
  define jb where "jb = (if j_Id job = '''' then job\<lparr>j_Id := ids_New E sa ''job''\<rparr> else job)"
  define s1 where "s1 = (if j_Id job = '''' then asked sa else sa)"
  have s1: "refines E s s1" "s_db s1 = s_db s"
    by (auto simp: s1_def sa_def intro: refines_trans [OF refines_asked refines_asked])
  have "(if j_Id job = '''' then (job\<lparr>j_Id := ids_New E sa ''job''\<rparr>, asked sa) else (job, sa)) = (jb, s1)"
    by (simp add: jb_def s1_def)
  moreover have "(if j_DependsOn jb \<noteq> [] \<and> wouldCreateCycle E (j_Id jb) (j_DependsOn jb) s1 then (Inl Err_Cycle, s1)
      else (Inr (j_Id jb), Inc JobsSubmitted (placeNewJob E
        (jb\<lparr>j_Attempt := 0, j_AssignedWorkerId := '''', j_LastError := '''', j_CreatedAt := Some (time_Now E s1),
           j_UpdatedAt := Some (time_Now E s1)\<rparr>) (time_Now E s1) (asked s1)))) = (Inr k, s')"
    using assms leader job unfolding SubmitJob_def Let_def sa_def [symmetric] jb_def s1_def
    by (auto simp: sa_def split: if_splits sum.splits option.splits)
  ultimately show thesis
    using s1 job leader
    by (intro that [of s1 "jb\<lparr>j_Attempt := 0, j_AssignedWorkerId := '''', j_LastError := '''',
          j_CreatedAt := Some (time_Now E s1), j_UpdatedAt := Some (time_Now E s1)\<rparr>"])
      (auto simp: jb_def s1_def sa_def same_job_def ids_New_def split: if_splits)
qed

lemma SubmitJob_refused:
  assumes "SubmitJob E req s = (Inl e, s')"
  shows "refines E s s'" "s_db s' = s_db s" "s' = s \<or> s' = asked s \<or> s' = asked (asked s)"
  using assms refines_trans [OF refines_asked refines_asked]
  by (auto simp: SubmitJob_def Let_def split: option.splits if_splits sum.splits)

lemma SubmitJob_accepted:
  assumes laws: "store_laws E" and res: "SubmitJob E (Some job) s = (Inr k, s')"
  shows "accepts E k (j_RetryPolicy job) s s'"
proof -
  obtain j s1 where s1: "refines E s s1" "s_db s1 = s_db s" and j: "j_Id j = k" "j_Attempt j = 0"
    and cyc: "j_DependsOn j = [] \<or> \<not> wouldCreateCycle E k (j_DependsOn j) s1"
    and s': "s' = Inc JobsSubmitted (placeNewJob E j (time_Now E s1) (asked s1))"
    and pol: "j_RetryPolicy job = j_RetryPolicy j"
    by (rule SubmitJob_shape [OF res]) (auto simp: same_job_def)
  have "uncycled (jobs_of E (s_db s1)) j" if "sane E s1"
  proof (cases "j_DependsOn j = []")
    case True
    let ?D = "dep_edges ((jobs_of E (s_db s1))(j_Id j \<mapsto> j))"
    have "(j_Id j, d) \<notin> ?D" for d using True by (simp add: dep_edges_def)
    note none = this
    have "c = j_Id j" if "(j_Id j, c) \<in> ?D\<^sup>*" for c
      using that by (rule converse_rtranclE) (simp_all add: none)
    moreover have "(j_Id j, c) \<notin> ?D\<^sup>+" for c using none by (meson tranclD)
    ultimately show ?thesis by (auto simp: uncycled_def)
  next
    case False
    then show ?thesis
      using cyc wouldCreateCycle_correct [OF laws that j(1) refl] by (auto simp: uncycled_def j(1))
  qed
  then have "accepts E k (j_RetryPolicy j) (asked s1) (placeNewJob E j (time_Now E s1) (asked s1))"
    using accepts_placeNewJob [OF laws j(2), of "asked s1"] j(1) by (auto simp: sane_def)
  then have "accepts E k (j_RetryPolicy j) s (placeNewJob E j (time_Now E s1) (asked s1))"
    using s1 accepts_before [OF refines_trans [OF s1(1) refines_asked]] by simp
  then show ?thesis unfolding s' pol by (rule accepts_after) simp_all
qed


section \<open>Election events\<close>

text \<open>The election writes only the term and the vote; the rest of the store is as before.\<close>

definition same_tables :: "'db env \<Rightarrow> 'db \<Rightarrow> 'db \<Rightarrow> bool" where
  "same_tables E db db' \<longleftrightarrow> (store_wf E db \<longrightarrow> store_wf E db' \<and> jobs_of E db' = jobs_of E db \<and>
     workers_of E db' = workers_of E db \<and> dead_of E db' = dead_of E db)"

lemma same_tables_refl [simp, intro]: "same_tables E db db"
  by (simp add: same_tables_def)

lemma same_tables_trans: "same_tables E a b \<Longrightarrow> same_tables E b c \<Longrightarrow> same_tables E a c"
  by (simp add: same_tables_def)

lemma same_tables_persist [intro]: "store_laws E \<Longrightarrow> same_tables E db (persistLocked (electionStore E) n db)"
  using SaveElectionState_store(1-4) [of E db "n_currentTerm n" "n_votedFor n"]
  by (simp add: persistLocked_def electionStore_def same_tables_def)

lemma same_tables_becomeFollower:
  "store_laws E \<Longrightarrow> becomeFollowerLocked (electionStore E) dr t n db = (cbs, n', db') \<Longrightarrow> same_tables E db db'"
  by (auto simp: becomeFollowerLocked_def Let_def split: if_splits)

lemma same_tables_election:
  assumes laws: "store_laws E"
  shows "startElection (electionStore E) dr n db = (b, n', db') \<Longrightarrow> same_tables E db db'"
    and "receiveVote (electionStore E) dr p r bl n db = (b', cbs, n', db') \<Longrightarrow> same_tables E db db'"
    and "HandleVote (electionStore E) dr dr' t c n db = (a, cbs, n', db') \<Longrightarrow> same_tables E db db'"
    and "ObserveLeader (electionStore E) dr dr' t c n db = (a, cbs, n', db') \<Longrightarrow> same_tables E db db'"
    and "MaybeStepDown (electionStore E) dr t n db = (cbs, n', db') \<Longrightarrow> same_tables E db db'"
    and "Node_Start (electionStore E) dr n db = Some (cbs, n', db') \<Longrightarrow> same_tables E db db'"
proof -
  note F = same_tables_becomeFollower [OF laws]
  show "startElection (electionStore E) dr n db = (b, n', db') \<Longrightarrow> same_tables E db db'"
    using laws by (auto simp: startElection_def Let_def)
  show "receiveVote (electionStore E) dr p r bl n db = (b', cbs, n', db') \<Longrightarrow> same_tables E db db'"
    by (auto simp: receiveVote_def becomeLeaderLocked_def Let_def split: if_splits prod.splits dest: F)
  show "HandleVote (electionStore E) dr dr' t c n db = (a, cbs, n', db') \<Longrightarrow> same_tables E db db'"
    using laws by (auto simp: HandleVote_def Let_def split: if_splits prod.splits dest: F
        intro: same_tables_trans [OF F])
  show "ObserveLeader (electionStore E) dr dr' t c n db = (a, cbs, n', db') \<Longrightarrow> same_tables E db db'"
    by (auto simp: ObserveLeader_def Let_def split: if_splits prod.splits dest: F)
  show "MaybeStepDown (electionStore E) dr t n db = (cbs, n', db') \<Longrightarrow> same_tables E db db'"
    by (auto simp: MaybeStepDown_def split: if_splits dest: F)
  show "Node_Start (electionStore E) dr n db = Some (cbs, n', db') \<Longrightarrow> same_tables E db db'"
    using laws by (auto simp: Node_Start_def Let_def split: if_splits option.splits sum.splits)
qed

lemma same_tables_view:
  "same_tables E (s_db s) (s_db s') \<Longrightarrow> s_queue s' = s_queue s \<Longrightarrow> sane E s \<Longrightarrow> sane E s' \<and> view E s' = view E s"
  by (simp add: same_tables_def sane_def view_def)

section \<open>Steps\<close>

text \<open>
  The numbers of a message that came over the wire fit their protobuf types; only the range of the
  retry limit matters here.
\<close>

definition wire_policy :: "RetryPolicy option \<Rightarrow> bool" where
  "wire_policy p \<longleftrightarrow> (case p of None \<Rightarrow> True | Some p \<Rightarrow> - (2 ^ 31) \<le> rp_MaxAttempts p \<and> rp_MaxAttempts p < 2 ^ 31)"

text \<open>
  The work of a scheduler node: one RPC of a client or a worker, one timer, one sweep, labelled by
  the ID of the job it accepts, if any.
\<close>

inductive work_step :: "'db env \<Rightarrow> string option \<Rightarrow> 'db server \<Rightarrow> 'db server \<Rightarrow> bool" for E :: "'db env" where
  accept: "SubmitJob E (Some job) s = (Inr k, s') \<Longrightarrow> wire_policy (j_RetryPolicy job) \<Longrightarrow> work_step E (Some k) s s'"
| refuse: "SubmitJob E req s = (Inl e, s') \<Longrightarrow> work_step E None s s'"
| cancel: "CancelJob E k s = (r, s') \<Longrightarrow> work_step E None s s'"
| register: "RegisterWorker E w s = (r, s') \<Longrightarrow> work_step E None s s'"
| heartbeat: "Heartbeat E w ts s = (r, s') \<Longrightarrow> work_step E None s s'"
| poll: "PollTask E w n s = (r, s') \<Longrightarrow> work_step E None s s'"
| report: "ReportTask E req s = (r, s') \<Longrightarrow> work_step E None s s'"
| timer: "k \<in> fst ` set (s_retryTimers s) \<Longrightarrow> work_step E None s (timerFired E k s)"
| reaper: "work_step E None s (reaperTick E s)"

text \<open>
  One step in the life of a node: work, an election event, a callback of the election, a replication
  round, a shutdown or a restart, which keeps only the database. Replication from another leader
  that carries entries is not among the steps: it replaces the node's tables by those of the other
  leader (theory \<open>Replication\<close>).
\<close>

inductive server_step :: "'db env \<Rightarrow> string option \<Rightarrow> 'db server \<Rightarrow> 'db server \<Rightarrow> bool" for E :: "'db env" where
  work: "work_step E l s s' \<Longrightarrow> server_step E l s s'"
| callback: "c \<in> set (s_pending s) \<Longrightarrow>
    server_step E None s (run_callback E c (s\<lparr>s_pending := remove1 c (s_pending s)\<rparr>))"
| vote: "RequestVote E t c s = (r, s') \<Longrightarrow> server_step E None s s'"
| beat: "Replicate E t l [] s = (r, s') \<Longrightarrow> server_step E None s s'"
| broadcast: "server_step E None s (replicationTick E send s)"
| campaign: "run_campaign now (s_node s) \<Longrightarrow> startElection (electionStore E) dr (s_node s) (s_db s) = (b, n, db) \<Longrightarrow>
    server_step E None s (s\<lparr>s_node := n, s_db := db\<rparr>)"
| count: "receiveVote (electionStore E) dr p r b (s_node s) (s_db s) = (b', cbs, n, db) \<Longrightarrow>
    server_step E None s (s\<lparr>s_node := n, s_db := db, s_pending := s_pending s @ cbs\<rparr>)"
| shutdown: "server_step E None s (Shutdown s)"
| restart: "s_tick s < tick \<Longrightarrow> Server_boot E tick (s_cfg s) (s_db s) = Some (Inr s') \<Longrightarrow> server_step E None s s'"

inductive work_run :: "'db env \<Rightarrow> string option list \<Rightarrow> 'db server \<Rightarrow> 'db server \<Rightarrow> bool" for E :: "'db env" where
  start: "work_run E [] s s"
| more: "work_run E ls s t \<Longrightarrow> work_step E l t u \<Longrightarrow> work_run E (ls @ [l]) s u"

inductive server_run :: "'db env \<Rightarrow> string option list \<Rightarrow> 'db server \<Rightarrow> 'db server \<Rightarrow> bool" for E :: "'db env" where
  start: "server_run E [] s s"
| more: "server_run E ls s t \<Longrightarrow> server_step E l t u \<Longrightarrow> server_run E (ls @ [l]) s u"

lemma refines_view: "refines E s s' \<Longrightarrow> sane E s \<Longrightarrow> sane E s' \<and> machine_steps (view E s) (view E s')"
  by (simp add: refines_def)

lemma seedReplication_frame [simp]:
  "s_db (seedReplication E s) = s_db s" "s_queue (seedReplication E s) = s_queue s" "s_node (seedReplication E s) = s_node s"
  by (simp_all add: seedReplication_def Let_def)

lemma callback_view:
  assumes laws: "store_laws E" and s: "sane E s"
  shows "sane E (run_callback E c s) \<and> machine_steps (view E s) (view E (run_callback E c s))"
proof (cases c)
  case (OnLeader t)
  then show ?thesis
    using refines_view [OF refines_rebuildSchedulingState [OF laws] s]
    by (simp add: run_callback_def onBecomeLeader_def sane_def view_def)
next
  case (OnStepDown t)
  then show ?thesis using refines_view [OF refines_clearSchedulingState s] by (simp add: run_callback_def onStepDown_def)
qed

lemma replicate_peer_view:
  assumes laws: "store_laws E" and s: "sane E s"
  shows "sane E (replicate_peer E send t k s) \<and> view E (replicate_peer E send t k s) = view E s"
proof (cases "k = cfg_NodeID (s_cfg s)")
  case False
  show ?thesis
  proof (cases "send k t (cfg_NodeID (s_cfg s)) (entriesForPeer k s)")
    case (Inr r)
    obtain cbs n db where st: "MaybeStepDown (electionStore E) (draw_of E s) (rr_CurrentTerm r) (s_node s) (s_db s) = (cbs, n, db)"
      by (cases "MaybeStepDown (electionStore E) (draw_of E s) (rr_CurrentTerm r) (s_node s) (s_db s)")
    show ?thesis
      using False Inr st s same_tables_election(5) [OF laws st]
      by (auto simp: replicate_peer_def ackPeer_def same_tables_def sane_def view_def)
  qed (use False s in \<open>simp add: replicate_peer_def\<close>)
qed (use s in \<open>simp add: replicate_peer_def\<close>)

lemma replicationTick_view:
  assumes laws: "store_laws E" and s: "sane E s"
  shows "sane E (replicationTick E send s) \<and> view E (replicationTick E send s) = view E s"
proof -
  have "sane E (fold (replicate_peer E send t) ks s1) \<and> view E (fold (replicate_peer E send t) ks s1) = view E s"
    if "sane E s1" "view E s1 = view E s" for t ks s1
    using that replicate_peer_view [OF laws] by (induction ks arbitrary: s1) auto
  then show ?thesis
    using s by (simp add: replicationTick_def broadcastReplicate_def sane_def view_def)
qed


lemma new_server_frame [simp]: "s_db (new_server tick cfg db) = db" "s_queue (new_server tick cfg db) = PQ_New"
  by (simp_all add: new_server_def Let_def)

lemma Server_boot_view:
  assumes laws: "store_laws E" and wf: "store_wf E db" and boot: "Server_boot E tick cfg db = Some (Inr s')"
  shows "sane E s' \<and> machine_steps \<lparr>mc_jobs = jobs_of E db, mc_dead = dead_of E db\<rparr> (view E s')"
proof -
  obtain s where rec: "recover E (new_server tick cfg db) = (None, s)"
    using boot by (cases "recover E (new_server tick cfg db)") (auto simp: Server_boot_def split: option.splits)
  then have s: "s_db s = db" "s_queue s = PQ_New" by (auto simp: recover_def split: sum.splits)
  obtain cbs n db1 where start: "Node_Start (electionStore E) (draw_of E s) (s_node s) (s_db s) = Some (cbs, n, db1)"
    and s': "s' = fold (run_callback E) cbs ((asked s)\<lparr>s_node := n, s_db := db1\<rparr>)"
    using boot rec by (auto simp: Server_boot_def split: option.splits prod.splits if_splits)
  let ?s = "(asked s)\<lparr>s_node := n, s_db := db1\<rparr>"
  have init: "sane E ?s" "view E ?s = \<lparr>mc_jobs = jobs_of E db, mc_dead = dead_of E db\<rparr>"
    using same_tables_election(6) [OF laws start] wf s by (auto simp: same_tables_def sane_def view_def pq_inv_New)
  have "sane E (fold (run_callback E) cs s1) \<and> machine_steps (view E s1) (view E (fold (run_callback E) cs s1))"
    if "sane E s1" for cs s1
    using that
  proof (induction cs arbitrary: s1)
    case (Cons c cs)
    then show ?case using callback_view [OF laws Cons(2), of c] by (auto intro: rtranclp_trans)
  qed simp
  from this [OF init(1), of cbs] show ?thesis using init(2) s' by simp
qed

text \<open>Every step of a node is made of steps of the job machine, or is an accepted submission.\<close>

definition step_refines :: "'db env \<Rightarrow> string option \<Rightarrow> 'db server \<Rightarrow> 'db server \<Rightarrow> bool" where
  "step_refines E l s s' \<longleftrightarrow> sane E s' \<and>
     (case l of
        None \<Rightarrow> machine_steps (view E s) (view E s')
      | Some k \<Rightarrow> view E s' = view E s \<or> submit_step (view E s) k (view E s') \<and>
          (\<exists>j. mc_jobs (view E s') k = Some j \<and> MaxAttempts (j_RetryPolicy j) < 2 ^ 31))"

lemma step_refines_refines: "refines E s s' \<Longrightarrow> sane E s \<Longrightarrow> step_refines E None s s'"
  by (simp add: step_refines_def refines_view)

lemma step_refines_tables:
  "same_tables E (s_db s) (s_db s') \<Longrightarrow> s_queue s' = s_queue s \<Longrightarrow> sane E s \<Longrightarrow> step_refines E None s s'"
  using same_tables_view [of E s s'] by (simp add: step_refines_def)

lemma wire_policy_MaxAttempts: "wire_policy p \<Longrightarrow> MaxAttempts p < 2 ^ 31"
  by (auto simp: wire_policy_def MaxAttempts_def DefaultMaxAttempts_def split: option.splits)

text \<open>Work keeps the node's identity and its log, and changes the jobs by the job machine's steps.\<close>

lemma work_step_refines:
  assumes laws: "store_laws E" and step: "work_step E l s s'"
  shows "case l of
      None \<Rightarrow> refines E s s'
    | Some k \<Rightarrow> \<exists>pol. accepts E k pol s s' \<and> MaxAttempts pol < 2 ^ 31"
  using step
proof cases
  case (accept job k)
  then show ?thesis
    using SubmitJob_accepted [OF laws accept(2)] wire_policy_MaxAttempts [OF accept(3)] by auto
next
  case (refuse req e)
  then show ?thesis using SubmitJob_refused [OF refuse(2)] by simp
next
  case (cancel k r)
  then show ?thesis using refines_CancelJob [OF laws, of s k] by simp
next
  case (register w r)
  then show ?thesis using refines_RegisterWorker [OF laws, of s w] by simp
next
  case (heartbeat w ts r)
  then show ?thesis using refines_Heartbeat [OF laws, of s w ts] by simp
next
  case (poll w n r)
  then show ?thesis using refines_PollTask [OF laws, of s w n] by simp
next
  case (report req r)
  then show ?thesis using refines_ReportTask [OF laws, of s req] by simp
next
  case (timer k)
  then show ?thesis using refines_timerFired [of E s k] by simp
next
  case reaper
  then show ?thesis using refines_reapOnce [OF laws, of s] by (simp add: reaperTick_def)
qed

lemma work_step_frame:
  assumes "store_laws E" "work_step E l s s'" "sane E s"
  shows "sane E s'" "same_life s s'" "Node_IsLeader (s_node s) \<Longrightarrow> log_ok E s \<Longrightarrow> log_ok E s'"
  using work_step_refines [OF assms(1,2)] assms(3)
  by (auto simp: refines_def accepts_def split: option.splits)

lemma server_step_refines:
  assumes laws: "store_laws E" and step: "server_step E l s s'" and s: "sane E s"
  shows "step_refines E l s s'"
  using step
proof cases
  case work
  show ?thesis
    using work_step_refines [OF laws work] s
    by (cases l) (auto simp: refines_def accepts_def step_refines_def)
next
  case (callback c)
  let ?s = "s\<lparr>s_pending := remove1 c (s_pending s)\<rparr>"
  have "sane E ?s" and v: "view E ?s = view E s" using s by (simp_all add: sane_def view_def)
  then show ?thesis using callback_view [OF laws, of ?s c, unfolded v] callback by (simp add: step_refines_def)
next
  case (vote t c r)
  obtain a cbs n db where h: "HandleVote (electionStore E) (draw_of E s) (draw_of E (asked s)) t c (s_node s) (s_db s) = (a, cbs, n, db)"
    by (cases "HandleVote (electionStore E) (draw_of E s) (draw_of E (asked s)) t c (s_node s) (s_db s)")
  then show ?thesis
    unfolding vote(1) using vote same_tables_election(3) [OF laws h] s by (intro step_refines_tables) (auto simp: RequestVote_def)
next
  case (beat t p r)
  obtain a ct cbs n db where h: "ObserveLeader (electionStore E) (draw_of E s) (draw_of E (asked s)) t p (s_node s) (s_db s) = ((a, ct), cbs, n, db)"
    by (cases "ObserveLeader (electionStore E) (draw_of E s) (draw_of E (asked s)) t p (s_node s) (s_db s)") force
  then show ?thesis
    unfolding beat(1) using beat same_tables_election(4) [OF laws h] s
    by (intro step_refines_tables) (auto simp: Replicate_def applyEntries_def Let_def split: if_splits)
next
  case (broadcast send)
  then show ?thesis using replicationTick_view [OF laws s, of send] by (simp add: step_refines_def)
next
  case (campaign now dr b n db)
  then show ?thesis unfolding campaign(1) using same_tables_election(1) [OF laws campaign(4)] s by (intro step_refines_tables) auto
next
  case (count dr p r b b' cbs n db)
  then show ?thesis unfolding count(1) using same_tables_election(2) [OF laws count(3)] s by (intro step_refines_tables) auto
next
  case shutdown
  then show ?thesis unfolding shutdown(1) using s by (intro step_refines_tables) (auto simp: Shutdown_def)
next
  case (restart tick)
  then show ?thesis
    using Server_boot_view [OF laws _ restart(3)] s by (auto simp: step_refines_def sane_def view_def)
qed


section \<open>Runs\<close>

lemma server_run_sane:
  "server_run E ls s s' \<Longrightarrow> store_laws E \<Longrightarrow> sane E s \<Longrightarrow> sane E s'"
  by (induction rule: server_run.induct) (auto dest: server_step_refines simp: step_refines_def)

text \<open>The job and the dead-letter table after a step, seen by the job machine.\<close>

lemma step_refines_cases [consumes 1, case_names steps submit]:
  assumes "step_refines E l s s'"
  obtains "machine_steps (view E s) (view E s')"
  | k j where "l = Some k" "submit_step (view E s) k (view E s')" "mc_jobs (view E s') k = Some j"
    "MaxAttempts (j_RetryPolicy j) < 2 ^ 31"
  using assms by (cases l) (auto simp: step_refines_def)

lemma submit_tables: "submit_step M k M' \<Longrightarrow> \<exists>j. mc_jobs M' = (mc_jobs M)(k \<mapsto> j)"
  by (auto elim!: submit_stepE)

lemma run_keeps_terminal:
  assumes laws: "store_laws E" and run: "server_run E ls s s'" and s: "sane E s"
    and job: "jobs_of E (s_db s) k = Some j" "terminal (j_State j)" and fresh: "Some k \<notin> set ls"
  shows "jobs_of E (s_db s') k = Some j"
  using run s job(1) fresh
proof (induction rule: server_run.induct)
  case (more ls s t l u)
  then have t: "jobs_of E (s_db t) k = Some j" and l: "l \<noteq> Some k" by auto
  have "step_refines E l t u" using server_step_refines [OF laws more(2)] server_run_sane [OF more(1) laws more(4)] .
  then show ?case
  proof (cases rule: step_refines_cases)
    case steps
    then show ?thesis using terminal_stays [OF steps, of k j] t job(2) by simp
  next
    case (submit k' j')
    then show ?thesis using submit_tables [OF submit(2)] t l by auto
  qed
qed simp

text \<open>What the job machine keeps, every run of a node keeps.\<close>

lemma run_keeps:
  assumes laws: "store_laws E" and run: "server_run E ls s s'" and s: "sane E s" and init: "P (view E s)"
    and steps: "\<And>M M'. machine_step M M' \<Longrightarrow> P M \<Longrightarrow> P M'"
    and submits: "\<And>M k M' j. submit_step M k M' \<Longrightarrow> mc_jobs M' k = Some j \<Longrightarrow>
      MaxAttempts (j_RetryPolicy j) < 2 ^ 31 \<Longrightarrow> P M \<Longrightarrow> P M'"
  shows "P (view E s')"
  using run s init
proof (induction rule: server_run.induct)
  case (more ls s t l u)
  then have t: "P (view E t)" by blast
  have "step_refines E l t u" using server_step_refines [OF laws more(2)] server_run_sane [OF more(1) laws more(4)] .
  then show ?case
  proof (cases rule: step_refines_cases)
    case steps: steps
    from steps t show ?thesis by (induction rule: rtranclp_induct) (auto intro: assms(5))
  next
    case (submit k j)
    then show ?thesis using submits t by blast
  qed
qed simp

definition accepted_ids :: "string option list \<Rightarrow> string list" where
  "accepted_ids ls = map the (filter (\<lambda>l. l \<noteq> None) ls)"

text \<open>Every accepted submission brings a new ID.\<close>

definition fresh_ids :: "'db env \<Rightarrow> 'db server \<Rightarrow> string option list \<Rightarrow> bool" where
  "fresh_ids E s ls \<longleftrightarrow> distinct (accepted_ids ls) \<and> (\<forall>k \<in> set (accepted_ids ls). jobs_of E (s_db s) k = None)"

lemma run_dom:
  assumes laws: "store_laws E" and run: "server_run E ls s s'" and s: "sane E s"
  shows "dom (jobs_of E (s_db s')) \<subseteq> dom (jobs_of E (s_db s)) \<union> set (accepted_ids ls)"
  using run s
proof (induction rule: server_run.induct)
  case (more ls s t l u)
  have "step_refines E l t u" using server_step_refines [OF laws more(2)] server_run_sane [OF more(1) laws more(4)] .
  then show ?case
  proof (cases rule: step_refines_cases)
    case steps
    have "jobs_of E (s_db t) k = None \<Longrightarrow> jobs_of E (s_db u) k = None" for k
      using no_new_jobs [OF steps, of k] by simp
    then have "dom (jobs_of E (s_db u)) \<subseteq> dom (jobs_of E (s_db t))" by (meson domIff subsetI)
    then show ?thesis using more(3) [OF more(4)] by (auto simp: accepted_ids_def)
  next
    case (submit k j)
    then have "dom (jobs_of E (s_db u)) \<subseteq> insert k (dom (jobs_of E (s_db t)))"
      using submit_tables [OF submit(2)] by auto
    then show ?thesis using more(3) [OF more(4)] submit(1) by (auto simp: accepted_ids_def)
  qed
qed simp

lemma run_keeps_deps_inv:
  assumes laws: "store_laws E" and run: "server_run E ls s s'" and s: "sane E s"
    and fresh: "fresh_ids E s ls" and inv: "deps_inv (view E s)"
  shows "deps_inv (view E s')"
  using run s fresh inv
proof (induction rule: server_run.induct)
  case (more ls s t l u)
  have "fresh_ids E s ls" using more(5) by (auto simp: fresh_ids_def accepted_ids_def)
  then have t: "deps_inv (view E t)" using more by blast
  have "step_refines E l t u" using server_step_refines [OF laws more(2)] server_run_sane [OF more(1) laws more(4)] .
  then show ?case
  proof (cases rule: step_refines_cases)
    case (submit k j)
    have "k \<notin> set (accepted_ids ls)" "jobs_of E (s_db s) k = None"
      using more(5) submit(1) by (auto simp: fresh_ids_def accepted_ids_def)
    then have "mc_jobs (view E t) k = None" using run_dom [OF laws more(1,4)] by (auto simp: domIff)
    then show ?thesis using deps_inv_submit [OF submit(2) t] by blast
  qed (use t deps_inv_steps in blast)
qed simp


lemma work_run_frame:
  assumes laws: "store_laws E" and run: "work_run E ls s s'" and s: "sane E s"
  shows "sane E s' \<and> same_life s s' \<and> (Node_IsLeader (s_node s) \<longrightarrow> log_ok E s \<longrightarrow> log_ok E s')"
  using run s
proof (induction rule: work_run.induct)
  case (more ls s t l u)
  then show ?case using work_step_frame [OF laws more(2)] by auto
qed simp

lemma work_run_server: "work_run E ls s s' \<Longrightarrow> server_run E ls s s'"
  by (induction rule: work_run.induct) (auto intro: server_run.intros server_step.work)

text \<open>Taking over leadership leaves the log a snapshot of the tables.\<close>

lemma number_entries_mutations: "map re_Mutation (number_entries seq ms) = map Some ms"
  by (induction ms arbitrary: seq) simp_all

lemma number_entries_numbered:
  "length ms + n < 2 ^ 63 \<Longrightarrow> map re_Seq (number_entries (int n) ms) = map int [Suc n..<Suc (n + length ms)]"
proof (induction ms arbitrary: n)
  case (Cons m ms)
  have "i64 (int n + 1) = int (Suc n)" using Cons(2) by (subst i64_id) simp_all
  moreover have "[Suc n..<Suc (n + length (m # ms))] = Suc n # [Suc (Suc n)..<Suc (Suc n + length ms)]"
    by (simp add: upt_rec)
  ultimately show ?case using Cons(1) [of "Suc n"] Cons(2) by simp
qed simp

lemma replay_mutations:
  "map re_Mutation es = map re_Mutation es' \<Longrightarrow> replay es J = replay es' J \<and> replay_workers es W = replay_workers es' W"
proof (induction es arbitrary: es' J W)
  case (Cons e es)
  then obtain e' es'' where "es' = e' # es''" by (cases es') auto
  then show ?case using Cons by simp
qed simp

lemma replay_jobs:
  fixes js :: "Job list" and ws :: "WorkerInfo list"
  defines "ms \<equiv> map ReplicationEntry_UpsertJob js @ map ReplicationEntry_UpsertWorker ws"
  assumes es: "map re_Mutation es = map Some ms"
  shows "distinct (map j_Id js) \<Longrightarrow> (\<And>k j. J k = Some j \<longleftrightarrow> j \<in> set js \<and> j_Id j = k) \<Longrightarrow> replay es Map.empty = J"
    and "distinct (map w_Id ws) \<Longrightarrow> (\<And>k w. W k = Some w \<longleftrightarrow> w \<in> set ws \<and> w_Id w = k) \<Longrightarrow> replay_workers es Map.empty = W"
    and "upserts_only es"
proof -
  let ?u = "map (\<lambda>j. \<lparr>re_Seq = 0, re_Mutation = Some (ReplicationEntry_UpsertJob j)\<rparr>) js"
  let ?v = "map (\<lambda>w. \<lparr>re_Seq = 0, re_Mutation = Some (ReplicationEntry_UpsertWorker w)\<rparr>) ws"
  have eq: "replay es J0 = replay (?u @ ?v) J0 \<and> replay_workers es W0 = replay_workers (?u @ ?v) W0" for J0 W0
    by (rule replay_mutations) (simp add: es ms_def comp_def)
  have jv: "replay ?v J0 = J0" for J0 by (induction ws arbitrary: J0) simp_all
  have wu: "replay_workers ?u W0 = W0" for W0 by (induction js arbitrary: W0) simp_all
  have ju: "replay ?u J0 = J0 ++ map_of (rev (map (\<lambda>j. (j_Id j, j)) js))" for J0
    by (induction js arbitrary: J0) (auto simp: map_add_def fun_eq_iff split: option.splits)
  have wv: "replay_workers ?v W0 = W0 ++ map_of (rev (map (\<lambda>w. (w_Id w, w)) ws))" for W0
    by (induction ws arbitrary: W0) (auto simp: map_add_def fun_eq_iff split: option.splits)
  have keyed: "map_of (rev (map (\<lambda>v. (key v, v)) vs)) = M"
    if "distinct (map key vs)" "\<And>k v. M k = Some v \<longleftrightarrow> v \<in> set vs \<and> key v = k" for key :: "'v \<Rightarrow> string" and vs M
  proof (rule ext)
    fix k
    have d: "distinct (map fst (rev (map (\<lambda>v. (key v, v)) vs)))" using that(1) by (simp add: rev_map [symmetric] comp_def)
    have "map_of (rev (map (\<lambda>v. (key v, v)) vs)) k = Some v \<longleftrightarrow> M k = Some v" for v
      using map_of_eq_Some_iff [OF d] that(2) by auto
    then show "map_of (rev (map (\<lambda>v. (key v, v)) vs)) k = M k" by (metis not_Some_eq)
  qed
  show "distinct (map j_Id js) \<Longrightarrow> (\<And>k j. J k = Some j \<longleftrightarrow> j \<in> set js \<and> j_Id j = k) \<Longrightarrow> replay es Map.empty = J"
    using eq [of Map.empty Map.empty] ju jv keyed [of j_Id js J] by simp
  show "distinct (map w_Id ws) \<Longrightarrow> (\<And>k w. W k = Some w \<longleftrightarrow> w \<in> set ws \<and> w_Id w = k) \<Longrightarrow> replay_workers es Map.empty = W"
    using eq [of Map.empty Map.empty] wu wv keyed [of w_Id ws W] by simp
  have "re_Mutation e \<in> set (map Some ms)" if "e \<in> set es" for e using that es by (metis image_eqI list.set_map)
  then show "upserts_only es" by (force simp: upserts_only_def ms_def)
qed

lemma seedReplication_log:
  assumes laws: "store_laws E" and s: "sane E s"
  shows "log_ok E (seedReplication E s)"
proof -
  have wf: "store_wf E (s_db s)" using s by (simp add: sane_def)
  obtain js where js: "Store_ListJobs E (s_db s) = Inr js" "distinct (map j_Id js)"
    "\<And>k v. jobs_of E (s_db s) k = Some v \<longleftrightarrow> v \<in> set js \<and> j_Id v = k"
    using jobs.listE [OF laws wf] by metis
  obtain ws where ws: "Store_ListWorkers E (s_db s) = Inr ws" "distinct (map w_Id ws)"
    "\<And>k v. workers_of E (s_db s) k = Some v \<longleftrightarrow> v \<in> set ws \<and> w_Id v = k"
    using wrks.listE [OF laws wf] by metis
  define ms where "ms = map ReplicationEntry_UpsertJob js @ map ReplicationEntry_UpsertWorker ws"
  have log: "s_replLog (seedReplication E s) = number_entries 0 ms"
    "s_replSeq (seedReplication E s) = (if number_entries 0 ms = [] then 0 else re_Seq (last (number_entries 0 ms)))"
    using js(1) ws(1) by (simp_all add: seedReplication_def ms_def Let_def)
  have "numbered (number_entries 0 ms) (if number_entries 0 ms = [] then 0 else re_Seq (last (number_entries 0 ms)))"
  proof (unfold numbered_def, rule impI)
    have len: "length (number_entries 0 ms) = length ms" using arg_cong [OF number_entries_mutations, of length 0 ms] by simp
    assume "length (number_entries 0 ms) < 2 ^ 63"
    then have m: "map re_Seq (number_entries 0 ms) = map int [1..<Suc (length ms)]"
      using number_entries_numbered [of ms 0] len by simp
    moreover have "re_Seq (last (number_entries 0 ms)) = int (length ms)" if "number_entries 0 ms \<noteq> []"
      using that m len last_map [OF that, of re_Seq] by (cases ms) (simp_all add: last_map)
    ultimately show "map re_Seq (number_entries 0 ms) = map int [1..<Suc (length (number_entries 0 ms))] \<and>
      (if number_entries 0 ms = [] then 0 else re_Seq (last (number_entries 0 ms))) = int (length (number_entries 0 ms))"
      using len by auto
  qed
  then show ?thesis
    using replay_jobs [of "number_entries 0 ms" js ws] js(2,3) ws(2,3) number_entries_mutations [of 0 ms]
    by (simp add: log_ok_def log ms_def)
qed

lemma onBecomeLeader_frame:
  assumes laws: "store_laws E" and s: "sane E s"
  shows "sane E (onBecomeLeader E t s)" "log_ok E (onBecomeLeader E t s)" "s_node (onBecomeLeader E t s) = s_node s"
proof -
  have "sane E (rebuildSchedulingState E s)" "s_node (rebuildSchedulingState E s) = s_node s"
    using refines_rebuildSchedulingState [OF laws, of s] s by (simp_all add: refines_def)
  then show "sane E (onBecomeLeader E t s)" "log_ok E (onBecomeLeader E t s)" "s_node (onBecomeLeader E t s) = s_node s"
    using seedReplication_log [OF laws] by (simp_all add: onBecomeLeader_def) (simp add: sane_def)
qed


lemma Replicate_accepted:
  assumes laws: "store_laws E" and res: "Replicate E t l es f = (r, f')" and ok: "rr_Ok r"
  obtains f1 n where "same_tables E (s_db f) (s_db f1)" "applyEntries E es f1 = (n, f')" "rr_AppliedThrough r = n"
proof -
  obtain a ct cbs n db where h: "ObserveLeader (electionStore E) (draw_of E f) (draw_of E (asked f)) t l (s_node f) (s_db f) = ((a, ct), cbs, n, db)"
    by (cases "ObserveLeader (electionStore E) (draw_of E f) (draw_of E (asked f)) t l (s_node f) (s_db f)") force
  let ?f = "(asked (asked f))\<lparr>s_node := n, s_db := db, s_pending := s_pending f @ cbs\<rparr>"
  obtain m g where app: "applyEntries E es ?f = (m, g)" by force
  have "g = f'" "rr_AppliedThrough r = m"
    using res ok h app by (auto simp: Replicate_def Let_def split: if_splits)
  then show thesis using that [of ?f m] same_tables_election(4) [OF laws h] app by simp
qed

end
