(* ===== verification/Placement.thy ===== *)
theory Placement
  imports Server_Run
begin

text \<open>
  Where a live job waits. On a leader every QUEUED job is in the ready queue or has a timer armed,
  every RUNNING job is covered by a lease, and every PENDING job is in the reverse index under each
  of its dependencies and has a dependency that has not succeeded: nothing is forgotten. The
  invariant holds when the node has taken over leadership and every handler keeps it, provided the
  store takes every write and task IDs do not repeat.
\<close>

definition steady :: "'db env \<Rightarrow> bool" where
  "steady E \<longleftrightarrow> store_laws E \<and> no_faults E \<and> inj (env_uuid E)"

lemma steadyD: "steady E \<Longrightarrow> store_laws E" "steady E \<Longrightarrow> no_faults E" "steady E \<Longrightarrow> inj (env_uuid E)"
  by (auto simp: steady_def)

section \<open>The invariant\<close>

definition leased :: "'db server \<Rightarrow> string \<Rightarrow> bool" where
  "leased s k \<longleftrightarrow> (\<exists>t l. getLease t s = Some l \<and> ls_jobID l = k)"

definition located :: "'db env \<Rightarrow> 'db server \<Rightarrow> string \<Rightarrow> bool" where
  "located E s k \<longleftrightarrow> (\<forall>j. jobs_of E (s_db s) k = Some j \<longrightarrow>
     (j_State j = JOB_STATE_QUEUED \<longrightarrow> pq_abs (s_queue s) k \<noteq> None \<or> k \<in> fst ` set (s_retryTimers s)) \<and>
     (j_State j = JOB_STATE_RUNNING \<longrightarrow> leased s k) \<and>
     (j_State j = JOB_STATE_PENDING \<longrightarrow> (\<forall>d \<in> set (j_DependsOn j). k \<in> fst ` set (index_of d s))))"

definition waiting :: "job_table \<Rightarrow> string \<Rightarrow> bool" where
  "waiting J k \<longleftrightarrow> (\<forall>j. J k = Some j \<longrightarrow> j_State j = JOB_STATE_PENDING \<longrightarrow> \<not> deps_met J j)"

definition old_leases :: "'db env \<Rightarrow> 'db server \<Rightarrow> bool" where
  "old_leases E s \<longleftrightarrow> (\<forall>t \<in> fst ` set (s_leases s). \<exists>n < s_tick s. t = ''task-'' @ env_uuid E n)"

text \<open>The invariant, except that jobs in \<open>X\<close> may be nowhere and jobs in \<open>W\<close> may wait for nothing.\<close>

definition placed :: "'db env \<Rightarrow> string set \<Rightarrow> string set \<Rightarrow> 'db server \<Rightarrow> bool" where
  "placed E X W s \<longleftrightarrow> sane E s \<and> Node_IsLeader (s_node s) \<and> \<not> s_closed s \<and> old_leases E s \<and>
     (\<forall>k. k \<notin> X \<longrightarrow> located E s k) \<and> (\<forall>k. k \<notin> W \<longrightarrow> waiting (jobs_of E (s_db s)) k)"

lemma placedD:
  assumes "placed E X W s"
  shows "sane E s" "Node_IsLeader (s_node s)" "\<not> s_closed s" "old_leases E s" "pq_inv (s_queue s)" "store_wf E (s_db s)"
    "k \<notin> X \<Longrightarrow> located E s k" "k \<notin> W \<Longrightarrow> waiting (jobs_of E (s_db s)) k"
  using assms by (auto simp: placed_def sane_def)

lemma placed_mono: "placed E X W s \<Longrightarrow> X \<subseteq> X' \<Longrightarrow> W \<subseteq> W' \<Longrightarrow> placed E X' W' s"
  by (auto simp: placed_def)

lemma placed_drop: "placed E (insert k X) W s \<Longrightarrow> located E s k \<Longrightarrow> placed E X W s"
  by (auto simp: placed_def)

lemma placed_drop_waiting: "placed E X (insert k W) s \<Longrightarrow> waiting (jobs_of E (s_db s)) k \<Longrightarrow> placed E X W s"
  by (auto simp: placed_def)

lemma located_idle:
  "(\<And>j. jobs_of E (s_db s) k = Some j \<Longrightarrow> terminal (j_State j)) \<Longrightarrow> located E s k"
  by (force simp: located_def)

lemma located_mono:
  assumes "located E s k" "jobs_of E (s_db s') k = jobs_of E (s_db s) k"
    and "pq_abs (s_queue s) k \<noteq> None \<Longrightarrow> pq_abs (s_queue s') k \<noteq> None"
    and "k \<in> fst ` set (s_retryTimers s) \<Longrightarrow> k \<in> fst ` set (s_retryTimers s')"
    and "leased s k \<Longrightarrow> leased s' k"
    and "\<And>d. k \<in> fst ` set (index_of d s) \<Longrightarrow> k \<in> fst ` set (index_of d s')"
  shows "located E s' k"
  using assms unfolding located_def by metis

text \<open>The rule for a step that changes no job.\<close>

lemma placed_same:
  assumes "placed E X W s" "s_db s' = s_db s" "pq_inv (s_queue s) \<Longrightarrow> pq_inv (s_queue s')"
    "s_node s' = s_node s" "s_closed s' = s_closed s" "s_tick s \<le> s_tick s'"
    "fst ` set (s_leases s') \<subseteq> fst ` set (s_leases s)"
    and "\<And>k. k \<notin> X' \<Longrightarrow> k \<notin> X \<and> (pq_abs (s_queue s) k \<noteq> None \<longrightarrow> pq_abs (s_queue s') k \<noteq> None) \<and>
      (k \<in> fst ` set (s_retryTimers s) \<longrightarrow> k \<in> fst ` set (s_retryTimers s')) \<and> (leased s k \<longrightarrow> leased s' k) \<and>
      (\<forall>d. k \<in> fst ` set (index_of d s) \<longrightarrow> k \<in> fst ` set (index_of d s'))"
  shows "placed E X' W s'"
proof -
  have "sane E s'" using assms(1-3) by (auto simp: placed_def sane_def)
  moreover have "old_leases E s'"
    using placedD(4) [OF assms(1)] assms(6,7) unfolding old_leases_def by (meson less_le_trans subsetD)
  moreover have "located E s' k" if "k \<notin> X'" for k
    using assms(8) [OF that] assms(2) placedD(7) [OF assms(1), of k] by (intro located_mono [of E s k s']) auto
  ultimately show ?thesis using assms(1,2,4,5) by (simp add: placed_def)
qed

lemma leased_same: "s_leases s' = s_leases s \<Longrightarrow> leased s' k = leased s k"
  by (simp add: leased_def getLease_def)

lemma index_same: "s_revIndex s' = s_revIndex s \<Longrightarrow> index_of d s' = index_of d s"
  by (simp add: index_of_def)

lemma placed_asked [intro]:
  assumes p: "placed E X W s"
  shows "placed E X W (asked s)"
  by (rule placed_same [OF p]) (simp_all add: leased_same [of "asked s" s] index_same [of "asked s" s])

lemma placed_Inc [intro]:
  assumes p: "placed E X W s"
  shows "placed E X W (Inc c s)"
  by (rule placed_same [OF p]) (simp_all add: leased_same [of "Inc c s" s] index_same [of "Inc c s" s])

section \<open>Queue and timers\<close>

lemma pq_abs_Push:
  "pq_inv q \<Longrightarrow> pq_abs (snd (PQ_Push k p c q)) = (if pq_abs q k = None then (pq_abs q)(k \<mapsto> (p, c)) else pq_abs q)"
  by (auto simp: PQ_Push_present PQ_Push_absent)

lemma pq_abs_Remove: "pq_inv q \<Longrightarrow> pq_abs (snd (PQ_Remove k q)) = (pq_abs q)(k := None)"
  by (cases "pq_abs q k = None") (auto simp: PQ_Remove_absent PQ_Remove_present)

lemma set_queue_simps [simp]:
  "leased (s\<lparr>s_queue := q\<rparr>) k = leased s k" "index_of d (s\<lparr>s_queue := q\<rparr>) = index_of d s"
  "leased (s\<lparr>s_retryTimers := ts\<rparr>) k = leased s k" "index_of d (s\<lparr>s_retryTimers := ts\<rparr>) = index_of d s"
  by (simp_all add: leased_def getLease_def index_of_def)

lemma placed_push [intro]:
  assumes p: "placed E X W s"
  shows "placed E X W (s\<lparr>s_queue := snd (PQ_Push k pr c (s_queue s))\<rparr>)"
  by (rule placed_same [OF p]) (simp_all add: pq_inv_ops pq_abs_Push [OF placedD(5) [OF p]])

lemma placed_remove:
  assumes p: "placed E X W s"
  shows "placed E (insert k X) W (s\<lparr>s_queue := snd (PQ_Remove k (s_queue s))\<rparr>)"
  by (rule placed_same [OF p]) (simp_all add: pq_inv_ops pq_abs_Remove [OF placedD(5) [OF p]])

lemma placed_pop:
  assumes "placed E X W s" "PQ_Pop (s_queue s) = (r, q)"
  shows "placed E (set_option r \<union> X) W (s\<lparr>s_queue := q\<rparr>)"
proof (cases r)
  case None
  then show ?thesis
    using assms pq.pop_None [OF placedD(5) [OF assms(1)]] pq_inv_ops(3) [of "s_queue s"]
    by (intro placed_same [OF assms(1)]) simp_all
next
  case (Some k)
  then obtain pc where "pq_abs q = (pq_abs (s_queue s))(k := None)" "pq_inv q"
    using pq.pop_Some [OF placedD(5) [OF assms(1)]] assms(2) by blast
  then show ?thesis using assms Some by (intro placed_same [OF assms(1)]) simp_all
qed

lemma placed_set_timer [intro]:
  assumes p: "placed E X W s"
  shows "placed E X W (s\<lparr>s_retryTimers := AList.update k d (s_retryTimers s)\<rparr>)"
  by (rule placed_same [OF p]) (simp_all add: set_keys_update)

lemma placed_fire:
  assumes p: "placed E X W s"
  shows "placed E (insert k X) W (s\<lparr>s_retryTimers := AList.delete k (s_retryTimers s)\<rparr>)"
  by (rule placed_same [OF p]) (simp_all add: set_keys_delete)

lemma get_job_abs:
  "steady E \<Longrightarrow> placed E X W s \<Longrightarrow>
   Store_GetJob E (s_db s) k = (case jobs_of E (s_db s) k of None \<Rightarrow> Inl ErrNotFound | Some j \<Rightarrow> Inr j)"
  by (rule jobs.get_spec [OF steadyD(1) placedD(6)])

lemma job_key: "steady E \<Longrightarrow> placed E X W s \<Longrightarrow> jobs_of E (s_db s) k = Some j \<Longrightarrow> j_Id j = k"
  by (rule jobs.keyed [OF steadyD(1) placedD(6)])

lemma placed_enqueueJob [intro]: "placed E X W s \<Longrightarrow> placed E X W (enqueueJob E k s)"
  by (auto simp: enqueueJob_def split: sum.splits)

lemma enqueueJob_queues:
  assumes "steady E" "placed E X W s" "jobs_of E (s_db s) k = Some j" "j_State j = JOB_STATE_QUEUED"
  shows "pq_abs (s_queue (enqueueJob E k s)) k \<noteq> None"
  using assms placedD(2,3,5) [OF assms(2)] get_job_abs [OF assms(1,2)] job_key [OF assms(1,2,3)]
  by (auto simp: enqueueJob_def pq_abs_Push)

lemma placed_armEnqueue [intro]: "placed E X W s \<Longrightarrow> placed E X W (armEnqueue E k d s)"
  by (auto simp: armEnqueue_def)

lemma armEnqueue_locates:
  assumes "steady E" "placed E (insert k X) W s" "jobs_of E (s_db s) k = Some j" "j_State j = JOB_STATE_QUEUED"
  shows "placed E X W (armEnqueue E k d s)"
proof (rule placed_drop [of _ k])
  show "located E (armEnqueue E k d s) k"
    using enqueueJob_queues [OF assms] assms(3,4) by (auto simp: located_def armEnqueue_def set_keys_update)
qed (use assms(2) in blast)

lemma placed_timerFired:
  assumes "steady E" "placed E X W s"
  shows "placed E X W (timerFired E k s)"
proof -
  let ?s = "s\<lparr>s_retryTimers := AList.delete k (s_retryTimers s)\<rparr>"
  have p: "placed E (insert k X) W ?s" by (rule placed_fire [OF assms(2)])
  show ?thesis
  proof (cases "k \<in> X")
    case True
    then show ?thesis using placed_enqueueJob [OF p, of k] by (simp add: timerFired_def insert_absorb)
  next
    case False
    have "located E (timerFired E k s) k"
      using placedD(7) [OF assms(2) False] enqueueJob_queues [OF assms(1) p]
      by (auto simp: located_def timerFired_def leased_same [of "enqueueJob E k ?s" ?s] index_same [of "enqueueJob E k ?s" ?s])
    moreover have "placed E (insert k X) W (timerFired E k s)"
      unfolding timerFired_def by (rule placed_enqueueJob [OF p])
    ultimately show ?thesis by (rule placed_drop [rotated])
  qed
qed

section \<open>Leases and index\<close>

lemma leased_removeLease:
  assumes "getLease t s = Some l" "leased s k" "k \<noteq> ls_jobID l"
  shows "leased (removeLease t s) k"
proof -
  obtain t' l' where "getLease t' s = Some l'" "ls_jobID l' = k" using assms(2) by (auto simp: leased_def)
  then show ?thesis
    using assms(1,3) unfolding leased_def by (intro exI [of _ t'] exI [of _ l']) (auto simp: getLease_def removeLease_def)
qed

lemma leased_addLease:
  assumes "getLease (ls_taskID l) s = None" "leased s k"
  shows "leased (addLease l s) k"
proof -
  obtain t' l' where "getLease t' s = Some l'" "ls_jobID l' = k" using assms(2) by (auto simp: leased_def)
  then show ?thesis
    using assms(1) unfolding leased_def by (intro exI [of _ t'] exI [of _ l']) (auto simp: getLease_def addLease_def)
qed

lemma placed_removeLease:
  assumes p: "placed E X W s" and l: "getLease t s = Some l"
  shows "placed E (insert (ls_jobID l) X) W (removeLease t s)"
proof (rule placed_same [OF p])
  show "k \<notin> X \<and> (pq_abs (s_queue s) k \<noteq> None \<longrightarrow> pq_abs (s_queue (removeLease t s)) k \<noteq> None) \<and>
      (k \<in> fst ` set (s_retryTimers s) \<longrightarrow> k \<in> fst ` set (s_retryTimers (removeLease t s))) \<and>
      (leased s k \<longrightarrow> leased (removeLease t s) k) \<and>
      (\<forall>d. k \<in> fst ` set (index_of d s) \<longrightarrow> k \<in> fst ` set (index_of d (removeLease t s)))"
    if "k \<notin> insert (ls_jobID l) X" for k
    using that leased_removeLease [OF l, of k] by (simp add: index_same [of "removeLease t s" s])
qed (simp_all, auto simp: removeLease_def set_keys_delete)

lemma placed_addLease:
  assumes E: "steady E" and p: "placed E (insert (ls_jobID l) X) W s" and l: "ls_taskID l = ids_New E s0 ''task''"
    and tick: "s_tick s0 < s_tick s" "\<And>t. t \<in> fst ` set (s_leases s) \<Longrightarrow> \<exists>n < s_tick s0. t = ''task-'' @ env_uuid E n"
    and job: "jobs_of E (s_db s) (ls_jobID l) = Some j" "j_State j = JOB_STATE_RUNNING"
  shows "placed E X W (addLease l s)"
proof -
  have new: "getLease (ls_taskID l) s = None"
    using tick(2) [of "ls_taskID l"] steadyD(3) [OF E] l by (force simp: getLease_def map_of_eq_None_iff ids_New_def inj_def)
  have keeps: "leased (addLease l s) k" if "leased s k" for k
    by (rule leased_addLease [OF new that])
  have at: "leased (addLease l s) (ls_jobID l)"
    by (auto simp: leased_def getLease_def addLease_def)
  have "located E (addLease l s) k" if "k \<notin> X" for k
  proof (cases "k = ls_jobID l")
    case True
    then show ?thesis using job at by (simp add: located_def)
  next
    case False
    then show ?thesis
      using placedD(7) [OF p, of k] that keeps
      by - (rule located_mono [of E s k], auto simp: index_same [of "addLease l s" s])
  qed
  moreover have "old_leases E (addLease l s)"
    unfolding old_leases_def
  proof
    fix t assume "t \<in> fst ` set (s_leases (addLease l s))"
    then consider "t = ids_New E s0 ''task''" | "t \<in> fst ` set (s_leases s)"
      using l by (auto simp: addLease_def set_keys_update)
    then show "\<exists>n < s_tick (addLease l s). t = ''task-'' @ env_uuid E n"
    proof cases
      case 1
      then show ?thesis using tick(1) by (intro exI [of _ "s_tick s0"]) (simp add: ids_New_def)
    next
      case 2
      then show ?thesis using tick(2) [OF 2] tick(1) by (auto dest: less_trans)
    qed
  qed
  moreover have "sane E (addLease l s)" using placedD(1) [OF p] by (simp add: sane_def)
  ultimately show ?thesis using p by (simp add: placed_def)
qed

lemma index_removeFromIndex: "fst ` set (index_of d s) - {x} \<subseteq> fst ` set (index_of d (removeFromIndex x s))"
proof -
  have "\<exists>ds'. map_of (filter (\<lambda>(dep, ds). ds \<noteq> []) (map (\<lambda>(dep, ds). (dep, AList.delete x ds)) m)) d = Some ds' \<and>
      fst ` set ds - {x} \<subseteq> fst ` set ds'"
    if "map_of m d = Some ds" "fst ` set ds - {x} \<noteq> {}" for m ds
    using that
  proof (induction m)
    case (Cons p m)
    obtain e es where p: "p = (e, es)" by force
    show ?case
    proof (cases "e = d")
      case True
      then have "AList.delete x es \<noteq> []"
        using Cons.prems p set_keys_delete [of x es] by auto
      then show ?thesis using Cons.prems True p by (simp add: set_keys_delete)
    next
      case False
      then show ?thesis using Cons p by simp
    qed
  qed simp
  note keeps = this
  show ?thesis
  proof (cases "fst ` set (index_of d s) - {x} = {}")
    case False
    then obtain ds where ds: "map_of (s_revIndex s) d = Some ds" "index_of d s = ds" "fst ` set ds - {x} \<noteq> {}"
      by (cases "map_of (s_revIndex s) d") (simp_all add: index_of_def)
    obtain ds' where ds': "index_of d (removeFromIndex x s) = ds'" "fst ` set ds - {x} \<subseteq> fst ` set ds'"
      using keeps [OF ds(1,3)] by (fastforce simp: index_of_def removeFromIndex_def)
    then show ?thesis by (simp only: ds(2))
  qed blast
qed

lemma placed_removeFromIndex:
  assumes p: "placed E X W s"
  shows "placed E (insert x X) W (removeFromIndex x s)"
proof (rule placed_same [OF p])
  show "k \<notin> X \<and> (pq_abs (s_queue s) k \<noteq> None \<longrightarrow> pq_abs (s_queue (removeFromIndex x s)) k \<noteq> None) \<and>
      (k \<in> fst ` set (s_retryTimers s) \<longrightarrow> k \<in> fst ` set (s_retryTimers (removeFromIndex x s))) \<and>
      (leased s k \<longrightarrow> leased (removeFromIndex x s) k) \<and>
      (\<forall>d. k \<in> fst ` set (index_of d s) \<longrightarrow> k \<in> fst ` set (index_of d (removeFromIndex x s)))"
    if "k \<notin> insert x X" for k
    using that index_removeFromIndex [of _ s x] by (simp add: leased_same [of "removeFromIndex x s" s]) blast
qed simp_all

lemma placed_unindex:
  assumes p: "placed E X W s" and x: "\<And>j. jobs_of E (s_db s) x = Some j \<Longrightarrow> j_State j \<noteq> JOB_STATE_PENDING"
  shows "placed E X W (removeFromIndex x s)"
proof (cases "x \<in> X")
  case True
  then show ?thesis using placed_removeFromIndex [OF p, of x] by (simp add: insert_absorb)
next
  case False
  have "located E (removeFromIndex x s) x"
    using placedD(7) [OF p False] x by (auto simp: located_def leased_same [of "removeFromIndex x s" s])
  then show ?thesis by (rule placed_drop [OF placed_removeFromIndex [OF p]])
qed

lemma addDeps_index:
  "fst ` set (index_of d s) \<subseteq> fst ` set (index_of d (addDeps j s))"
  "d \<in> set (j_DependsOn j) \<Longrightarrow> j_Id j \<in> fst ` set (index_of d (addDeps j s))"
proof -
  let ?f = "\<lambda>dep s. s\<lparr>s_revIndex := AList.update dep (AList.update (j_Id j) () (index_of dep s)) (s_revIndex s)\<rparr>"
  have one: "fst ` set (index_of x (?f e s)) = (if x = e then insert (j_Id j) (fst ` set (index_of x s)) else fst ` set (index_of x s))"
    for x e and s :: "'a server"
    by (auto simp: index_of_def set_keys_update split: option.splits)
  have all: "fst ` set (index_of d (fold ?f es s)) =
      (if d \<in> set es then insert (j_Id j) (fst ` set (index_of d s)) else fst ` set (index_of d s))" for es
    by (induction es arbitrary: s) (simp_all add: one)
  show "fst ` set (index_of d s) \<subseteq> fst ` set (index_of d (addDeps j s))"
    "d \<in> set (j_DependsOn j) \<Longrightarrow> j_Id j \<in> fst ` set (index_of d (addDeps j s))"
    using all [of "j_DependsOn j"] by (auto simp: addDeps_def)
qed

lemma placed_addDeps [intro]:
  assumes p: "placed E X W s"
  shows "placed E X W (addDeps j s)"
proof (rule placed_same [OF p])
  show "k \<notin> X \<and> (pq_abs (s_queue s) k \<noteq> None \<longrightarrow> pq_abs (s_queue (addDeps j s)) k \<noteq> None) \<and>
      (k \<in> fst ` set (s_retryTimers s) \<longrightarrow> k \<in> fst ` set (s_retryTimers (addDeps j s))) \<and>
      (leased s k \<longrightarrow> leased (addDeps j s) k) \<and>
      (\<forall>d. k \<in> fst ` set (index_of d s) \<longrightarrow> k \<in> fst ` set (index_of d (addDeps j s)))"
    if "k \<notin> X" for k
    using that addDeps_index(1) [of _ s j] by (simp add: leased_same [of "addDeps j s" s]) blast
qed simp_all

section \<open>Writing a job\<close>

lemma putJob_done:
  assumes E: "steady E" and s: "sane E s"
  shows "fst (putJob E j s) = None" "jobs_of E (s_db (snd (putJob E j s))) = (jobs_of E (s_db s))(j_Id j \<mapsto> j)"
proof -
  have "fst (Store_PutJob E (s_db s) j) = None" by (rule no_faults_writes(1) [OF steadyD(2) [OF E]])
  then show 1: "fst (putJob E j s) = None" by (auto simp: putJob_def split: prod.splits)
  have "mc_jobs (view E (snd (putJob E j s))) = (jobs_of E (s_db s))(j_Id j \<mapsto> j)"
    using putJob_view(2) [OF steadyD(1) [OF E] s, of j] 1 by simp
  then show "jobs_of E (s_db (snd (putJob E j s))) = (jobs_of E (s_db s))(j_Id j \<mapsto> j)" by simp
qed

lemma waiting_update:
  assumes "waiting J k" "k \<noteq> i" "j_State j = JOB_STATE_SUCCEEDED \<Longrightarrow> \<forall>jk. J k = Some jk \<longrightarrow> j_State jk = JOB_STATE_PENDING \<longrightarrow> i \<notin> set (j_DependsOn jk)"
  shows "waiting (J(i \<mapsto> j)) k"
  using assms unfolding waiting_def deps_met_def by (auto split: if_splits) metis

lemma placed_putJob:
  assumes E: "steady E" and p: "placed E X W s" and j: "j_State j \<noteq> JOB_STATE_SUCCEEDED"
    and w: "j_State j = JOB_STATE_PENDING \<Longrightarrow> j_Id j \<in> W \<or> \<not> deps_met ((jobs_of E (s_db s))(j_Id j \<mapsto> j)) j"
  shows "placed E (insert (j_Id j) X) W (snd (putJob E j s))"
proof -
  let ?s = "snd (putJob E j s)"
  have jobs: "jobs_of E (s_db ?s) = (jobs_of E (s_db s))(j_Id j \<mapsto> j)" by (rule putJob_done(2) [OF E placedD(1) [OF p]])
  have "located E ?s k" if "k \<notin> insert (j_Id j) X" for k
    using that placedD(7) [OF p, of k] jobs
    by - (rule located_mono [of E s k], auto simp: leased_same [of ?s s] index_same [of ?s s])
  moreover have "waiting (jobs_of E (s_db ?s)) k" if "k \<notin> W" for k
  proof (cases "k = j_Id j")
    case True
    then show ?thesis using w that jobs by (auto simp: waiting_def)
  next
    case False
    then show ?thesis unfolding jobs using placedD(8) [OF p that] j by (intro waiting_update) auto
  qed
  ultimately show ?thesis
    using p putJob_view(1) [OF steadyD(1) [OF E] placedD(1) [OF p], of j] by (auto simp: placed_def old_leases_def)
qed

lemma placed_put_terminal:
  assumes E: "steady E" and p: "placed E (insert (j_Id j) X) W s" and j: "j_State j = JOB_STATE_FAILED \<or> j_State j = JOB_STATE_CANCELED"
  shows "placed E X W (snd (putJob E j s))"
proof (rule placed_drop)
  show "placed E (insert (j_Id j) X) W (snd (putJob E j s))" using placed_putJob [OF E p, of j] j by auto
  show "located E (snd (putJob E j s)) (j_Id j)"
    using j putJob_done(2) [OF E placedD(1) [OF p], of j] by (intro located_idle) auto
qed

lemma placed_put_ready:
  assumes E: "steady E" and p: "placed E (insert (j_Id j) X) W s" and j: "j_State j = JOB_STATE_QUEUED"
  shows "placed E X W (armEnqueue E (j_Id j) d (snd (putJob E j s)))"
  using placed_putJob [OF E p, of j] j putJob_done(2) [OF E placedD(1) [OF p], of j]
  by (intro armEnqueue_locates [OF E]) auto

text \<open>When a job succeeds, only its dependents may be left waiting for nothing.\<close>

lemma placed_put_success:
  assumes E: "steady E" and p: "placed E X {} s" and X: "X \<subseteq> {j_Id j}" and j: "j_State j = JOB_STATE_SUCCEEDED"
  shows "placed E {} (fst ` set (index_of (j_Id j) s)) (snd (putJob E j s))"
proof -
  let ?s = "snd (putJob E j s)"
  have jobs: "jobs_of E (s_db ?s) = (jobs_of E (s_db s))(j_Id j \<mapsto> j)" by (rule putJob_done(2) [OF E placedD(1) [OF p]])
  have "located E ?s k" for k
  proof (cases "k = j_Id j")
    case True
    then show ?thesis using jobs j by (intro located_idle) auto
  next
    case False
    then show ?thesis
      using placedD(7) [OF p, of k] jobs X
      by - (rule located_mono [of E s k], auto simp: leased_same [of ?s s] index_same [of ?s s])
  qed
  moreover have "waiting (jobs_of E (s_db ?s)) k" if "k \<notin> fst ` set (index_of (j_Id j) s)" for k
  proof (cases "k = j_Id j")
    case True
    then show ?thesis using j jobs by (simp add: waiting_def)
  next
    case False
    then show ?thesis
      unfolding jobs using placedD(8) [OF p, of k] placedD(7) [OF p, of k] X that
      by (intro waiting_update) (auto simp: located_def)
  qed
  ultimately show ?thesis
    using p putJob_view(1) [OF steadyD(1) [OF E] placedD(1) [OF p], of j] by (auto simp: placed_def old_leases_def)
qed

section \<open>Cancelling and promoting\<close>

lemma cancel_one_ends:
  assumes E: "steady E" and p: "placed E X W s"
  shows "\<And>j. jobs_of E (s_db (cancel_one E now r k s)) k = Some j \<Longrightarrow> terminal (j_State j)"
  using get_job_abs [OF E p, of k] job_key [OF E p, of k] putJob_done(2) [OF E placedD(1) [OF p]]
  by (auto simp: cancel_one_def Let_def split: option.splits if_splits)

lemma placed_cancel_one:
  assumes E: "steady E" and p: "placed E X W s"
  shows "placed E X W (cancel_one E now r k s)"
proof (cases "Store_GetJob E (s_db s) k")
  case (Inr job)
  show ?thesis
  proof (cases "terminal (j_State job)")
    case False
    let ?job = "job\<lparr>j_State := JOB_STATE_CANCELED, j_LastError := r, j_UpdatedAt := Some now\<rparr>"
    let ?s1 = "snd (putJob E ?job s)"
    let ?s2 = "?s1\<lparr>s_queue := snd (PQ_Remove k (s_queue ?s1))\<rparr>"
    have k: "j_Id job = k" using Inr get_job_abs [OF E p, of k] job_key [OF E p] by (simp split: option.splits)
    have "placed E X W ?s1" by (rule placed_put_terminal [OF E placed_mono [OF p]]) auto
    then have "placed E (insert k X) W ?s2" by (rule placed_remove)
    moreover have "located E ?s2 k"
      using putJob_done(2) [OF E placedD(1) [OF p], of ?job] k by (intro located_idle) auto
    ultimately have "placed E X W ?s2" by (rule placed_drop)
    then show ?thesis using Inr False by (auto simp: cancel_one_def Let_def)
  qed (use p Inr in \<open>simp add: cancel_one_def\<close>)
qed (use p in \<open>simp add: cancel_one_def\<close>)

lemma placed_dependentsOf: "dependentsOf E k s = (ds, s') \<Longrightarrow> placed E X W s \<Longrightarrow> placed E X W s'"
  by (auto simp: dependentsOf_def)

lemma placed_cancel_loop:
  assumes E: "steady E"
  shows "placed E X W s \<Longrightarrow> placed E X W (cancel_loop E now visited work r s)"
proof (induction visited work r s rule: cancel_loop_induct [of _ E now])
  case (new visited work r s ds s2)
  let ?c = "cancel_one E now r (last work) s"
  have s2: "s2 = asked ?c" using new(3) by (simp add: dependentsOf_def)
  have p: "placed E X W s2" unfolding s2 by (rule placed_asked [OF placed_cancel_one [OF E new.prems]])
  have "j_State j \<noteq> JOB_STATE_PENDING" if "jobs_of E (s_db s2) (last work) = Some j" for j
    using that cancel_one_ends [OF E new.prems, of now r "last work" j] by (auto simp: s2)
  then have "placed E X W (removeFromIndex (last work) s2)" by (rule placed_unindex [OF p])
  then show ?case using new.IH cancel_loop_new [OF new(1-3)] by simp
qed (simp_all add: cancel_loop_seen)

lemma placed_cancelCascade: "steady E \<Longrightarrow> placed E X W s \<Longrightarrow> placed E X W (cancelCascade E k r s)"
  unfolding cancelCascade_def Let_def by (rule placed_cancel_loop [OF _ placed_asked])

lemma placed_makeReady:
  assumes E: "steady E" and p: "placed E (insert (j_Id job) X) W s"
  shows "placed E X W (makeReady E job now s)"
proof (rule makeReady_shape [of job s E now])
  fix job' delay s1
  assume s: "same_job job job'" "j_State job' = JOB_STATE_QUEUED" "s1 = s \<or> s1 = asked s"
    "makeReady E job now s =
      (case putJob E job' s1 of (Some _, s) \<Rightarrow> s | (None, s) \<Rightarrow> armEnqueue E (j_Id job) delay s)"
  have id: "j_Id job' = j_Id job" using s(1) by (simp add: same_job_def)
  have p1: "placed E (insert (j_Id job') X) W s1" using s(3) p id by auto
  show ?thesis
    using placed_put_ready [OF E p1 s(2), of delay] putJob_done(1) [OF E placedD(1) [OF p1], of job'] s(4) id
    by (simp split: prod.splits option.splits)
qed

lemma makeReady_state:
  assumes E: "steady E" and s: "sane E s"
  shows "\<exists>j. jobs_of E (s_db (makeReady E job now s)) = (jobs_of E (s_db s))(j_Id job \<mapsto> j) \<and> j_State j = JOB_STATE_QUEUED"
proof (rule makeReady_shape [of job s E now])
  fix job' delay s1
  assume h: "same_job job job'" "j_State job' = JOB_STATE_QUEUED" "s1 = s \<or> s1 = asked s"
    "makeReady E job now s =
      (case putJob E job' s1 of (Some _, s) \<Rightarrow> s | (None, s) \<Rightarrow> armEnqueue E (j_Id job) delay s)"
  have "sane E s1" using h(3) s by (auto simp: sane_def)
  then show ?thesis
    using putJob_done [OF E, of s1 job'] h then_armEnqueue(2) [OF h(4)] by (auto simp: same_job_def)
qed

lemma depsSatisfied_unmet:
  assumes E: "steady E" and p: "placed E X W s" and sat: "depsSatisfied E job s = (False, f)"
  shows "\<not> deps_met (jobs_of E (s_db s)) job"
proof -
  have "\<not> (\<forall>d \<in> set ds. \<exists>dj. jobs_of E (s_db s) d = Some dj \<and> j_State dj = JOB_STATE_SUCCEEDED)"
    if "deps_satisfied E (s_db s) ds = (False, f)" for ds
    using that
    by (induction ds) (auto simp: get_job_abs [OF E p] split: option.splits JobState.splits)
  then show ?thesis using sat by (auto simp: depsSatisfied_def deps_met_def)
qed

lemma placed_tryPromote:
  assumes E: "steady E" and p: "placed E X (insert k W) s" and k: "k \<notin> X"
  shows "placed E X W (tryPromote E k s)"
proof (cases "\<exists>job. jobs_of E (s_db s) k = Some job \<and> j_State job = JOB_STATE_PENDING")
  case False
  then have "waiting (jobs_of E (s_db s)) k" by (auto simp: waiting_def)
  moreover have "tryPromote E k s = s" using False get_job_abs [OF E p, of k] by (auto simp: tryPromote_def split: option.splits)
  ultimately show ?thesis using placed_drop_waiting [OF p] by simp
next
  case True
  then obtain job where job: "jobs_of E (s_db s) k = Some job" "j_State job = JOB_STATE_PENDING" by blast
  have id: "j_Id job = k" by (rule job_key [OF E p job(1)])
  obtain ready f where sat: "depsSatisfied E job s = (ready, f)" by force
  have unfold: "tryPromote E k s = (if f \<noteq> '''' then cancelCascade E k (upstream_failed f) s
      else if ready then removeFromIndex k (makeReady E job (time_Now E s) (asked s)) else s)"
    using job sat get_job_abs [OF E p, of k] by (simp add: tryPromote_def)
  show ?thesis
  proof (cases "f \<noteq> '''' \<or> \<not> ready")
    case True
    have "fst (deps_satisfied E db ds) \<Longrightarrow> snd (deps_satisfied E db ds) = ''''" for db ds
      by (induction ds) (auto split: sum.splits JobState.splits)
    from this [of "s_db s" "j_DependsOn job"] have "\<not> ready" using True sat by (auto simp: depsSatisfied_def)
    then have "waiting (jobs_of E (s_db s)) k"
      using depsSatisfied_unmet [OF E p, of job f] sat job by (simp add: waiting_def)
    then have "placed E X W s" by (rule placed_drop_waiting [OF p])
    then show ?thesis using True unfold placed_cancelCascade [OF E] by auto
  next
    case False
    let ?s = "makeReady E job (time_Now E s) (asked s)"
    have r: "placed E X (insert k W) ?s" by (rule placed_makeReady [OF E]) (use placed_mono [OF placed_asked [OF p]] in blast)
    obtain j where j: "jobs_of E (s_db ?s) k = Some j" "j_State j = JOB_STATE_QUEUED"
      using makeReady_state [OF E placedD(1) [OF placed_asked [OF p]], of job "time_Now E s"] id by auto
    have "placed E X W ?s" by (rule placed_drop_waiting [OF r]) (use j in \<open>simp add: waiting_def\<close>)
    then have "placed E X W (removeFromIndex k ?s)" by (rule placed_unindex) (use j in simp)
    then show ?thesis using unfold False by simp
  qed
qed

lemma placed_promotions:
  assumes E: "steady E"
  shows "placed E {} (set ks \<union> W) s \<Longrightarrow> placed E {} W (fold (tryPromote E) ks s)"
proof (induction ks arbitrary: s)
  case (Cons k ks)
  have "placed E {} (set ks \<union> W) (tryPromote E k s)"
    by (rule placed_tryPromote [OF E]) (use Cons.prems in \<open>simp_all add: insert_commute\<close>)
  then show ?case using Cons.IH by simp
qed simp

lemma placed_promoteDependents:
  assumes E: "steady E" and p: "placed E {} (fst ` set (index_of k s)) s"
  shows "placed E {} {} (promoteDependents E k s)"
  unfolding promoteDependents_def dependentsOf_def prod.case Let_def
  by (rule placed_promotions [OF E]) (use placed_asked [OF p] in simp)

section \<open>Lost attempts, leases and reports\<close>

lemma putJob_ok: "steady E \<Longrightarrow> sane E s \<Longrightarrow> putJob E j s = (r, s') \<Longrightarrow> r = None \<and> s' = snd (putJob E j s)"
  using putJob_done(1) [of E s j] by simp

lemma placed_maybeRescheduleCron:
  assumes E: "steady E" and p: "placed E (insert (j_Id job) X) W s"
    and res: "maybeRescheduleCron E job now s = (b, job', s')"
  shows "if b then placed E X W s' else s' = s \<and> job' = job"
proof -
  have put: "(putJob E j s = (Some x, y)) = False" for j x y
    using putJob_done(1) [OF E placedD(1) [OF p], of j] by auto
  show ?thesis
  proof (cases b)
    case True
    then have "\<exists>s1 d. j_Id job' = j_Id job \<and> j_State job' = JOB_STATE_QUEUED \<and> putJob E job' s = (None, s1) \<and>
        s' = armEnqueue E (j_Id job) d (asked s1)"
      using res by (auto simp: maybeRescheduleCron_def Let_def split: if_splits sum.splits prod.splits option.splits)
    then obtain s1 d where j: "j_Id job' = j_Id job" "j_State job' = JOB_STATE_QUEUED" "putJob E job' s = (None, s1)"
      "s' = armEnqueue E (j_Id job) d (asked s1)" by blast
    have s1: "s1 = snd (putJob E job' s)" using j(3) by simp
    have p1: "placed E (insert (j_Id job') X) W (asked s1)"
      using placed_putJob [OF E p, of job'] j(1,2) s1 by auto
    show ?thesis
      using armEnqueue_locates [OF E p1, of job' d] putJob_done(2) [OF E placedD(1) [OF p], of job'] j(1,2,4) s1 True by simp
  next
    case False
    show ?thesis
    proof (cases "Schedule_GetCronExpr (j_Schedule job) = '''' \<or> (\<exists>e. nextCron E (Schedule_GetCronExpr (j_Schedule job)) now = Inl e)")
      case True
      then show ?thesis using res False by (auto simp: maybeRescheduleCron_def Let_def split: if_splits)
    next
      case cron: False
      then obtain nx where "nextCron E (Schedule_GetCronExpr (j_Schedule job)) now = Inr nx"
        by (cases "nextCron E (Schedule_GetCronExpr (j_Schedule job)) now") auto
      then have b using res cron by (auto simp: maybeRescheduleCron_def Let_def put split: prod.splits option.splits)
      then show ?thesis using False by simp
    qed
  qed
qed

lemma placed_handleFailure:
  assumes E: "steady E" and p: "placed E (insert (j_Id job) X) W s"
    and res: "handleFailure E job msg now s = (e, job', s')"
  shows "placed E X W s'"
  using res
proof (cases rule: handleFailure_cases)
  case (retry d r s1)
  have id: "j_Id job' = j_Id job" using retry(2) by simp
  have pa: "placed E (insert (j_Id job') X) W (asked s)" using p id by auto
  have "r = None" "s1 = snd (putJob E job' (asked s))" using putJob_ok [OF E placedD(1) [OF pa] retry(3)] by auto
  then show ?thesis using placed_put_ready [OF E pa, of d] retry(2,4) id by auto
next
  case rearm
  then show ?thesis using placed_maybeRescheduleCron [OF E _ rearm(2), of X W] p by simp
next
  case (no_letter j2 s2 er db)
  then show ?thesis using no_faults_writes(3) [OF steadyD(2) [OF E], of "s_db s2" job'] by simp
next
  case (no_job j2 s2 db er)
  have s2: "s2 = s" "j2 = lost_attempt job msg now" using placed_maybeRescheduleCron [OF E _ no_job(2), of X W] p by auto
  have "sane E (s2\<lparr>s_db := db\<rparr>)" unfolding s2(1) by (rule PutDeadLetter_view(1) [OF steadyD(1) [OF E] placedD(1) [OF p]]) (use no_job(4) s2 in simp)
  then show ?thesis using putJob_ok [OF E _ no_job(5)] by simp
next
  case (buried j2 s2 db s3)
  have s2: "s2 = s" "j2 = lost_attempt job msg now" using placed_maybeRescheduleCron [OF E _ buried(2), of X W] p by auto
  have letter: "Store_PutDeadLetter E (s_db s) job' = (None, db)" using buried(4) s2 by simp
  have id: "j_Id job' = j_Id job" "j_State job' = JOB_STATE_FAILED" using buried(3) s2 by auto
  note v = PutDeadLetter_view [OF steadyD(1) [OF E] placedD(1) [OF p] letter]
  have jobs: "jobs_of E db = jobs_of E (s_db s)" using arg_cong [OF v(2), of mc_jobs] by simp
  have "located E (s\<lparr>s_db := db\<rparr>) k \<longleftrightarrow> located E s k" for k
    by (simp add: located_def jobs leased_def getLease_def index_of_def)
  then have "placed E (insert (j_Id job') X) W (s\<lparr>s_db := db\<rparr>)" using p v(1) id jobs by (simp add: placed_def old_leases_def)
  note p1 = placed_put_terminal [OF E this]
  have s3: "s3 = snd (putJob E job' (s\<lparr>s_db := db\<rparr>))" using buried(5) s2(1) by (metis snd_conv)
  have "placed E X W (Inc JobsDeadLettered s3)" using p1 id s3 by auto
  then have "placed E X W (removeFromIndex (j_Id job') (Inc JobsDeadLettered s3))"
    by (rule placed_unindex) (use putJob_done(2) [OF E v(1), of job'] id s3 in simp)
  then show ?thesis using buried(6) placed_cancelCascade [OF E] by simp
qed

lemma cancelCascade_leases: "s_leases (cancelCascade E k r s) = s_leases s"
proof -
  have "s_leases (cancel_loop E now visited work r s) = s_leases s" for now visited work r and s :: "'a server"
  proof (induction visited work r s rule: cancel_loop_induct [of _ E now])
    case (new visited work r s ds s2)
    then show ?case using cancel_loop_new [OF new(1-3)] by (auto simp: dependentsOf_def)
  qed (simp_all add: cancel_loop_seen)
  then show ?thesis by (simp add: cancelCascade_def)
qed

lemma makeReady_leases: "s_leases (makeReady E j now s) = s_leases s"
proof -
  obtain j' delay s1 where s1: "s1 = s \<or> s1 = asked s" and eq: "makeReady E j now s =
      (case putJob E j' s1 of (Some _, s) \<Rightarrow> s | (None, s) \<Rightarrow> armEnqueue E (j_Id j) delay s)"
    by (rule makeReady_shape [of j s E now])
  obtain r s2 where s2: "putJob E j' s1 = (r, s2)" by force
  then have "s_leases s2 = s_leases s" using putJob_frame(7) [of E j' s1] s1 by auto
  then show ?thesis by (simp add: eq s2 split: option.split)
qed

lemma tryPromote_leases: "s_leases (tryPromote E k s) = s_leases s"
  by (simp add: tryPromote_def cancelCascade_leases makeReady_leases split: sum.split prod.split)

lemma promoteDependents_leases: "s_leases (promoteDependents E k s) = s_leases s"
proof -
  have "s_leases (fold (tryPromote E) ks s) = s_leases s" for ks and s :: "'a server"
    by (induction ks arbitrary: s) (simp_all add: tryPromote_leases)
  then show ?thesis by (simp add: promoteDependents_def dependentsOf_def)
qed

lemma maybeRescheduleCron_leases: "maybeRescheduleCron E job now s = (b, job', s') \<Longrightarrow> s_leases s' = s_leases s"
  by (auto simp: maybeRescheduleCron_def Let_def split: if_splits sum.splits prod.splits option.splits dest: arg_cong [of _ _ snd])
    (metis putJob_frame(7) snd_conv)+

lemma handleFailure_leases:
  assumes "handleFailure E job msg now s = (e, job', s')"
  shows "s_leases s' = s_leases s"
  using assms
proof (cases rule: handleFailure_cases)
  case (retry d r s1)
  then show ?thesis using putJob_frame(7) [of E job' "asked s"] by (auto split: if_splits)
next
  case rearm
  then show ?thesis using maybeRescheduleCron_leases by blast
next
  case (no_letter j2 s2 er db)
  then show ?thesis using maybeRescheduleCron_leases [OF no_letter(2)] by simp
next
  case (no_job j2 s2 db er)
  then show ?thesis using maybeRescheduleCron_leases [OF no_job(2)] putJob_frame(7) [of E job' "s2\<lparr>s_db := db\<rparr>"] by simp
next
  case (buried j2 s2 db s3)
  then show ?thesis
    using maybeRescheduleCron_leases [OF buried(2)] putJob_frame(7) [of E job' "s2\<lparr>s_db := db\<rparr>"]
    by (simp add: cancelCascade_leases)
qed

text \<open>A lost attempt ends: the job is not RUNNING afterwards.\<close>

lemma handleFailure_ends:
  assumes E: "steady E" and s: "sane E s" and job: "jobs_of E (s_db s) (j_Id job) = Some job" "j_State job = JOB_STATE_RUNNING"
    and res: "handleFailure E job msg now s = (e, job', s')"
  shows "e = None \<and> (\<exists>j. jobs_of E (s_db s') (j_Id job) = Some j \<and> j_State j \<noteq> JOB_STATE_RUNNING)"
  using res
proof (cases rule: handleFailure_cases)
  case (retry d r s1)
  have "sane E (asked s)" using s by (simp add: sane_def)
  note put = putJob_done [OF E this, of job']
  have r: "r = None" using put(1) retry(3) by simp
  have "s1 = snd (putJob E job' (asked s))" using retry(3) by simp
  then show ?thesis using r put(2) retry(2,4,5) by auto
next
  case rearm
  then have "jobs_of E (s_db s') = (jobs_of E (s_db s))(j_Id job \<mapsto> job') \<and> j_State job' = JOB_STATE_QUEUED"
    using putJob_done(2) [OF E s, of job']
    by (auto simp: maybeRescheduleCron_def Let_def split: if_splits sum.splits prod.splits option.splits)
  then show ?thesis using rearm(3) by auto
next
  case (no_letter j2 s2 er db)
  then show ?thesis using no_faults_writes(3) [OF steadyD(2) [OF E], of "s_db s2" job'] by simp
next
  case (no_job j2 s2 db er)
  have "sane E s2"
    using maybeRescheduleCron_refines(3) [OF steadyD(1) [OF E] _ no_job(2), of job] job s by (auto simp: same_job_def lost_attempt_def)
  then have "sane E (s2\<lparr>s_db := db\<rparr>)" by (rule PutDeadLetter_view(1) [OF steadyD(1) [OF E] _ no_job(4)])
  then show ?thesis using putJob_ok [OF E _ no_job(5)] by simp
next
  case (buried j2 s2 db s3)
  have "sane E s2" "j_Id j2 = j_Id job"
    using maybeRescheduleCron_refines(2,3) [OF steadyD(1) [OF E] _ buried(2), of job] job s
    by (auto simp: same_job_def lost_attempt_def)
  then have s2: "sane E (s2\<lparr>s_db := db\<rparr>)" and id: "j_Id job' = j_Id job"
    using PutDeadLetter_view(1) [OF steadyD(1) [OF E] _ buried(4)] buried(3) by auto
  let ?s3 = "removeFromIndex (j_Id job') (Inc JobsDeadLettered s3)"
  have s3: "sane E ?s3" "jobs_of E (s_db ?s3) (j_Id job) = Some job'"
    using putJob_done(2) [OF E s2, of job'] putJob_view(1) [OF steadyD(1) [OF E] s2, of job'] buried(5) id
    by (auto simp: sane_def)
  have "machine_steps (view E ?s3) (view E s')"
    using refines_cancelCascade [OF steadyD(1) [OF E], of ?s3 "j_Id job'" "upstream_failed (j_Id job')"] s3(1) buried(6)
    by (simp add: refines_def)
  then have "jobs_of E (s_db s') (j_Id job) = Some job'" using terminal_stays s3(2) buried(3) by fastforce
  then show ?thesis using buried(3,7) by simp
qed

lemma placed_requeueLease:
  assumes E: "steady E" and p: "placed E X W s"
  shows "placed E X W (requeueLease E reason t s)"
proof (cases "getLease t s")
  case (Some l)
  let ?k = "ls_jobID l" and ?s = "removeLease t s"
  have p1: "placed E (insert ?k X) W ?s" by (rule placed_removeLease [OF p Some])
  show ?thesis
  proof (cases "\<exists>job. jobs_of E (s_db s) ?k = Some job \<and> j_State job = JOB_STATE_RUNNING")
    case True
    then obtain job where job: "jobs_of E (s_db s) ?k = Some job" "j_State job = JOB_STATE_RUNNING" by blast
    obtain e job' s' where res: "handleFailure E job reason (time_Now E (Inc TasksRequeued ?s)) (asked (Inc TasksRequeued ?s)) = (e, job', s')"
      by (metis prod_cases3)
    have "placed E (insert (j_Id job) X) W (asked (Inc TasksRequeued ?s))" using p1 job_key [OF E p job(1)] by auto
    note placed_handleFailure [OF E this res]
    moreover have "requeueLease E reason t s = s'"
      using Some job res get_job_abs [OF E p, of ?k] by (simp add: requeueLease_def Let_def)
    ultimately show ?thesis by simp
  next
    case False
    then have same: "requeueLease E reason t s = ?s"
      using Some get_job_abs [OF E p, of ?k] by (auto simp: requeueLease_def Let_def split: option.splits)
    show ?thesis
    proof (cases "?k \<in> X")
      case True
      then show ?thesis using p1 same by (simp add: insert_absorb)
    next
      case out: False
      have "located E ?s ?k" using placedD(7) [OF p out] False by (auto simp: located_def index_same [of ?s s])
      then show ?thesis using placed_drop [OF p1] same by simp
    qed
  qed
qed (use p in \<open>simp add: requeueLease_def\<close>)

lemma placed_fold:
  "(\<And>x s. placed E X W s \<Longrightarrow> placed E X W (f x s)) \<Longrightarrow> placed E X W s \<Longrightarrow> placed E X W (fold f xs s)"
  by (induction xs arbitrary: s) auto

lemma placed_requeueLeasesForWorker:
  "steady E \<Longrightarrow> placed E X W s \<Longrightarrow> placed E X W (requeueLeasesForWorker E reason w s)"
  unfolding requeueLeasesForWorker_def by (intro placed_fold placed_requeueLease placed_asked)

lemma placed_requeues:
  "steady E \<Longrightarrow> placed E X W s \<Longrightarrow> placed E X W (fold (requeueLease E reason) ts s)"
  by (intro placed_fold placed_requeueLease)

lemma placed_putWorker:
  assumes E: "steady E" and p: "placed E X W s"
  shows "placed E X W (snd (putWorker E w s))"
proof -
  let ?s = "snd (putWorker E w s)"
  note v = putWorker_view [OF steadyD(1) [OF E] placedD(1) [OF p], of w]
  have jobs: "jobs_of E (s_db ?s) = jobs_of E (s_db s)" using arg_cong [OF v(2), of mc_jobs] by simp
  have "located E ?s k \<longleftrightarrow> located E s k" for k
    by (simp add: located_def jobs leased_same [of ?s s] index_same [of ?s s])
  then show ?thesis using p v(1) jobs by (simp add: placed_def old_leases_def)
qed

lemma placed_reapOnce:
  assumes E: "steady E" and p: "placed E X W s"
  shows "placed E X W (reapOnce E s)"
proof -
  let ?now = "time_Now E s" and ?dead = "\<lambda>cs. map fst (filter (\<lambda>(_, w). w_State w = WORKER_STATE_DEAD) cs)"
  let ?changes = "reap_changes E ?now (asked s)"
  let ?s1 = "fold (\<lambda>(_, w) s. snd (putWorker E w s)) ?changes (asked (asked s))"
  have "placed E X W ?s1"
    by (rule placed_fold) (auto intro: placed_putWorker [OF E] p)
  then have "placed E X W (fold (requeueLeasesForWorker E ''worker missed heartbeats'') (?dead ?changes) ?s1)"
    by (rule placed_fold [rotated]) (rule placed_requeueLeasesForWorker [OF E])
  then show ?thesis
    unfolding reapOnce_def Let_def by (intro placed_requeues [OF E] placed_asked)
qed

lemma placed_complete:
  assumes E: "steady E" and p: "placed E {j_Id j} {} s" and j: "j_State j = JOB_STATE_SUCCEEDED"
  shows "placed E {} {} (promoteDependents E (j_Id j) (removeFromIndex (j_Id j) (Inc JobsSucceeded (snd (putJob E j s)))))"
proof (rule placed_promoteDependents [OF E])
  let ?k = "j_Id j" and ?s1 = "Inc JobsSucceeded (snd (putJob E j s))"
  have jobs: "jobs_of E (s_db ?s1) = (jobs_of E (s_db s))(?k \<mapsto> j)" using putJob_done(2) [OF E placedD(1) [OF p], of j] by simp
  have "placed E {} (fst ` set (index_of ?k s)) ?s1"
    by (rule placed_Inc [OF placed_put_success [OF E p _ j]]) simp
  then have p1: "placed E {} (fst ` set (index_of ?k s)) (removeFromIndex ?k ?s1)"
    by (rule placed_unindex) (use jobs j in simp)
  have "fst ` set (index_of ?k s) - {?k} \<subseteq> fst ` set (index_of ?k (removeFromIndex ?k ?s1))"
    using index_removeFromIndex [of ?k ?s1 ?k] by (simp add: index_same [of ?s1 s])
  then have "placed E {} (insert ?k (fst ` set (index_of ?k (removeFromIndex ?k ?s1)))) (removeFromIndex ?k ?s1)"
    by (intro placed_mono [OF p1]) auto
  then show "placed E {} (fst ` set (index_of ?k (removeFromIndex ?k ?s1))) (removeFromIndex ?k ?s1)"
    by (rule placed_drop_waiting) (use jobs j in \<open>simp add: waiting_def\<close>)
qed

lemma placed_report_stale:
  assumes E: "steady E" and p: "placed E {} {} s"
    and stale: "\<not> (\<exists>l job. getLease (rt_TaskId req) s = Some l \<and> jobs_of E (s_db s) (ls_jobID l) = Some job \<and>
      j_State job = JOB_STATE_RUNNING)"
  shows "placed E {} {} (snd (ReportTask E req s))"
proof (cases "getLease (rt_TaskId req) s")
  case None
  then show ?thesis using p placedD(2) [OF p] by (simp add: ReportTask_def requireLeader_def)
next
  case (Some l)
  let ?s = "removeLease (rt_TaskId req) s"
  have "requireLeader s = None" using placedD(2) [OF p] by (simp add: requireLeader_def)
  then have "snd (ReportTask E req s) = ?s"
    using stale Some get_job_abs [OF E p, of "ls_jobID l"] by (auto simp: ReportTask_def split: option.splits)
  moreover have "located E ?s (ls_jobID l)"
    using placedD(7) [OF p, of "ls_jobID l"] stale Some by (auto simp: located_def index_same [of ?s s])
  ultimately show ?thesis using placed_drop [OF placed_removeLease [OF p Some]] by simp
qed

lemma placed_report_success:
  assumes E: "steady E" and p: "placed E {} {} s" and l: "getLease (rt_TaskId req) s = Some l"
    and job: "jobs_of E (s_db s) (ls_jobID l) = Some job" "j_State job = JOB_STATE_RUNNING"
    and r: "rt_Result req = TASK_RESULT_SUCCEEDED"
  shows "placed E {} {} (snd (ReportTask E req s))"
proof -
  have leader: "requireLeader s = None" using placedD(2) [OF p] by (simp add: requireLeader_def)
  have get: "Store_GetJob E (s_db s) (ls_jobID l) = Inr job" using get_job_abs [OF E p] job by simp
  have id: "j_Id job = ls_jobID l" by (rule job_key [OF E p job(1)])
  let ?s = "removeLease (rt_TaskId req) (asked s)"
  have p1: "placed E (insert (j_Id job) {}) {} ?s" using placed_removeLease [OF placed_asked [OF p]] l id by (simp add: getLease_def)
  obtain b job' s1 where res: "maybeRescheduleCron E job (time_Now E s) ?s = (b, job', s1)" by (metis prod_cases3)
  note cron = placed_maybeRescheduleCron [OF E p1 res]
  show ?thesis
  proof (cases b)
    case True
    then show ?thesis using cron res l leader get job r by (simp add: ReportTask_def Let_def)
  next
    case False
    let ?job = "succeeded job (time_Now E s)"
    have sj: "j_Id ?job = j_Id job" "j_State ?job = JOB_STATE_SUCCEEDED" by (simp_all add: succeeded_def)
    note placed_complete [OF E _ sj(2), of ?s]
    then show ?thesis
      using False cron p1 res l leader get job r sj putJob_done(1) [OF E placedD(1) [OF p1], of ?job]
      by (auto simp: ReportTask_def Let_def split: prod.splits)
  qed
qed

lemma placed_report_failure:
  assumes E: "steady E" and p: "placed E {} {} s" and l: "getLease (rt_TaskId req) s = Some l"
    and job: "jobs_of E (s_db s) (ls_jobID l) = Some job" "j_State job = JOB_STATE_RUNNING"
    and r: "rt_Result req = TASK_RESULT_FAILED"
  shows "placed E {} {} (snd (ReportTask E req s))"
proof -
  have leader: "requireLeader s = None" using placedD(2) [OF p] by (simp add: requireLeader_def)
  have get: "Store_GetJob E (s_db s) (ls_jobID l) = Inr job" using get_job_abs [OF E p] job by simp
  have id: "j_Id job = ls_jobID l" by (rule job_key [OF E p job(1)])
  obtain e job' s' where res: "handleFailure E job (rt_Error req) (time_Now E s) (asked s) = (e, job', s')" by (metis prod_cases3)
  have p1: "placed E {} {} s'"
    by (rule placed_handleFailure [OF E _ res]) (use placed_mono [OF placed_asked [OF p]] in blast)
  have ends: "e = None" "\<exists>j. jobs_of E (s_db s') (ls_jobID l) = Some j \<and> j_State j \<noteq> JOB_STATE_RUNNING"
    using handleFailure_ends [OF E placedD(1) [OF placed_asked [OF p]] _ job(2) res] job(1) id by auto
  have l': "getLease (rt_TaskId req) s' = Some l" using l handleFailure_leases [OF res] by (simp add: getLease_def)
  have "located E (removeLease (rt_TaskId req) s') (ls_jobID l)"
    using placedD(7) [OF p1, of "ls_jobID l"] ends(2)
    by (auto simp: located_def index_same [of "removeLease (rt_TaskId req) s'" s'])
  then have "placed E {} {} (removeLease (rt_TaskId req) s')" by (rule placed_drop [OF placed_removeLease [OF p1 l']])
  then show ?thesis using ends(1) res l leader get job r by (simp add: ReportTask_def Let_def)
qed

lemma placed_ReportTask:
  assumes E: "steady E" and p: "placed E {} {} s"
  shows "placed E {} {} (snd (ReportTask E req s))"
proof (cases "\<exists>l job. getLease (rt_TaskId req) s = Some l \<and> jobs_of E (s_db s) (ls_jobID l) = Some job \<and>
    j_State job = JOB_STATE_RUNNING")
  case True
  then obtain l job where l: "getLease (rt_TaskId req) s = Some l" and job: "jobs_of E (s_db s) (ls_jobID l) = Some job"
    "j_State job = JOB_STATE_RUNNING" by blast
  have "requireLeader s = None" using placedD(2) [OF p] by (simp add: requireLeader_def)
  moreover have "Store_GetJob E (s_db s) (ls_jobID l) = Inr job" using get_job_abs [OF E p] job by simp
  ultimately show ?thesis
    using placed_report_success [OF E p l job] placed_report_failure [OF E p l job] l job(2) p
    by (cases "rt_Result req") (auto simp: ReportTask_def Let_def)
qed (rule placed_report_stale [OF E p])

section \<open>The services\<close>

lemma placed_poll_loop:
  assumes E: "steady E"
  shows "placed E {} {} s \<Longrightarrow> placed E {} {} (snd (poll_loop E w now n out s))"
proof (induction out s rule: poll_loop_induct [of n _ E w now])
  case (full out s)
  then show ?case by (simp add: poll_loop_full)
next
  case (empty out s q)
  then show ?case using placed_pop [OF empty(3,2)] by (simp add: poll_loop_empty)
next
  case (stale out s k q)
  have "located E (s\<lparr>s_queue := q\<rparr>) k"
    using placedD(7) [OF stale.prems, of k] stale(3) get_job_abs [OF E stale.prems, of k]
    by (auto simp: located_def stale_entry_def)
  then have "placed E {} {} (s\<lparr>s_queue := q\<rparr>)"
    using placed_drop [of E k "{}"] placed_pop [OF stale.prems stale(2)] by simp
  then show ?case using stale.IH poll_loop_stale [OF stale(1-3)] by simp
next
  case (refused out s k q job e s2)
  have "sane E (asked (s\<lparr>s_queue := q\<rparr>))"
    using placedD(1) [OF placed_asked [OF placed_pop [OF refused.prems refused(2)]]] .
  then show ?case using putJob_ok [OF E _ refused(5)] by simp
next
  case (leased out s k q job s2 l)
  let ?s = "asked (s\<lparr>s_queue := q\<rparr>)" and ?job = "running job w now"
  have p: "placed E {k} {} ?s" using placed_asked [OF placed_pop [OF leased.prems leased(2)]] by simp
  have job: "j_Id ?job = k" "j_State ?job = JOB_STATE_RUNNING"
    using get_job(2) [OF steadyD(1) [OF E] placedD(1) [OF leased.prems] leased(3)] by (simp_all add: running_def)
  have s2: "s2 = snd (putJob E ?job ?s)" using leased(5) by simp
  have l: "ls_jobID l = k" "ls_taskID l = ids_New E s ''task''" using leased(6) by (simp_all add: poll_lease_def)
  have p2: "placed E (insert (ls_jobID l) {}) {} s2" unfolding s2 using placed_putJob [OF E p, of ?job] job l by simp
  have "placed E {} {} (addLease l s2)"
    by (rule placed_addLease [OF E p2 l(2)])
      (use placedD(4) [OF leased.prems] putJob_done(2) [OF E placedD(1) [OF p], of ?job] job l
        in \<open>auto simp: s2 old_leases_def\<close>)
  then show ?case using leased.IH poll_loop_leased [OF leased(1-6)] by auto
qed

lemma placed_PollTask:
  assumes "steady E" "placed E {} {} s"
  shows "placed E {} {} (snd (PollTask E w n s))"
  using assms(2) placed_poll_loop [OF assms(1) placed_asked [OF assms(2)]]
  by (auto simp: PollTask_def split: option.splits prod.splits) (metis snd_conv)

lemma placed_placeNewJob:
  assumes E: "steady E" and p: "placed E {} {} s"
  shows "placed E {} {} (placeNewJob E job now s)"
proof -
  obtain ready f where sat: "depsSatisfied E job s = (ready, f)" by force
  let ?c = "job\<lparr>j_State := JOB_STATE_CANCELED, j_LastError := upstream_failed f, j_UpdatedAt := Some now\<rparr>"
  let ?w = "job\<lparr>j_State := JOB_STATE_PENDING, j_UpdatedAt := Some now\<rparr>"
  have out: "placed E (insert k {}) {} s" for k using placed_mono [OF p] by blast
  consider "f \<noteq> ''''" | "f = ''''" "\<not> ready" | "f = ''''" ready by blast
  then show ?thesis
  proof cases
    case 1
    have "placed E {} {} (snd (putJob E ?c s))" by (rule placed_put_terminal [OF E out]) simp
    then show ?thesis using 1 sat by (auto simp: placeNewJob_def Let_def)
  next
    case 2
    let ?s = "addDeps ?w (snd (putJob E ?w s))"
    note jobs = putJob_done(2) [OF E placedD(1) [OF p], of ?w]
    have "\<not> deps_met (jobs_of E (s_db s)) job" using depsSatisfied_unmet [OF E p, of job f] sat 2 by simp
    then have "\<not> deps_met ((jobs_of E (s_db s))(j_Id ?w \<mapsto> ?w)) ?w"
      unfolding deps_met_def by auto
    then have "placed E {j_Id ?w} {} (snd (putJob E ?w s))" using placed_putJob [OF E p, of ?w] by simp
    then have "placed E {j_Id ?w} {} ?s" by (rule placed_addDeps)
    moreover have "located E ?s (j_Id ?w)" using jobs addDeps_index(2) [of _ ?w "snd (putJob E ?w s)"] by (auto simp: located_def)
    ultimately have "placed E {} {} ?s" by (rule placed_drop)
    then show ?thesis using 2 sat by (simp add: placeNewJob_def Let_def)
  next
    case 3
    then show ?thesis using sat placed_makeReady [OF E out] by (simp add: placeNewJob_def)
  qed
qed

lemma placed_SubmitJob:
  assumes E: "steady E" and p: "placed E {} {} s"
  shows "placed E {} {} (snd (SubmitJob E req s))"
proof (cases "SubmitJob E req s")
  case (Pair r s')
  show ?thesis
  proof (cases r)
    case (Inl e)
    then show ?thesis using SubmitJob_refused(3) [of E req s e s'] Pair p by auto
  next
    case (Inr k)
    then have "SubmitJob E req s = (Inr k, s')" using Pair by simp
    then show ?thesis
    proof (rule SubmitJob_shape)
      fix j s1
      assume s1: "s1 = s \<or> s1 = asked s \<or> s1 = asked (asked s)"
        and s': "s' = Inc JobsSubmitted (placeNewJob E j (time_Now E s1) (asked s1))"
      have "placed E {} {} (asked s1)" using s1 p by auto
      then have "placed E {} {} (placeNewJob E j (time_Now E s1) (asked s1))" by (rule placed_placeNewJob [OF E])
      then show ?thesis using s' Pair by auto
    qed
  qed
qed

lemma CancelJob_shape:
  assumes E: "steady E" and p: "placed E {} {} s"
    and job: "requireLeader s = None" "loadJob E k s = Inr job" "\<not> terminal (j_State job)"
  obtains s2 r where "placed E {} {} s2" "snd (CancelJob E k s) = cancelCascade E (j_Id job) r s2"
    "jobs_of E (s_db s2) = (jobs_of E (s_db s))(j_Id job \<mapsto> job\<lparr>j_State := JOB_STATE_CANCELED, j_UpdatedAt := Some (time_Now E s)\<rparr>)"
proof -
  let ?job = "job\<lparr>j_State := JOB_STATE_CANCELED, j_UpdatedAt := Some (time_Now E s)\<rparr>"
  have pa: "placed E {j_Id ?job} {} (asked s)" using placed_mono [OF placed_asked [OF p]] by blast
  obtain s1 where put: "putJob E ?job (asked s) = (None, s1)"
    using putJob_done(1) [OF E placedD(1) [OF pa], of ?job] by (cases "putJob E ?job (asked s)") auto
  let ?s2 = "s1\<lparr>s_queue := snd (PQ_Remove (j_Id ?job) (s_queue s1))\<rparr>"
  have "placed E {} {} (snd (putJob E ?job (asked s)))" by (rule placed_put_terminal [OF E]) (use pa in auto)
  then have "placed E {} {} s1" by (simp only: put snd_conv)
  then have "placed E {j_Id ?job} {} ?s2" by (rule placed_remove)
  moreover note jobs = putJob_done(2) [OF E placedD(1) [OF pa], of ?job, unfolded put]
  then have "located E ?s2 (j_Id ?job)" by (intro located_idle) auto
  ultimately have p2: "placed E {} {} (Inc JobsCanceled ?s2)" by (rule placed_Inc [OF placed_drop])
  have "snd (CancelJob E k s) = cancelCascade E (j_Id ?job) (''upstream dependency '' @ j_Id ?job @ '' was canceled'') (Inc JobsCanceled ?s2)"
    using job put by (cases "j_State job") (simp_all add: CancelJob_def Let_def)
  then show thesis using that [OF p2] jobs by simp
qed

lemma placed_CancelJob:
  assumes E: "steady E" and p: "placed E {} {} s"
  shows "placed E {} {} (snd (CancelJob E k s))"
proof (cases "\<exists>job. requireLeader s = None \<and> loadJob E k s = Inr job \<and> \<not> terminal (j_State job)")
  case False
  then have "snd (CancelJob E k s) = s"
    by (auto simp: CancelJob_def split: option.splits sum.splits elim!: terminal.elims(2))
  then show ?thesis using p by simp
next
  case True
  then obtain job where job: "requireLeader s = None" "loadJob E k s = Inr job" "\<not> terminal (j_State job)" by blast
  then show ?thesis by (rule CancelJob_shape [OF E p]) (auto dest: placed_cancelCascade [OF E])
qed

lemma placed_workers:
  assumes E: "steady E" and p: "placed E {} {} s"
  shows "placed E {} {} (snd (RegisterWorker E w s))" "placed E {} {} (snd (Heartbeat E k ts s))"
proof -
  have put: "putWorker E w (asked s) = (r, s') \<Longrightarrow> placed E {} {} s'"
    "putWorker E w (asked (asked s)) = (r, s') \<Longrightarrow> placed E {} {} s'" for w r s'
    using placed_putWorker [OF E placed_asked [OF p], of w] placed_putWorker [OF E placed_asked [OF placed_asked [OF p]], of w]
    by simp_all
  show "placed E {} {} (snd (RegisterWorker E w s))"
    using p by (auto simp: RegisterWorker_def Let_def split: option.splits prod.splits if_splits intro: put)
  show "placed E {} {} (snd (Heartbeat E k ts s))"
    using p by (auto simp: Heartbeat_def Let_def split: option.splits prod.splits if_splits intro: put)
qed

section \<open>Taking over\<close>

lemma placed_rebuild_one:
  assumes E: "steady E" and p: "placed E (insert (j_Id j) X) UNIV s" and j: "jobs_of E (s_db s) (j_Id j) = Some j"
  shows "placed E X UNIV (snd (rebuild_one E now j s))"
proof -
  let ?k = "j_Id j" and ?s = "if terminal (j_State j) then s else addDeps j s"
  have ps: "placed E (insert ?k X) UNIV ?s" using p by auto
  have job: "jobs_of E (s_db ?s) ?k = Some j" using j by simp
  show ?thesis
  proof (cases "j_State j")
    case JOB_STATE_QUEUED
    let ?q = "?s\<lparr>s_queue := snd (PQ_Push ?k (j_Priority j) (AsTime (j_CreatedAt j)) (s_queue ?s))\<rparr>"
    have "located E ?q ?k"
      using job JOB_STATE_QUEUED pq_abs_Push [OF placedD(5) [OF ps]] by (auto simp: located_def)
    then have "placed E X UNIV ?q" by (rule placed_drop [OF placed_push [OF ps]])
    then show ?thesis
      using armEnqueue_locates [OF E ps job JOB_STATE_QUEUED] JOB_STATE_QUEUED by (simp add: rebuild_one_def Let_def)
  next
    case JOB_STATE_RUNNING
    obtain e j' s' where res: "handleFailure E j ''reclaimed orphaned task after leadership change'' now ?s = (e, j', s')"
      by (metis prod_cases3)
    then show ?thesis using placed_handleFailure [OF E ps res] JOB_STATE_RUNNING by (simp add: rebuild_one_def)
  next
    case JOB_STATE_PENDING
    have "located E ?s ?k" using job JOB_STATE_PENDING addDeps_index(2) [of _ j s] by (auto simp: located_def)
    then show ?thesis using placed_drop [OF ps] JOB_STATE_PENDING by (simp add: rebuild_one_def)
  qed (use ps j placed_drop [OF ps] in \<open>auto simp: rebuild_one_def located_def\<close>)
qed

lemma placed_rebuild_jobs:
  assumes E: "steady E"
  shows "\<lbrakk>distinct (map j_Id js); index_ids s \<subseteq> Y; Y \<inter> j_Id ` set js = {};
      \<forall>j \<in> set js. jobs_of E (s_db s) (j_Id j) = Some j; placed E (j_Id ` set js \<union> X) UNIV s\<rbrakk> \<Longrightarrow>
    placed E X UNIV (snd (rebuild_jobs E now js s))"
proof (induction js arbitrary: s Y)
  case (Cons j js)
  let ?s = "snd (rebuild_one E now j s)" and ?Y = "insert (j_Id j) Y"
  have s: "sane E s" by (rule placedD(1) [OF Cons.prems(5)])
  have t: "touches E ?Y s ?s" using Cons.prems(2) by (intro touches_rebuild_one [OF steadyD(1) [OF E] _ _ s]) auto
  have "placed E X UNIV (snd (rebuild_jobs E now js ?s))"
  proof (rule Cons.IH)
    show "\<forall>i \<in> set js. jobs_of E (s_db ?s) (j_Id i) = Some i"
    proof
      fix i assume i: "i \<in> set js"
      then have "j_Id i \<notin> ?Y" using Cons.prems(1,3) by (auto simp: image_iff)
      then show "jobs_of E (s_db ?s) (j_Id i) = Some i" using t s Cons.prems(4) i by (simp add: touches_def)
    qed
    show "index_ids ?s \<subseteq> ?Y" using Cons.prems(2) by (intro touches_index [OF t]) auto
    show "placed E (j_Id ` set js \<union> X) UNIV ?s"
      using Cons.prems(4,5) by (intro placed_rebuild_one [OF E]) simp_all
  qed (use Cons.prems(1,3) in auto)
  then show ?case by (simp add: rebuild_jobs_snd del: rebuild_jobs.simps)
qed simp

lemma rebuild_jobs_pending:
  assumes "j_State j = JOB_STATE_PENDING"
  shows "j \<in> set js \<Longrightarrow> j \<in> set (fst (rebuild_jobs E now js s))"
proof (induction js arbitrary: s)
  case (Cons i js)
  have "fst (rebuild_jobs E now (i # js) s) =
      fst (rebuild_one E now i s) # fst (rebuild_jobs E now js (snd (rebuild_one E now i s)))"
    by (simp add: Let_def split_beta)
  moreover have "fst (rebuild_one E now j s) = j" using assms by (simp add: rebuild_one_def)
  ultimately show ?case using Cons by auto
qed simp

lemma pending_from:
  assumes "machine_steps M M'" "mc_jobs M' k = Some j" "j_State j = JOB_STATE_PENDING"
  shows "mc_jobs M k = Some j"
  using assms
proof (induction rule: rtranclp_induct)
  case (step N N')
  have "mc_jobs N k = Some j" using step(2,4,5) by (auto elim!: machine_stepE job_stepE split: if_splits)
  then show ?case using step(3,5) by simp
qed simp

lemma placed_rebuildSchedulingState:
  assumes E: "steady E" and s: "sane E s" "Node_IsLeader (s_node s)" "\<not> s_closed s"
  shows "placed E {} {} (rebuildSchedulingState E s)"
proof -
  let ?c = "asked (clearSchedulingState s)" and ?now = "time_Now E (clearSchedulingState s)"
  have c: "s_db ?c = s_db s" "index_ids ?c = {}" "sane E ?c" "s_leases ?c = []" "s_node ?c = s_node s" "s_closed ?c = s_closed s"
    using s(1) by (simp_all add: clearSchedulingState_def index_ids_def sane_def)
  obtain js where js: "Store_ListJobs E (s_db s) = Inr js" "distinct (map j_Id js)"
    "\<And>k v. jobs_of E (s_db s) k = Some v \<longleftrightarrow> v \<in> set js \<and> j_Id v = k"
    using jobs.listE [OF steadyD(1) [OF E], of "s_db s"] s(1) by (metis sane_def)
  obtain js' s1 where r: "rebuild_jobs E ?now js ?c = (js', s1)" by force
  have "jobs_of E (s_db s) k = None" if "k \<notin> j_Id ` set js" for k using js(3) that by (metis image_eqI not_None_eq)
  then have "placed E (j_Id ` set js \<union> {}) UNIV ?c" using c s by (auto simp: placed_def old_leases_def located_def)
  then have "placed E {} UNIV s1"
    using placed_rebuild_jobs [OF E js(2), of ?c "{}" "{}" ?now] c js(3) r by simp
  moreover have "waiting (jobs_of E (s_db s1)) k" if "k \<notin> set (map j_Id (filter (\<lambda>j. j_State j = JOB_STATE_PENDING) js'))" for k
  proof -
    have "refines E ?c (snd (rebuild_jobs E ?now js ?c))"
      using js c by (intro refines_rebuild_jobs [OF steadyD(1) [OF E], where X = "{}"]) auto
    then have "machine_steps (view E ?c) (view E s1)" using r c(3) by (simp add: refines_def)
    then have "jobs_of E (s_db s) k = Some j" if "jobs_of E (s_db s1) k = Some j" "j_State j = JOB_STATE_PENDING" for j
      using pending_from [of "view E ?c" "view E s1" k j] that c(1) by simp
    then show ?thesis using that js(3) rebuild_jobs_pending [of _ js E ?now ?c] r by (force simp: waiting_def)
  qed
  ultimately have "placed E {} (set (map j_Id (filter (\<lambda>j. j_State j = JOB_STATE_PENDING) js')) \<union> {}) s1"
    by (simp add: placed_def)
  note placed_promotions [OF E this]
  moreover have "fold (tryPromote E) (map j_Id (filter (\<lambda>j. j_State j = JOB_STATE_PENDING) js')) s1 =
      fold (\<lambda>j s. if j_State j = JOB_STATE_PENDING then tryPromote E (j_Id j) s else s) js' s1"
    by (induction js' arbitrary: s1) auto
  ultimately show ?thesis using js(1) r c(1) by (simp add: rebuildSchedulingState_def Let_def)
qed

lemma placed_onBecomeLeader:
  assumes E: "steady E" and s: "sane E s" "Node_IsLeader (s_node s)" "\<not> s_closed s"
  shows "placed E {} {} (onBecomeLeader E t s)"
proof -
  let ?s = "rebuildSchedulingState E s"
  have "placed E {} {} ?s" by (rule placed_rebuildSchedulingState [OF assms])
  then show ?thesis
    unfolding onBecomeLeader_def by (rule placed_same) (simp_all add: seedReplication_def leased_def getLease_def index_of_def Let_def)
qed

lemma placed_work_step:
  assumes E: "steady E" and step: "work_step E l s s'" and p: "placed E {} {} s"
  shows "placed E {} {} s'"
  using step
proof cases
  case (accept job k)
  then show ?thesis using placed_SubmitJob [OF E p, of "Some job"] by simp
next
  case (refuse req e)
  then show ?thesis using placed_SubmitJob [OF E p, of req] by simp
next
  case (cancel k r)
  then show ?thesis using placed_CancelJob [OF E p, of k] by simp
next
  case (register w r)
  then show ?thesis using placed_workers(1) [OF E p, of w] by simp
next
  case (heartbeat w ts r)
  then show ?thesis using placed_workers(2) [OF E p, of w ts] by simp
next
  case (poll w n r)
  then show ?thesis using placed_PollTask [OF E p, of w n] by simp
next
  case (report req r)
  then show ?thesis using placed_ReportTask [OF E p, of req] by simp
next
  case (timer k)
  then show ?thesis using placed_timerFired [OF E p] by simp
next
  case reaper
  then show ?thesis using placed_reapOnce [OF E p] p by (simp add: reaperTick_def)
qed

lemma placed_work_run: "work_run E ls s s' \<Longrightarrow> steady E \<Longrightarrow> placed E {} {} s \<Longrightarrow> placed E {} {} s'"
  by (induction rule: work_run.induct) (auto intro: placed_work_step)

end
