(* ===== verification/Sample.thy ===== *)
theory Sample
  imports Placement
begin

text \<open>
  A concrete environment and concrete servers: the in-memory store of \<open>Mem_Store\<close> with a clock that
  counts the readings, UUIDs that are all different, map iterations in insertion order, a cron parser
  that knows one schedule, and a random number of one half. The witnesses of the development evaluate
  the handlers over it.
\<close>

definition sample_env :: "mem env" where
  "sample_env = bolt.extend mem_bolt
     \<lparr>env_now = (\<lambda>n. 1000 + int n), env_float = (\<lambda>_. Fin (1 / 2)), env_int63 = (\<lambda>_. 0),
      env_uuid = (\<lambda>n. replicate n (CHR ''u'')), env_order = (\<lambda>_ ks. ks),
      env_cron = (\<lambda>e. if e = ''@hourly'' then Inr (\<lambda>t. t + 60 * minute) else Inl ''bad''),
      env_unrep = (\<lambda>_. 0), env_listen = (\<lambda>_. None)\<rparr>"

lemma sample_env_simps [simp]:
  "bolt_Open sample_env = bolt_Open mem_bolt" "bolt_Get sample_env = bolt_Get mem_bolt"
  "bolt_ForEach sample_env = bolt_ForEach mem_bolt" "bolt_KeyN sample_env = bolt_KeyN mem_bolt"
  "bolt_Update sample_env = bolt_Update mem_bolt"
  "marshal_Job sample_env = marshal_Job mem_bolt" "unmarshal_Job sample_env = unmarshal_Job mem_bolt"
  "marshal_Worker sample_env = marshal_Worker mem_bolt" "unmarshal_Worker sample_env = unmarshal_Worker mem_bolt"
  "env_now sample_env n = 1000 + int n" "env_float sample_env n = Fin (1 / 2)" "env_int63 sample_env n = 0"
  "env_uuid sample_env n = replicate n (CHR ''u'')" "env_order sample_env n ks = ks"
  "env_cron sample_env e = (if e = ''@hourly'' then Inr (\<lambda>t. t + 60 * minute) else Inl ''bad'')"
  "env_unrep sample_env x = 0" "env_listen sample_env a = None"
  by (simp_all add: sample_env_def bolt.extend_def mem_bolt_def)


lemma sample_same_store:
  "store_laws sample_env = store_laws mem_bolt" "store_wf sample_env = store_wf mem_bolt"
  "jobs_of sample_env = jobs_of mem_bolt" "workers_of sample_env = workers_of mem_bolt" "dead_of sample_env = dead_of mem_bolt"
proof -
  have r: "reads sample_env = reads mem_bolt" by (intro ext) (simp add: reads_def)
  show "store_laws sample_env = store_laws mem_bolt"
    by (simp add: store_laws_def bolt_laws_def codec_laws_def r)
  show "store_wf sample_env = store_wf mem_bolt" by (intro ext) (simp add: store_wf_def r)
  show "jobs_of sample_env = jobs_of mem_bolt" "workers_of sample_env = workers_of mem_bolt"
    "dead_of sample_env = dead_of mem_bolt"
    by (intro ext; simp add: jobs_of_def workers_of_def dead_of_def bucket_abs_def)+
qed

lemma store_laws_sample [simp]: "store_laws sample_env"
  by (simp add: sample_same_store store_laws_mem_bolt)

lemma no_faults_sample [simp]: "no_faults sample_env"
  by (simp add: no_faults_def)

lemma steady_sample [simp]: "steady sample_env"
proof -
  have "inj (env_uuid sample_env)" by (rule injI) (metis length_replicate sample_env_simps(13))
  then show ?thesis by (simp add: steady_def)
qed

lemma sample_store_simps [simp]:
  "Store_GetJob sample_env db k = (case map_of (db bucketJobs) k of None \<Rightarrow> Inl ErrNotFound | Some bs \<Rightarrow> Inr (decode bs))"
  "Store_PutJob sample_env db j = (None, db(bucketJobs := AList.update (j_Id j) (encode j) (db bucketJobs)))"
  "Store_PutWorker sample_env db w = (None, db(bucketWorkers := AList.update (w_Id w) (encode w) (db bucketWorkers)))"
  "Store_PutDeadLetter sample_env db j = (None, db(bucketDeadLetter := AList.update (j_Id j) (encode j) (db bucketDeadLetter)))"
  by (simp_all add: Store_GetJob_def get_value_def Store_PutJob_def Store_PutWorker_def Store_PutDeadLetter_def put_value_def
      wrap_update_def split: option.splits)

lemma jobs_of_sample: "jobs_of sample_env db k = map_option decode (map_of (db bucketJobs) k)"
  by (simp add: jobs_of_def bucket_abs_def split: option.splits)

definition sample_cfg :: Config where
  "sample_cfg = \<lparr>cfg_NodeID = ''n1'', cfg_ListenAddr = '':7070'', cfg_DataDir = ''./data'',
     cfg_Members = [\<lparr>m_ID = ''n1'', m_Address = '':7070''\<rparr>], cfg_HeartbeatTimeout = 15 * second,
     cfg_LeaseTTL = 30 * second, cfg_HeartbeatInterval = 250 * millisecond,
     cfg_ElectionTimeoutMin = 800 * millisecond, cfg_ElectionTimeoutMax = 1600 * millisecond,
     cfg_ReaperInterval = 3 * second, cfg_MetricsAddr = ''''\<rparr>"

definition sample_node :: "Role \<Rightarrow> node" where
  "sample_node r = \<lparr>n_cfg = \<lparr>nc_NodeID = ''n1'', nc_Members = [''n1''], nc_ElectionTimeoutMin = 800 * millisecond,
     nc_ElectionTimeoutMax = 1600 * millisecond\<rparr>, n_role = r, n_currentTerm = 1, n_votedFor = ''n1'',
     n_leaderID = ''n1'', n_electionDeadline = 0\<rparr>"

text \<open>A leader with an empty scheduling state, and the jobs and workers it holds.\<close>

definition sample_server :: "Role \<Rightarrow> Job list \<Rightarrow> WorkerInfo list \<Rightarrow> mem server" where
  "sample_server r js ws =
     \<lparr>s_cfg = sample_cfg, s_members = [(''n1'', '':7070'')], s_selfAddr = '':7070'', s_db = mem_of js ws,
      s_queue = PQ_New, s_node = sample_node r, s_workers = map (\<lambda>w. (w_Id w, w)) ws, s_leases = [],
      s_retryTimers = [], s_replLog = [], s_replSeq = 0, s_peerAcked = [], s_revIndex = [],
      s_closed = False, s_pending = [], s_counters = [], s_tick = 0\<rparr>"

lemma sample_server_simps [simp]:
  "s_cfg (sample_server r js ws) = sample_cfg" "s_db (sample_server r js ws) = mem_of js ws"
  "s_queue (sample_server r js ws) = PQ_New" "s_node (sample_server r js ws) = sample_node r"
  "s_workers (sample_server r js ws) = map (\<lambda>w. (w_Id w, w)) ws" "s_leases (sample_server r js ws) = []"
  "s_retryTimers (sample_server r js ws) = []" "s_replLog (sample_server r js ws) = []"
  "s_replSeq (sample_server r js ws) = 0" "s_peerAcked (sample_server r js ws) = []"
  "s_revIndex (sample_server r js ws) = []" "s_closed (sample_server r js ws) = False"
  "s_pending (sample_server r js ws) = []" "s_tick (sample_server r js ws) = 0"
  "s_members (sample_server r js ws) = [(''n1'', '':7070'')]" "s_selfAddr (sample_server r js ws) = '':7070''"
  "s_counters (sample_server r js ws) = []" "n_role (sample_node r) = r"
  by (simp_all add: sample_server_def sample_node_def)

lemma sane_sample [simp]: "sane sample_env (sample_server r js ws)"
  by (simp add: sane_def sample_same_store store_wf_mem_of pq_inv_New)

lemma jobs_of_sample_server [simp]:
  "jobs_of sample_env (mem_of js ws) k = map_of (map (\<lambda>j. (j_Id j, j)) js) k"
  by (simp add: sample_same_store jobs_of_mem_of)

lemma sample_leader [simp]: "requireLeader (sample_server Leader js ws) = None"
  by (simp add: requireLeader_def Node_IsLeader_def)

definition sample_worker :: "string \<Rightarrow> WorkerInfo" where
  "sample_worker k = \<lparr>w_Id = k, w_Address = '':9000'', w_Capacity = 4, w_Labels = [], w_State = WORKER_STATE_ALIVE,
     w_LastHeartbeat = Some 1000, w_RunningTasks = 0\<rparr>"


lemma sample_job_simps [simp]:
  "j_Id (sample_job k) = k" "j_DependsOn (sample_job k) = []" "j_Schedule (sample_job k) = None"
  "j_RetryPolicy (sample_job k) = None" "j_State (sample_job k) = JOB_STATE_QUEUED" "j_Attempt (sample_job k) = 0"
  "j_Spec (sample_job k) = Some \<lparr>ts_Command = ''echo'', ts_Args = [], ts_Env = [], ts_Timeout = None, ts_Payload = ''''\<rparr>"
  by (simp_all add: sample_job_def)

text \<open>Submitting a job without dependencies is accepted.\<close>

lemma sample_submit:
  assumes "k \<noteq> ''''"
  shows "fst (SubmitJob sample_env (Some (sample_job k)) (sample_server Leader js ws)) = Inr k"
  using assms by (simp add: SubmitJob_def Let_def)

lemma sample_step:
  assumes "k \<noteq> ''''"
  shows "work_step sample_env (Some k) (sample_server Leader js ws)
    (snd (SubmitJob sample_env (Some (sample_job k)) (sample_server Leader js ws)))"
proof (rule work_step.accept [of _ "sample_job k"])
  show "SubmitJob sample_env (Some (sample_job k)) (sample_server Leader js ws) =
      (Inr k, snd (SubmitJob sample_env (Some (sample_job k)) (sample_server Leader js ws)))"
    by (rule prod_eqI) (simp_all only: sample_submit [OF assms] fst_conv snd_conv)
qed (simp add: wire_policy_def)

lemma sample_work:
  assumes "k \<noteq> ''''"
  shows "work_run sample_env [Some k] (sample_server Leader js ws)
    (snd (SubmitJob sample_env (Some (sample_job k)) (sample_server Leader js ws)))"
  using work_run.more [OF work_run.start sample_step [OF assms]] by (simp only: append_Nil)


lemma sample_submit_stored:
  assumes "k \<noteq> ''''"
  shows "jobs_of sample_env (s_db (snd (SubmitJob sample_env (Some (sample_job k)) (sample_server Leader js ws)))) k \<noteq> None"
  using assms
  by (simp add: SubmitJob_def placeNewJob_def depsSatisfied_def makeReady_def putJob_def armEnqueue_def jobs_of_sample Let_def)

text \<open>Taking over leaves a QUEUED job as it is.\<close>

lemma sample_takeover:
  "jobs_of sample_env (s_db (onBecomeLeader sample_env 1 (sample_server Leader [sample_job ''a''] []))) ''a'' = Some (sample_job ''a'')"
  by (simp add: onBecomeLeader_def seedReplication_def rebuildSchedulingState_def clearSchedulingState_def rebuild_one_def addDeps_def
      Store_ListJobs_def list_values_def mem_of_def mem_entries_def Let_def jobs_of_sample)

end
