(* ===== verification/Election_Safety.thy ===== *)
theory Election_Safety
  imports Election_System
begin

text \<open>
  Safety of the election: a system of nodes that exchange vote requests, votes and heartbeats
  over a network that delays, loses, reorders and repeats messages, with crashes and restarts
  from the durable state. The steps of the system are the methods of \<open>Election\<close>, interleaved at
  the granularity of the node's mutex.

  The locale \<open>durable_state\<close> states what the election needs of its \<open>StateStore\<close>;
  \<open>electionStore\<close>, the adapter of \<open>internal/scheduler/server.go\<close> over BoltDB, interprets it. The
  locale \<open>quorum_system\<close> states that two quorums meet; majorities interpret it.
\<close>

section \<open>Single calls\<close>

text \<open>One method call on a node: the term never decreases and a vote is not changed within it.\<close>

definition vote_step :: "node \<Rightarrow> node \<Rightarrow> bool" where
  "vote_step n n' \<longleftrightarrow>
     n_cfg n' = n_cfg n \<and> n_currentTerm n \<le> n_currentTerm n' \<and>
     (n_currentTerm n' = n_currentTerm n \<longrightarrow> n_votedFor n = '''' \<or> n_votedFor n' = n_votedFor n)"

lemma vote_step_refl [simp]: "vote_step n n"
  by (simp add: vote_step_def)

lemma reset_fields [simp]:
  "n_cfg (resetElectionTimerLocked dr n) = n_cfg n"
  "n_role (resetElectionTimerLocked dr n) = n_role n"
  "n_currentTerm (resetElectionTimerLocked dr n) = n_currentTerm n"
  "n_votedFor (resetElectionTimerLocked dr n) = n_votedFor n"
  "n_leaderID (resetElectionTimerLocked dr n) = n_leaderID n"
  by (simp_all add: resetElectionTimerLocked_def Let_def)

lemma becomeFollowerLocked_fields:
  assumes "becomeFollowerLocked ss dr term n d = (cbs, n', d')"
  shows "n_cfg n' = n_cfg n" "n_role n' = Follower" "n_currentTerm n' = max term (n_currentTerm n)"
    "n_votedFor n' = (if n_currentTerm n < term then '''' else n_votedFor n)"
    "d' = (if n_currentTerm n < term then snd (ss_SaveState ss d term '''') else d)"
    "n_leaderID n' = n_leaderID n"
    "cbs = (if n_role n = Leader then [OnStepDown (n_currentTerm n')] else [])"
  using assms
  by (auto simp: becomeFollowerLocked_def persistLocked_def Let_def split: if_splits)

text \<open>
  What the election needs of a durable state: a successful \<open>SaveState\<close> is what the next
  \<open>LoadState\<close> answers. \<open>laws\<close> and \<open>wf\<close> delimit the stores and states the provider speaks about.
\<close>

locale durable_state =
  fixes laws :: "'e \<Rightarrow> bool" and wf :: "'e \<Rightarrow> 'd \<Rightarrow> bool" and store :: "'e \<Rightarrow> 'd state_store"
  assumes save_wf: "laws e \<Longrightarrow> wf e d \<Longrightarrow> wf e (snd (ss_SaveState (store e) d t v))"
    and load_save: "laws e \<Longrightarrow> wf e d \<Longrightarrow> ss_SaveState (store e) d t v = (None, d') \<Longrightarrow>
      min_int64 \<le> t \<Longrightarrow> t \<le> max_int64 \<Longrightarrow> ss_LoadState (store e) d' = Some (Inr (t, v))"
begin

text \<open>The durable state agrees with the node.\<close>

definition synced :: "'e \<Rightarrow> node \<Rightarrow> 'd \<Rightarrow> bool" where
  "synced e n d \<longleftrightarrow> wf e d \<and> ss_LoadState (store e) d = Some (Inr (n_currentTerm n, n_votedFor n)) \<and>
     0 \<le> n_currentTerm n \<and> n_currentTerm n \<le> max_int64"

lemma synced_save:
  assumes "laws e" "reliable (store e)" "wf e d" "0 \<le> t" "t \<le> max_int64"
    "n_currentTerm n = t" "n_votedFor n = v"
  shows "synced e n (snd (ss_SaveState (store e) d t v))"
  using assms save_wf [of e d t v] load_save [of e d t v "snd (ss_SaveState (store e) d t v)"]
  by (simp add: synced_def reliable_def min_int64_def prod_eq_iff)

lemma synced_cong:
  "synced e n d \<Longrightarrow> n_currentTerm n' = n_currentTerm n \<Longrightarrow> n_votedFor n' = n_votedFor n \<Longrightarrow> synced e n' d"
  by (simp add: synced_def)

lemma becomeFollowerLocked_synced:
  assumes "laws e" "reliable (store e)" "synced e n d" "term \<le> max_int64"
    and "becomeFollowerLocked (store e) dr term n d = (cbs, n', d')"
  shows "synced e n' d'" and "vote_step n n'"
  using becomeFollowerLocked_fields [OF assms(5)] synced_save [OF assms(1,2), of d "term" n' "''''"] assms(3,4)
  by (auto simp: synced_def vote_step_def)

lemma HandleVote_synced:
  assumes laws: "laws e" "reliable (store e)" and s: "synced e n d" and t: "term \<le> max_int64"
    and vote: "HandleVote (store e) dr1 dr2 term c n d = ((g, ct), cbs, n', d')"
  shows "synced e n' d'" "vote_step n n'" "ct = n_currentTerm n'"
    "g \<Longrightarrow> n_currentTerm n' = term \<and> n_votedFor n' = c"
    "n_role n' = n_role n \<or> n_role n' = Follower"
    "n_role n' = Leader \<Longrightarrow> n_currentTerm n' = n_currentTerm n"
proof -
  consider (stale) "term < n_currentTerm n"
    | (same) "term = n_currentTerm n" | (newer) "n_currentTerm n < term" by linarith
  then have "synced e n' d' \<and> vote_step n n' \<and> ct = n_currentTerm n' \<and>
    (g \<longrightarrow> n_currentTerm n' = term \<and> n_votedFor n' = c) \<and>
    (n_role n' = n_role n \<or> n_role n' = Follower) \<and>
    (n_role n' = Leader \<longrightarrow> n_currentTerm n' = n_currentTerm n)"
  proof cases
    case stale
    then show ?thesis using vote s by (auto simp: HandleVote_def)
  next
    case same
    then show ?thesis
      using vote s synced_save [OF laws, of d "term" n' c]
      by (auto simp: HandleVote_def persistLocked_def vote_step_def synced_def Let_def split: if_splits)
  next
    case newer
    obtain cbs1 n1 d1 where bf: "becomeFollowerLocked (store e) dr1 term n d = (cbs1, n1, d1)"
      by (cases "becomeFollowerLocked (store e) dr1 term n d")
    note f = becomeFollowerLocked_fields [OF bf]
    have s1: "synced e n1 d1" by (rule becomeFollowerLocked_synced [OF laws s t bf])
    have t1: "n_currentTerm n1 = term" "n_votedFor n1 = ''''" using newer f by auto
    have res: "n' = resetElectionTimerLocked dr2 (n1\<lparr>n_votedFor := c\<rparr>)" "ct = term"
      "d' = snd (ss_SaveState (store e) d1 term c)"
      using vote newer bf t1 by (auto simp: HandleVote_def persistLocked_def Let_def)
    have "synced e n' d'"
      using s1 synced_save [OF laws, of d1 "term" n' c] t1 by (simp add: res synced_def)
    then show ?thesis using newer res f t1 by (auto simp: vote_step_def)
  qed
  then show "synced e n' d'" "vote_step n n'" "ct = n_currentTerm n'"
    "g \<Longrightarrow> n_currentTerm n' = term \<and> n_votedFor n' = c"
    "n_role n' = n_role n \<or> n_role n' = Follower"
    "n_role n' = Leader \<Longrightarrow> n_currentTerm n' = n_currentTerm n" by blast+
qed

lemma ObserveLeader_synced:
  assumes laws: "laws e" "reliable (store e)" and s: "synced e n d" and t: "term \<le> max_int64"
    and obs: "ObserveLeader (store e) dr1 dr2 term l n d = ((acc, ct), cbs, n', d')"
  shows "synced e n' d'" "vote_step n n'" "ct = n_currentTerm n'"
    "n_role n' = n_role n \<or> n_role n' = Follower"
    "n_role n' = Leader \<Longrightarrow> n_currentTerm n' = n_currentTerm n"
proof -
  consider (stale) "term < n_currentTerm n"
    | (same) "term = n_currentTerm n" | (newer) "n_currentTerm n < term" by linarith
  then have "synced e n' d' \<and> vote_step n n' \<and> ct = n_currentTerm n' \<and>
    (n_role n' = n_role n \<or> n_role n' = Follower) \<and>
    (n_role n' = Leader \<longrightarrow> n_currentTerm n' = n_currentTerm n)"
  proof cases
    case newer
    obtain cbs1 n1 d1 where bf: "becomeFollowerLocked (store e) dr1 term n d = (cbs1, n1, d1)"
      by (cases "becomeFollowerLocked (store e) dr1 term n d")
    note f = becomeFollowerLocked_fields [OF bf] becomeFollowerLocked_synced [OF laws s t bf]
    have res: "n' = resetElectionTimerLocked dr2 (n1\<lparr>n_leaderID := l\<rparr>)" "d' = d1" "ct = n_currentTerm n'"
      using obs newer bf by (auto simp: ObserveLeader_def Let_def)
    show ?thesis using f res by (auto simp: vote_step_def intro: synced_cong)
  qed (use obs s in \<open>auto simp: ObserveLeader_def synced_def Let_def vote_step_def split: if_splits\<close>)
  then show "synced e n' d'" "vote_step n n'" "ct = n_currentTerm n'"
    "n_role n' = n_role n \<or> n_role n' = Follower"
    "n_role n' = Leader \<Longrightarrow> n_currentTerm n' = n_currentTerm n" by blast+
qed

lemma MaybeStepDown_synced:
  assumes "laws e" "reliable (store e)" "synced e n d" "pt \<le> max_int64"
    and "MaybeStepDown (store e) dr pt n d = (cbs, n', d')"
  shows "synced e n' d'" "vote_step n n'" "n_role n' = n_role n \<or> n_role n' = Follower"
    "n_role n' = Leader \<Longrightarrow> n_currentTerm n' = n_currentTerm n"
proof -
  have "synced e n' d' \<and> vote_step n n' \<and> (n_role n' = n_role n \<or> n_role n' = Follower) \<and>
    (n_role n' = Leader \<longrightarrow> n_currentTerm n' = n_currentTerm n)"
  proof (cases "n_currentTerm n < pt")
    case True
    then have bf: "becomeFollowerLocked (store e) dr pt n d = (cbs, n', d')"
      using assms(5) by (simp add: MaybeStepDown_def)
    show ?thesis
      using becomeFollowerLocked_fields(2) [OF bf] becomeFollowerLocked_synced [OF assms(1-4) bf] by simp
  qed (use assms(3,5) in \<open>simp add: MaybeStepDown_def\<close>)
  then show "synced e n' d'" "vote_step n n'" "n_role n' = n_role n \<or> n_role n' = Follower"
    "n_role n' = Leader \<Longrightarrow> n_currentTerm n' = n_currentTerm n" by blast+
qed

lemma startElection_synced:
  assumes "laws e" "reliable (store e)" "synced e n d" "n_currentTerm n < max_int64"
    and "startElection (store e) dr n d = (b, n', d')"
  shows "synced e n' d'" "vote_step n n'" "n_role n' = Candidate"
    "n_currentTerm n' = n_currentTerm n + 1" "n_votedFor n' = nc_NodeID (n_cfg n)"
    "b = \<lparr>b_term = n_currentTerm n', b_votes = 1, b_needed = majority n', b_peers = peers n'\<rparr>"
proof -
  have t: "i64 (n_currentTerm n + 1) = n_currentTerm n + 1"
    using assms(3,4) by (intro i64_id) (simp_all add: synced_def max_int64_def)
  show "synced e n' d'" "vote_step n n'" "n_role n' = Candidate"
    "n_currentTerm n' = n_currentTerm n + 1" "n_votedFor n' = nc_NodeID (n_cfg n)"
    "b = \<lparr>b_term = n_currentTerm n', b_votes = 1, b_needed = majority n', b_peers = peers n'\<rparr>"
    using assms(3-5) synced_save [OF assms(1,2), of d "n_currentTerm n + 1" n' "nc_NodeID (n_cfg n)"]
    by (auto simp: startElection_def persistLocked_def t vote_step_def synced_def Let_def)
qed

lemma receiveVote_synced:
  assumes laws: "laws e" "reliable (store e)" and s: "synced e n d" and t: "vr_ok r \<longrightarrow> vr_peerTerm r \<le> max_int64"
    and rv: "receiveVote (store e) dr p r b n d = (b', cbs, n', d')"
  shows "synced e n' d'" "vote_step n n'"
    "n_role n' = Leader \<Longrightarrow> n_role n \<noteq> Leader \<Longrightarrow>
       b' = None \<and> vr_ok r \<and> vr_granted r \<and> n_role n = Candidate \<and> n_currentTerm n = b_term b \<and>
       n_currentTerm n' = b_term b \<and> b_needed b \<le> b_votes b + 1"
    "b' = Some b2 \<Longrightarrow> n' = n \<and>
       (b2 = b\<lparr>b_peers := remove1 p (b_peers b)\<rparr> \<or>
        vr_ok r \<and> vr_granted r \<and> b2 = b\<lparr>b_peers := remove1 p (b_peers b), b_votes := b_votes b + 1\<rparr>)"
proof -
  let ?b = "b\<lparr>b_peers := remove1 p (b_peers b)\<rparr>"
  have "synced e n' d' \<and> vote_step n n' \<and>
    (n_role n' = Leader \<longrightarrow> n_role n \<noteq> Leader \<longrightarrow>
       b' = None \<and> vr_ok r \<and> vr_granted r \<and> n_role n = Candidate \<and> n_currentTerm n = b_term b \<and>
       n_currentTerm n' = b_term b \<and> b_needed b \<le> b_votes b + 1) \<and>
    (b' = Some b2 \<longrightarrow> n' = n \<and>
       (b2 = ?b \<or> vr_ok r \<and> vr_granted r \<and> b2 = ?b\<lparr>b_votes := b_votes b + 1\<rparr>))"
  proof (cases "vr_ok r \<and> n_role n = Candidate \<and> n_currentTerm n = b_term b \<and> n_currentTerm n < vr_peerTerm r")
    case True
    obtain cbs1 n1 d1 where bf: "becomeFollowerLocked (store e) dr (vr_peerTerm r) n d = (cbs1, n1, d1)"
      by (cases "becomeFollowerLocked (store e) dr (vr_peerTerm r) n d")
    have "n' = n1" "d' = d1" "b' = None" using rv True bf by (auto simp: receiveVote_def Let_def)
    then show ?thesis
      using becomeFollowerLocked_synced [OF laws s _ bf] becomeFollowerLocked_fields(2) [OF bf] t True by simp
  next
    case False
    then show ?thesis using rv s
      by (auto simp: receiveVote_def becomeLeaderLocked_def next_turn_def synced_def vote_step_def Let_def
          split: if_splits)
  qed
  then show "synced e n' d'" "vote_step n n'"
    "n_role n' = Leader \<Longrightarrow> n_role n \<noteq> Leader \<Longrightarrow>
       b' = None \<and> vr_ok r \<and> vr_granted r \<and> n_role n = Candidate \<and> n_currentTerm n = b_term b \<and>
       n_currentTerm n' = b_term b \<and> b_needed b \<le> b_votes b + 1"
    "b' = Some b2 \<Longrightarrow> n' = n \<and> (b2 = ?b \<or> vr_ok r \<and> vr_granted r \<and> b2 = ?b\<lparr>b_votes := b_votes b + 1\<rparr>)"
    by blast+
qed

lemma boot_synced:
  assumes laws: "laws e" "reliable (store e)" and wf: "wf e d"
    and load: "ss_LoadState (store e) d = Some (Inr (t, v))" "0 \<le> t" "t < max_int64"
    and boot: "boot (store e) cfg dr d = Some m" and cfg: "nc_Members cfg \<noteq> []"
  shows "synced e (mb_node m) (mb_disk m)" "n_cfg (mb_node m) = node_withDefaults cfg" "mb_run m = Waiting"
    "length (nc_Members cfg) \<le> 1 \<Longrightarrow> n_role (mb_node m) = Leader \<and> n_currentTerm (mb_node m) = t + 1 \<and>
       n_votedFor (mb_node m) = nc_NodeID cfg"
    "1 < length (nc_Members cfg) \<Longrightarrow> n_role (mb_node m) = Follower \<and> n_currentTerm (mb_node m) = t \<and>
       n_votedFor (mb_node m) = v"
proof -
  have i: "i64 (t + 1) = t + 1" using load by (intro i64_id) (simp_all add: max_int64_def)
  have c: "nc_Members (node_withDefaults cfg) = nc_Members cfg" "nc_NodeID (node_withDefaults cfg) = nc_NodeID cfg"
    using cfg by (simp_all add: node_withDefaults_def Let_def)
  have maj: "majority n \<le> Suc 0 \<longleftrightarrow> length (nc_Members (n_cfg n)) \<le> Suc 0" for n :: node
    by (auto simp: majority_def div_eq_0_iff)
  note defs = boot_def Node_Start_def Node_New_def persistLocked_def load(1) i c maj Let_def
  have "synced e (mb_node m) (mb_disk m) \<and> n_cfg (mb_node m) = node_withDefaults cfg \<and> mb_run m = Waiting \<and>
    (length (nc_Members cfg) \<le> 1 \<longrightarrow> n_role (mb_node m) = Leader \<and> n_currentTerm (mb_node m) = t + 1 \<and>
       n_votedFor (mb_node m) = nc_NodeID cfg) \<and>
    (1 < length (nc_Members cfg) \<longrightarrow> n_role (mb_node m) = Follower \<and> n_currentTerm (mb_node m) = t \<and>
       n_votedFor (mb_node m) = v)"
  proof (cases "length (nc_Members cfg) \<le> 1")
    case True
    then show ?thesis
      using boot load synced_save [OF laws wf, of "t + 1" "mb_node m" "nc_NodeID cfg"]
      by (auto simp: defs)
  next
    case False
    then show ?thesis using boot load wf by (auto simp: defs synced_def)
  qed
  then show "synced e (mb_node m) (mb_disk m)" "n_cfg (mb_node m) = node_withDefaults cfg" "mb_run m = Waiting"
    "length (nc_Members cfg) \<le> 1 \<Longrightarrow> n_role (mb_node m) = Leader \<and> n_currentTerm (mb_node m) = t + 1 \<and>
       n_votedFor (mb_node m) = nc_NodeID cfg"
    "1 < length (nc_Members cfg) \<Longrightarrow> n_role (mb_node m) = Follower \<and> n_currentTerm (mb_node m) = t \<and>
       n_votedFor (mb_node m) = v" by auto
qed

end

section \<open>Quorums\<close>

text \<open>Two quorums of one membership meet, so functional votes of two quorums agree.\<close>

locale quorum_system =
  fixes membership :: "'m \<Rightarrow> bool" and quorum :: "'m \<Rightarrow> 'p set \<Rightarrow> bool"
  assumes meet: "membership ms \<Longrightarrow> quorum ms S \<Longrightarrow> quorum ms T \<Longrightarrow> S \<inter> T \<noteq> {}"
begin

lemma same_choice:
  assumes "membership ms" "quorum ms S" "quorum ms T"
    and "\<And>p. p \<in> S \<Longrightarrow> (p, t, a) \<in> cast" "\<And>p. p \<in> T \<Longrightarrow> (p, t, b) \<in> cast"
    and "\<And>p t a b. (p, t, a) \<in> cast \<Longrightarrow> (p, t, b) \<in> cast \<Longrightarrow> a = b"
  shows "a = b"
  using meet [OF assms(1-3)] assms(4-6) by blast

end

definition majority_of :: "string list \<Rightarrow> string set \<Rightarrow> bool" where
  "majority_of ms S \<longleftrightarrow> S \<subseteq> set ms \<and> length ms div 2 + 1 \<le> card S"

interpretation mj: quorum_system distinct majority_of
proof
  fix ms S T
  assume "distinct (ms :: string list)" "majority_of ms S" "majority_of ms T"
  then have *: "S \<union> T \<subseteq> set ms" "length ms div 2 + 1 \<le> card S" "length ms div 2 + 1 \<le> card T"
    "card (set ms) = length ms"
    by (auto simp: majority_of_def distinct_card)
  then have fin: "finite S" "finite T" by (auto intro: finite_subset)
  have "card (S \<union> T) \<le> length ms" using * card_mono [of "set ms" "S \<union> T"] by simp
  then show "S \<inter> T \<noteq> {}" using card_Un_disjoint [OF fin] * by force
qed

section \<open>The invariant\<close>

definition ballot_ok :: "string list \<Rightarrow> (string \<times> int \<times> string) set \<Rightarrow> string \<Rightarrow> ballot \<Rightarrow> bool" where
  "ballot_ok ms cast c b \<longleftrightarrow>
     b_needed b = length ms div 2 + 1 \<and> distinct (b_peers b) \<and> set (b_peers b) \<subseteq> set ms \<and>
     (\<exists>S. S \<subseteq> set ms \<and> card S = b_votes b \<and> S \<inter> set (b_peers b) = {} \<and> (\<forall>p \<in> S. (p, b_term b, c) \<in> cast))"

definition cast_ok :: "string list \<Rightarrow> (string \<Rightarrow> node) \<Rightarrow> (string \<times> int \<times> string) set \<Rightarrow> bool" where
  "cast_ok ms nodes cast \<longleftrightarrow>
     (\<forall>p t c. (p, t, c) \<in> cast \<longrightarrow> p \<in> set ms \<and> c \<noteq> '''' \<and> t \<le> n_currentTerm (nodes p) \<and>
        (t = n_currentTerm (nodes p) \<longrightarrow> n_votedFor (nodes p) = c)) \<and>
     (\<forall>p t a b. (p, t, a) \<in> cast \<longrightarrow> (p, t, b) \<in> cast \<longrightarrow> a = b)"

definition led_ok :: "string list \<Rightarrow> (string \<times> int \<times> string) set \<Rightarrow> string \<times> int \<Rightarrow> bool" where
  "led_ok ms cast = (\<lambda>(c, t). \<exists>S. majority_of ms S \<and> (\<forall>p \<in> S. (p, t, c) \<in> cast))"

definition messages_ok :: "string list \<Rightarrow> 'd cluster \<Rightarrow> bool" where
  "messages_ok ms C \<longleftrightarrow>
     (\<forall>c t p. (c, t, p) \<in> cl_requests C \<longrightarrow> c \<in> set ms \<and> t \<le> max_int64) \<and>
     (\<forall>c t p g ct. (c, t, p, g, ct) \<in> cl_replies C \<longrightarrow> ct \<le> max_int64 \<and> (g \<longrightarrow> (p, t, c) \<in> cl_cast C)) \<and>
     (\<forall>l t. (l, t) \<in> cl_beats C \<longrightarrow> t \<le> max_int64) \<and> (\<forall>t \<in> cl_terms C. t \<le> max_int64)"

lemma ballot_ok_mono: "ballot_ok ms cast c b \<Longrightarrow> cast \<subseteq> cast' \<Longrightarrow> ballot_ok ms cast' c b"
  by (auto simp: ballot_ok_def) (meson subsetD)

lemma led_ok_mono: "led_ok ms cast ct \<Longrightarrow> cast \<subseteq> cast' \<Longrightarrow> led_ok ms cast' ct"
  by (auto simp: led_ok_def split: prod.splits)

lemma cast_ok_step:
  assumes ok: "cast_ok ms nodes cast" and vs: "vote_step (nodes p) n'" and p: "p \<in> set ms"
    and new: "cast' = cast \<or> cast' = insert (p, n_currentTerm n', n_votedFor n') cast \<and> n_votedFor n' \<noteq> ''''"
  shows "cast_ok ms (nodes(p := n')) cast'"
proof -
  have old: "t \<le> n_currentTerm n' \<and> (t = n_currentTerm n' \<longrightarrow> n_votedFor n' = c)" if "(p, t, c) \<in> cast" for t c
    using ok vs that by (fastforce simp: cast_ok_def vote_step_def)
  show ?thesis
  proof (cases "cast' = cast")
    case True
    then show ?thesis using ok old by (auto simp: cast_ok_def)
  next
    case False
    then have "cast' = insert (p, n_currentTerm n', n_votedFor n') cast" "n_votedFor n' \<noteq> ''''"
      using new by auto
    then show ?thesis using ok old p by (auto simp: cast_ok_def)
  qed
qed

context durable_state
begin

definition member_ok ::
  "'e \<Rightarrow> string list \<Rightarrow> duration \<Rightarrow> duration \<Rightarrow> (string \<times> int \<times> string) set \<Rightarrow> (string \<times> int) set \<Rightarrow>
   string \<Rightarrow> 'd member \<Rightarrow> bool" where
  "member_ok e ms tmin tmax cast led p m \<longleftrightarrow>
     synced e (mb_node m) (mb_disk m) \<and>
     n_cfg (mb_node m) = node_withDefaults (member_config ms tmin tmax p) \<and>
     (n_role (mb_node m) = Leader \<longrightarrow> (p, n_currentTerm (mb_node m)) \<in> led \<and> mb_run m = Waiting) \<and>
     (\<forall>b. mb_run m = Counting b \<longrightarrow> ballot_ok ms cast p b)"

definition election_inv :: "'e \<Rightarrow> string list \<Rightarrow> duration \<Rightarrow> duration \<Rightarrow> 'd cluster \<Rightarrow> bool" where
  "election_inv e ms tmin tmax C \<longleftrightarrow>
     (\<forall>p \<in> set ms. member_ok e ms tmin tmax (cl_cast C) (cl_led C) p (cl_member C p)) \<and>
     cast_ok ms (\<lambda>p. mb_node (cl_member C p)) (cl_cast C) \<and>
     messages_ok ms C \<and> (\<forall>ct \<in> cl_led C. led_ok ms (cl_cast C) ct)"

lemma member_ok_mono:
  "member_ok e ms tmin tmax cast led p m \<Longrightarrow> cast \<subseteq> cast' \<Longrightarrow> led \<subseteq> led' \<Longrightarrow>
   member_ok e ms tmin tmax cast' led' p m"
  by (auto simp: member_ok_def intro: ballot_ok_mono)

text \<open>One member moves; the history only grows by what this member just did.\<close>

lemma election_inv_move:
  assumes inv: "election_inv e ms tmin tmax C" and p: "p \<in> set ms"
    and C': "cl_member C' = (cl_member C)(p := m')"
    and m': "member_ok e ms tmin tmax (cl_cast C') (cl_led C') p m'"
    and vs: "vote_step (mb_node (cl_member C p)) (mb_node m')"
    and cast: "cl_cast C' = cl_cast C \<or>
      cl_cast C' = insert (p, n_currentTerm (mb_node m'), n_votedFor (mb_node m')) (cl_cast C) \<and>
      n_votedFor (mb_node m') \<noteq> ''''"
    and led: "cl_led C \<subseteq> cl_led C'" "\<And>ct. ct \<in> cl_led C' - cl_led C \<Longrightarrow> led_ok ms (cl_cast C') ct"
    and msgs: "messages_ok ms C'"
  shows "election_inv e ms tmin tmax C'"
proof -
  have mono: "cl_cast C \<subseteq> cl_cast C'" using cast by auto
  have "cast_ok ms ((\<lambda>q. mb_node (cl_member C q))(p := mb_node m')) (cl_cast C')"
    using inv vs p cast
    by (intro cast_ok_step [where nodes = "\<lambda>q. mb_node (cl_member C q)"]) (simp_all add: election_inv_def)
  moreover have "(\<lambda>q. mb_node (cl_member C q))(p := mb_node m') = (\<lambda>q. mb_node (cl_member C' q))"
    by (auto simp: C')
  moreover have "member_ok e ms tmin tmax (cl_cast C') (cl_led C') q (cl_member C' q)" if "q \<in> set ms" for q
    using that inv m' member_ok_mono [OF _ mono led(1)] by (auto simp: election_inv_def C')
  moreover have "led_ok ms (cl_cast C') ct" if "ct \<in> cl_led C'" for ct
    using that led(2) inv led_ok_mono [OF _ mono] by (cases "ct \<in> cl_led C") (auto simp: election_inv_def)
  ultimately show ?thesis using msgs by (simp add: election_inv_def)
qed

lemma messages_ok_mono:
  "messages_ok ms C \<Longrightarrow> cl_cast C \<subseteq> cl_cast C' \<Longrightarrow> cl_requests C' = cl_requests C \<Longrightarrow>
   cl_replies C' = cl_replies C \<Longrightarrow> cl_beats C' = cl_beats C \<Longrightarrow> cl_terms C' = cl_terms C \<Longrightarrow> messages_ok ms C'"
  by (auto simp: messages_ok_def)

end

section \<open>Every step keeps the invariant\<close>

lemma peers_member:
  "n_cfg n = node_withDefaults (member_config ms tmin tmax p) \<Longrightarrow> p \<in> set ms \<Longrightarrow>
   peers n = filter (\<lambda>m. m \<noteq> p) ms \<and> majority n = length ms div 2 + 1 \<and> nc_NodeID (n_cfg n) = p"
  by (auto simp: peers_def majority_def node_withDefaults_def member_config_def Let_def)

lemma ballot_ok_count:
  assumes "ballot_ok ms cast c b" "p \<in> set (b_peers b)" "(p, b_term b, c) \<in> cast"
  shows "ballot_ok ms cast c (b\<lparr>b_peers := remove1 p (b_peers b), b_votes := b_votes b + 1\<rparr>)"
proof -
  obtain S where S: "S \<subseteq> set ms" "card S = b_votes b" "S \<inter> set (b_peers b) = {}"
    "\<forall>p \<in> S. (p, b_term b, c) \<in> cast"
    using assms(1) by (auto simp: ballot_ok_def)
  have "finite S" "p \<notin> S" using S assms(2) by (auto intro: finite_subset [of S "set ms"])
  then have "card (insert p S) = b_votes b + 1" using S by simp
  moreover have "insert p S \<subseteq> set ms" "\<forall>q \<in> insert p S. (q, b_term b, c) \<in> cast"
    "insert p S \<inter> set (remove1 p (b_peers b)) = {}"
    using S assms by (auto simp: ballot_ok_def)
  ultimately show ?thesis
    using assms(1) set_remove1_subset [of p "b_peers b"]
    by (auto simp: ballot_ok_def distinct_remove1 intro!: exI [of _ "insert p S"])
qed

lemma ballot_ok_skip:
  "ballot_ok ms cast c b \<Longrightarrow> ballot_ok ms cast c (b\<lparr>b_peers := remove1 p (b_peers b)\<rparr>)"
  using set_remove1_subset [of p "b_peers b"]
  by (fastforce simp: ballot_ok_def distinct_remove1)

lemma ballot_ok_won:
  assumes "ballot_ok ms cast c b" "b_needed b \<le> b_votes b"
  shows "led_ok ms cast (c, b_term b)"
  using assms by (auto simp: ballot_ok_def led_ok_def majority_of_def)

context durable_state
begin

lemma move_member_ok:
  assumes "member_ok e ms tmin tmax cast led p m" "synced e n' d'" "vote_step (mb_node m) n'"
    and "n_role n' = n_role (mb_node m) \<or> n_role n' = Follower"
    and "n_role n' = Leader \<Longrightarrow> n_currentTerm n' = n_currentTerm (mb_node m)" and "cast \<subseteq> cast'"
  shows "member_ok e ms tmin tmax cast' led p (m\<lparr>mb_node := n', mb_disk := d'\<rparr>)"
  using assms by (auto simp: member_ok_def vote_step_def intro: ballot_ok_mono)

lemma step_vote:
  assumes laws: "laws e" "reliable (store e)" and ids: "'''' \<notin> set ms"
    and inv: "election_inv e ms tmin tmax C" and p: "p \<in> set ms" and m: "cl_member C p = m"
    and req: "(c, t, p) \<in> cl_requests C"
    and vote: "HandleVote (store e) dr1 dr2 t c (mb_node m) (mb_disk m) = ((g, ct), cbs, n', d')"
  shows "election_inv e ms tmin tmax
     (C\<lparr>cl_member := (cl_member C)(p := m\<lparr>mb_node := n', mb_disk := d'\<rparr>),
        cl_replies := insert (c, t, p, g, ct) (cl_replies C),
        cl_cast := (if g then insert (p, t, c) (cl_cast C) else cl_cast C)\<rparr>)"
    (is "election_inv e ms tmin tmax ?C'")
proof -
  have ok: "member_ok e ms tmin tmax (cl_cast C) (cl_led C) p m" and msgs: "messages_ok ms C"
    using inv p m by (auto simp: election_inv_def)
  have s: "synced e (mb_node m) (mb_disk m)" using ok by (simp add: member_ok_def)
  have t: "t \<le> max_int64" "c \<in> set ms" using msgs req by (auto simp: messages_ok_def)
  note H = HandleVote_synced [OF laws s t(1) vote]
  have "ct \<le> max_int64" using H(1,3) by (simp add: synced_def)
  then have "messages_ok ms ?C'" using msgs by (auto simp: messages_ok_def)
  moreover have "member_ok e ms tmin tmax (cl_cast ?C') (cl_led ?C') p (m\<lparr>mb_node := n', mb_disk := d'\<rparr>)"
    using move_member_ok [OF ok H(1,2,5,6)] by auto
  ultimately show ?thesis
    using inv p m H(2,4) ids t(2) by (intro election_inv_move [OF inv p]) auto
qed

lemma step_observe:
  assumes laws: "laws e" "reliable (store e)"
    and inv: "election_inv e ms tmin tmax C" and p: "p \<in> set ms" and m: "cl_member C p = m"
    and beat: "(l, t) \<in> cl_beats C"
    and obs: "ObserveLeader (store e) dr1 dr2 t l (mb_node m) (mb_disk m) = ((acc, ct), cbs, n', d')"
  shows "election_inv e ms tmin tmax
     (C\<lparr>cl_member := (cl_member C)(p := m\<lparr>mb_node := n', mb_disk := d'\<rparr>),
        cl_terms := insert ct (cl_terms C)\<rparr>)" (is "election_inv e ms tmin tmax ?C'")
proof -
  have ok: "member_ok e ms tmin tmax (cl_cast C) (cl_led C) p m" and msgs: "messages_ok ms C"
    using inv p m by (auto simp: election_inv_def)
  have s: "synced e (mb_node m) (mb_disk m)" using ok by (simp add: member_ok_def)
  have t: "t \<le> max_int64" using msgs beat by (auto simp: messages_ok_def)
  note H = ObserveLeader_synced [OF laws s t obs]
  have "ct \<le> max_int64" using H(1,3) by (simp add: synced_def)
  then have "messages_ok ms ?C'" using msgs by (auto simp: messages_ok_def)
  then show ?thesis
    using m H(2) move_member_ok [OF ok H(1,2,4,5)] by (intro election_inv_move [OF inv p]) auto
qed

lemma step_step_down:
  assumes laws: "laws e" "reliable (store e)"
    and inv: "election_inv e ms tmin tmax C" and p: "p \<in> set ms" and m: "cl_member C p = m"
    and t: "t \<in> cl_terms C" and sd: "MaybeStepDown (store e) dr t (mb_node m) (mb_disk m) = (cbs, n', d')"
  shows "election_inv e ms tmin tmax
     (C\<lparr>cl_member := (cl_member C)(p := m\<lparr>mb_node := n', mb_disk := d'\<rparr>)\<rparr>)"
proof -
  have ok: "member_ok e ms tmin tmax (cl_cast C) (cl_led C) p m" and msgs: "messages_ok ms C"
    using inv p m by (auto simp: election_inv_def)
  have s: "synced e (mb_node m) (mb_disk m)" using ok by (simp add: member_ok_def)
  have t': "t \<le> max_int64" using msgs t by (auto simp: messages_ok_def)
  note H = MaybeStepDown_synced [OF laws s t' sd]
  show ?thesis
    using m H(2) move_member_ok [OF ok H(1-4)] msgs
    by (intro election_inv_move [OF inv p]) (auto intro: messages_ok_mono)
qed

lemma step_campaign:
  assumes laws: "laws e" "reliable (store e)" and ids: "'''' \<notin> set ms" and dist: "distinct ms"
    and inv: "election_inv e ms tmin tmax C" and p: "p \<in> set ms" and m: "cl_member C p = m"
    and run: "mb_run m = Campaigning" and t: "n_currentTerm (mb_node m) < max_int64"
    and se: "startElection (store e) dr (mb_node m) (mb_disk m) = (b, n', d')"
  shows "election_inv e ms tmin tmax
     (C\<lparr>cl_member := (cl_member C)(p := \<lparr>mb_node = n', mb_disk = d',
            mb_run = (case next_turn b of None \<Rightarrow> Waiting | Some b \<Rightarrow> Counting b)\<rparr>),
        cl_requests := cl_requests C \<union> {(p, b_term b, q) | q. q \<in> set (b_peers b)},
        cl_cast := insert (p, b_term b, p) (cl_cast C)\<rparr>)" (is "election_inv e ms tmin tmax ?C'")
proof -
  have ok: "member_ok e ms tmin tmax (cl_cast C) (cl_led C) p m" and msgs: "messages_ok ms C"
    using inv p m by (auto simp: election_inv_def)
  have s: "synced e (mb_node m) (mb_disk m)" using ok by (simp add: member_ok_def)
  have cfg: "n_cfg (mb_node m) = node_withDefaults (member_config ms tmin tmax p)"
    using ok by (simp add: member_ok_def)
  note H = startElection_synced [OF laws s t se]
  have cfg': "n_cfg n' = node_withDefaults (member_config ms tmin tmax p)"
    using H(2) cfg by (simp add: vote_step_def)
  note P = peers_member [OF cfg' p] peers_member [OF cfg p]
  have "ballot_ok ms (cl_cast ?C') p b"
    unfolding ballot_ok_def H(6)
    using P p dist by (auto intro!: exI [of _ "{p}"])
  then have "member_ok e ms tmin tmax (cl_cast ?C') (cl_led ?C') p
      \<lparr>mb_node = n', mb_disk = d', mb_run = (case next_turn b of None \<Rightarrow> Waiting | Some b \<Rightarrow> Counting b)\<rparr>"
    using H cfg' by (auto simp: member_ok_def next_turn_def)
  moreover have "messages_ok ms ?C'"
    using msgs p H(1,6) by (auto simp: messages_ok_def synced_def)
  ultimately show ?thesis
    using m H(2,5,6) P p ids by (intro election_inv_move [OF inv p]) auto
qed

end

context durable_state
begin

lemma step_receive:
  assumes laws: "laws e" "reliable (store e)"
    and inv: "election_inv e ms tmin tmax C" and c: "c \<in> set ms" and m: "cl_member C c = m"
    and run: "mb_run m = Counting b" and p: "p \<in> set (b_peers b)"
    and r: "\<not> vr_ok r \<or> (c, b_term b, p, vr_granted r, vr_peerTerm r) \<in> cl_replies C"
    and rv: "receiveVote (store e) dr p r b (mb_node m) (mb_disk m) = (b', cbs, n', d')"
  shows "election_inv e ms tmin tmax
     (C\<lparr>cl_member := (cl_member C)(c := \<lparr>mb_node = n', mb_disk = d',
            mb_run = (case b' of None \<Rightarrow> Waiting | Some b \<Rightarrow> Counting b)\<rparr>),
        cl_led := cl_led C \<union> assumed c n'\<rparr>)" (is "election_inv e ms tmin tmax ?C'")
proof -
  have ok: "member_ok e ms tmin tmax (cl_cast C) (cl_led C) c m" and msgs: "messages_ok ms C"
    using inv c m by (auto simp: election_inv_def)
  have s: "synced e (mb_node m) (mb_disk m)" and bal: "ballot_ok ms (cl_cast C) c b"
    and nl: "n_role (mb_node m) \<noteq> Leader"
    using ok run by (auto simp: member_ok_def)
  have t: "vr_ok r \<longrightarrow> vr_peerTerm r \<le> max_int64" using r msgs by (auto simp: messages_ok_def)
  have granted: "(p, b_term b, c) \<in> cl_cast C" if "vr_ok r" "vr_granted r"
    using that r msgs by (auto simp: messages_ok_def)
  note H = receiveVote_synced [OF laws s t rv]
  have count: "ballot_ok ms (cl_cast C) c (b\<lparr>b_peers := remove1 p (b_peers b), b_votes := b_votes b + 1\<rparr>)"
    if "vr_ok r" "vr_granted r"
    by (rule ballot_ok_count [OF bal p granted [OF that]])
  have led: "led_ok ms (cl_cast C) (c, n_currentTerm n')" if "n_role n' = Leader"
    using H(3) [OF that nl] ballot_ok_won [OF count] by simp
  have "ballot_ok ms (cl_cast C) c b2" if "b' = Some b2" for b2
    using H(4) [OF that] count ballot_ok_skip [OF bal, of p] by auto
  then have "member_ok e ms tmin tmax (cl_cast ?C') (cl_led ?C') c
      \<lparr>mb_node = n', mb_disk = d', mb_run = (case b' of None \<Rightarrow> Waiting | Some b \<Rightarrow> Counting b)\<rparr>"
    using H(1,2) H(3) [OF _ nl] ok
    by (auto simp: member_ok_def vote_step_def assumed_def split: option.splits)
  moreover have "messages_ok ms ?C'" by (rule messages_ok_mono [OF msgs]) simp_all
  ultimately show ?thesis
    using m H(2) led by (intro election_inv_move [OF inv c]) (auto simp: assumed_def split: if_splits)
qed

lemma step_restart:
  assumes laws: "laws e" "reliable (store e)" and ids: "'''' \<notin> set ms" and dist: "distinct ms"
    and inv: "election_inv e ms tmin tmax C" and p: "p \<in> set ms" and m: "cl_member C p = m"
    and t: "n_currentTerm (mb_node m) < max_int64"
    and boot: "boot (store e) (member_config ms tmin tmax p) dr (mb_disk m) = Some m'"
  shows "election_inv e ms tmin tmax
     (C\<lparr>cl_member := (cl_member C)(p := m'),
        cl_cast := (if length ms \<le> 1 then insert (p, n_currentTerm (mb_node m'), p) (cl_cast C) else cl_cast C),
        cl_led := cl_led C \<union> assumed p (mb_node m')\<rparr>)" (is "election_inv e ms tmin tmax ?C'")
proof -
  have ok: "member_ok e ms tmin tmax (cl_cast C) (cl_led C) p m" and msgs: "messages_ok ms C"
    using inv p m by (auto simp: election_inv_def)
  have s: "synced e (mb_node m) (mb_disk m)" and cfg: "n_cfg (mb_node m) = node_withDefaults (member_config ms tmin tmax p)"
    using ok by (simp_all add: member_ok_def)
  have ne: "nc_Members (member_config ms tmin tmax p) \<noteq> []" using p by (auto simp: member_config_def)
  have load: "ss_LoadState (store e) (mb_disk m) = Some (Inr (n_currentTerm (mb_node m), n_votedFor (mb_node m)))"
    "0 \<le> n_currentTerm (mb_node m)" "wf e (mb_disk m)"
    using s by (simp_all add: synced_def)
  note H = boot_synced [OF laws load(3,1,2) t boot ne]
  have msgs': "messages_ok ms ?C'" by (rule messages_ok_mono [OF msgs]) auto
  show ?thesis
  proof (cases "length ms \<le> 1")
    case True
    then have "ms = [p]" using p by (cases ms) auto
    moreover have "led_ok [p] (insert (p, n_currentTerm (mb_node m'), p) (cl_cast C)) (p, n_currentTerm (mb_node m'))"
      by (auto simp: led_ok_def majority_of_def intro!: exI [of _ "{p}"])
    ultimately show ?thesis
      using True H m msgs' cfg ids
      by (intro election_inv_move [OF inv p])
        (auto simp: member_ok_def assumed_def vote_step_def member_config_def)
  next
    case False
    then show ?thesis
      using H m msgs' cfg
      by (intro election_inv_move [OF inv p])
        (auto simp: member_ok_def assumed_def vote_step_def member_config_def)
  qed
qed

lemma election_step_inv:
  assumes "laws e" "reliable (store e)" "'''' \<notin> set ms" "distinct ms"
    and "election_step (store e) ms tmin tmax C C'" "election_inv e ms tmin tmax C"
  shows "election_inv e ms tmin tmax C'"
  using assms(5,6)
proof cases
  case (tick p m now)
  have ok: "member_ok e ms tmin tmax (cl_cast C) (cl_led C) p m" and msgs: "messages_ok ms C"
    using assms(6) tick by (auto simp: election_inv_def)
  have "messages_ok ms C'" using tick(1) by (intro messages_ok_mono [OF msgs]) simp_all
  then show ?thesis
    using tick ok
    by (intro election_inv_move [OF assms(6) tick(2), where m' = "m\<lparr>mb_run := Campaigning\<rparr>"])
      (auto simp: member_ok_def run_campaign_def)
next
  case (beat p m)
  have "synced e (mb_node m) (mb_disk m)" using assms(6) beat by (auto simp: election_inv_def member_ok_def)
  then have "messages_ok ms C'"
    using assms(6) beat(1) by (auto simp: election_inv_def messages_ok_def Node_Term_def synced_def)
  moreover have "member_ok e ms tmin tmax (cl_cast C) (cl_led C) p m"
    using assms(6) beat by (auto simp: election_inv_def)
  ultimately show ?thesis
    using beat by (intro election_inv_move [OF assms(6) beat(2), where m' = m]) auto
next
  case campaign
  then show ?thesis using step_campaign [OF assms(1-4,6)] by simp
next
  case vote
  then show ?thesis using step_vote [OF assms(1-3,6)] by simp
next
  case receive
  then show ?thesis using step_receive [OF assms(1,2,6)] by simp
next
  case observe
  then show ?thesis using step_observe [OF assms(1,2,6)] by simp
next
  case step_down
  then show ?thesis using step_step_down [OF assms(1,2,6)] by simp
next
  case restart
  then show ?thesis using step_restart [OF assms(1-4,6)] by simp
qed

end

context durable_state
begin

lemma election_init_inv:
  assumes laws: "laws e" "reliable (store e)" and ids: "'''' \<notin> set ms"
    and init: "election_init (store e) (wf e) ms tmin tmax C"
  shows "election_inv e ms tmin tmax C"
  using init
proof cases
  case (init disk dr mem)
  have H: "synced e (mb_node (mem p)) (mb_disk (mem p))"
    "n_cfg (mb_node (mem p)) = node_withDefaults (member_config ms tmin tmax p)" "mb_run (mem p) = Waiting"
    "length ms \<le> 1 \<Longrightarrow> n_role (mb_node (mem p)) = Leader \<and> n_currentTerm (mb_node (mem p)) = 1 \<and>
       n_votedFor (mb_node (mem p)) = p"
    "1 < length ms \<Longrightarrow> n_role (mb_node (mem p)) = Follower"
    if p: "p \<in> set ms" for p
  proof -
    have d: "wf e (disk p)" "ss_LoadState (store e) (disk p) = Some (Inr (0, ''''))"
      "boot (store e) (member_config ms tmin tmax p) (dr p) (disk p) = Some (mem p)"
      "nc_Members (member_config ms tmin tmax p) \<noteq> []"
      using init(2) [OF p] p by (auto simp: blank_def member_config_def)
    have "(0 :: int) \<le> 0" "0 < max_int64" by (simp_all add: max_int64_def)
    from boot_synced [OF laws d(1,2) this d(3,4)]
    show "synced e (mb_node (mem p)) (mb_disk (mem p))"
      "n_cfg (mb_node (mem p)) = node_withDefaults (member_config ms tmin tmax p)" "mb_run (mem p) = Waiting"
      "length ms \<le> 1 \<Longrightarrow> n_role (mb_node (mem p)) = Leader \<and> n_currentTerm (mb_node (mem p)) = 1 \<and>
         n_votedFor (mb_node (mem p)) = p"
      "1 < length ms \<Longrightarrow> n_role (mb_node (mem p)) = Follower"
      by (auto simp: member_config_def)
  qed
  show ?thesis
  proof (cases "length ms \<le> 1")
    case True
    have "led_ok ms {(p, n_currentTerm (mb_node (mem p)), p) | p. p \<in> set ms} (p, 1)" if "p \<in> set ms" for p
      using True that H(4) [OF that]
      by (cases ms) (auto simp: led_ok_def majority_of_def intro!: exI [of _ "{p}"])
    moreover have "q = p" if "p \<in> set ms" "q \<in> set ms" for p q
      using True that by (cases ms) auto
    ultimately show ?thesis
      using init(1) H True ids
      by (auto simp: election_inv_def member_ok_def cast_ok_def messages_ok_def assumed_def)
  next
    case False
    then show ?thesis
      using init(1) H by (auto simp: election_inv_def member_ok_def cast_ok_def messages_ok_def assumed_def)
  qed
qed

lemma election_reach_inv:
  assumes "laws e" "reliable (store e)" "'''' \<notin> set ms" "distinct ms"
    and "election_reach (store e) (wf e) ms tmin tmax C"
  shows "election_inv e ms tmin tmax C"
  using assms(5)
  by induction (use election_init_inv election_step_inv assms(1-4) in blast)+

lemma one_leader:
  assumes "laws e" "reliable (store e)" "'''' \<notin> set ms" "distinct ms"
    and "election_reach (store e) (wf e) ms tmin tmax C"
    and "(a, t) \<in> cl_led C" "(b, t) \<in> cl_led C"
  shows "a = b"
proof -
  have inv: "election_inv e ms tmin tmax C" by (rule election_reach_inv [OF assms(1-5)])
  have "led_ok ms (cl_cast C) (a, t)" "led_ok ms (cl_cast C) (b, t)"
    using inv assms(6,7) by (auto simp: election_inv_def)
  then obtain S T where "majority_of ms S" "\<forall>p \<in> S. (p, t, a) \<in> cl_cast C"
    "majority_of ms T" "\<forall>p \<in> T. (p, t, b) \<in> cl_cast C"
    unfolding led_ok_def by auto
  then show ?thesis
    using mj.same_choice [OF assms(4), of S T t a "cl_cast C" b] inv
    by (auto simp: election_inv_def cast_ok_def)
qed

end

interpretation es: durable_state store_laws store_wf electionStore
  using SaveElectionState_store(1) Load_after_Save
  by unfold_locales (simp_all add: electionStore_def)

section \<open>A run with three members\<close>

text \<open>
  Member \<open>n1\<close> times out, campaigns, receives the vote of \<open>n2\<close> and leads term 1. The run serves as
  the witness of the properties below.
\<close>

definition sample_members :: "string list" where
  "sample_members = [''n1'', ''n2'', ''n3'']"

definition sample_member :: "string \<Rightarrow> mem member" where
  "sample_member p =
     \<lparr>mb_node = \<lparr>n_cfg = member_config sample_members 1 2 p, n_role = Follower, n_currentTerm = 0,
        n_votedFor = '''', n_leaderID = '''', n_electionDeadline = 1\<rparr>, mb_disk = (\<lambda>_. []), mb_run = Waiting\<rparr>"

lemma reliable_mem_bolt: "reliable (electionStore mem_bolt)"
  by (simp add: reliable_def electionStore_def Store_SaveElectionState_def wrap_update_def)

lemma sample_boot:
  "boot (electionStore mem_bolt) (member_config sample_members 1 2 p) (0, 0) (\<lambda>_. []) = Some (sample_member p)"
  by (simp add: boot_def Node_Start_def Node_New_def node_withDefaults_def member_config_def sample_members_def
      electionStore_def Store_LoadElectionState_def majority_def resetElectionTimerLocked_def i64_def
      sample_member_def Let_def)

lemma sample_run:
  "\<exists>C. election_reach (electionStore mem_bolt) (store_wf mem_bolt) sample_members 1 2 C \<and>
     (''n1'', 1) \<in> cl_led C \<and> n_role (mb_node (cl_member C ''n1'')) = Leader \<and>
     n_currentTerm (mb_node (cl_member C ''n1'')) = 1 \<and>
     (''n1'', 1, ''n2'', True, 1) \<in> cl_replies C"
proof -
  let ?ss = "electionStore mem_bolt"
  let ?reach = "election_reach ?ss (store_wf mem_bolt) sample_members 1 2"
  let ?C0 = "\<lparr>cl_member = sample_member, cl_requests = {}, cl_replies = {}, cl_beats = {}, cl_terms = {},
    cl_cast = {}, cl_led = {}\<rparr> :: mem cluster"
  have "blank ?ss (\<lambda>_. [])" by (simp add: blank_def electionStore_def Store_LoadElectionState_def)
  then have "election_init ?ss (store_wf mem_bolt) sample_members 1 2
      \<lparr>cl_member = sample_member, cl_requests = {}, cl_replies = {}, cl_beats = {}, cl_terms = {},
       cl_cast = (if length sample_members \<le> 1
         then {(p, n_currentTerm (mb_node (sample_member p)), p) | p. p \<in> set sample_members} else {}),
       cl_led = (\<Union>p \<in> set sample_members. assumed p (mb_node (sample_member p)))\<rparr>"
    by (intro election_init.init [where disk = "\<lambda>_ _. []" and dr = "\<lambda>_. (0, 0)"])
      (simp add: store_wf_mem_bolt_empty sample_boot)
  then have r0: "?reach ?C0"
    by (intro election_reach.start) (simp add: assumed_def sample_member_def sample_members_def)
  define C1 where "C1 = ?C0\<lparr>cl_member := (cl_member ?C0)(''n1'' := (sample_member ''n1'')\<lparr>mb_run := Campaigning\<rparr>)\<rparr>"
  have r1: "?reach C1"
    unfolding C1_def
    by (rule election_reach.step [OF r0], rule election_step.tick [where now = 2])
      (simp_all add: sample_members_def sample_member_def run_campaign_def)
  obtain b n' d' where se: "startElection ?ss (0, 0) (mb_node (sample_member ''n1'')) (\<lambda>_. []) = (b, n', d')"
    by (metis prod_cases3)
  then have b: "b = \<lparr>b_term = 1, b_votes = 1, b_needed = 2, b_peers = [''n2'', ''n3'']\<rparr>"
    and n': "n_role n' = Candidate" "n_currentTerm n' = 1" "n_cfg n' = member_config sample_members 1 2 ''n1''"
    by (auto simp: startElection_def sample_member_def majority_def peers_def member_config_def i64_def
        sample_members_def Let_def)
  define C2 where "C2 = C1\<lparr>cl_member := (cl_member C1)(''n1'' := \<lparr>mb_node = n', mb_disk = d', mb_run = Counting b\<rparr>),
    cl_requests := cl_requests C1 \<union> {(''n1'', b_term b, q) | q. q \<in> set (b_peers b)},
    cl_cast := insert (''n1'', b_term b, ''n1'') (cl_cast C1)\<rparr>"
  have r2: "?reach C2"
  proof (rule election_reach.step [OF r1])
    show "election_step ?ss sample_members 1 2 C1 C2"
      using election_step.campaign [of "''n1''" sample_members C1 "(sample_member ''n1'')\<lparr>mb_run := Campaigning\<rparr>"
          ?ss "(0, 0)" b n' d' 1 2] se
      by (simp add: C2_def C1_def b next_turn_def sample_members_def sample_member_def max_int64_def)
  qed
  obtain g ct cbs n2 d2 where hv:
    "HandleVote ?ss (0, 0) (0, 0) 1 ''n1'' (mb_node (sample_member ''n2'')) (\<lambda>_. []) = ((g, ct), cbs, n2, d2)"
    by (metis prod.exhaust)
  then have g: "g" "ct = 1"
    by (auto simp: HandleVote_def becomeFollowerLocked_def sample_member_def Let_def)
  define C3 where "C3 = C2\<lparr>cl_member := (cl_member C2)(''n2'' := (sample_member ''n2'')\<lparr>mb_node := n2, mb_disk := d2\<rparr>),
    cl_replies := insert (''n1'', 1, ''n2'', True, 1) (cl_replies C2),
    cl_cast := insert (''n2'', 1, ''n1'') (cl_cast C2)\<rparr>"
  have r3: "?reach C3"
  proof (rule election_reach.step [OF r2])
    show "election_step ?ss sample_members 1 2 C2 C3"
      using election_step.vote [of "''n2''" sample_members C2 "sample_member ''n2''" "''n1''" 1
          ?ss "(0, 0)" "(0, 0)" g ct cbs n2 d2 1 2] hv g
      by (simp add: C3_def C2_def C1_def b sample_members_def sample_member_def)
  qed
  define n4 where "n4 = n'\<lparr>n_role := Leader, n_leaderID := ''n1''\<rparr>"
  have rv: "receiveVote ?ss (0, 0) ''n2'' \<lparr>vr_granted = True, vr_peerTerm = 1, vr_ok = True\<rparr> b n' d' =
      (None, [OnLeader 1], n4, d')"
    by (simp add: receiveVote_def becomeLeaderLocked_def n4_def b n' member_config_def)
  define C4 where "C4 = C3\<lparr>cl_member := (cl_member C3)(''n1'' := \<lparr>mb_node = n4, mb_disk = d', mb_run = Waiting\<rparr>),
      cl_led := cl_led C3 \<union> assumed ''n1'' n4\<rparr>"
  have "?reach C4"
  proof (rule election_reach.step [OF r3])
    show "election_step ?ss sample_members 1 2 C3 C4"
      using election_step.receive [of "''n1''" sample_members C3 "\<lparr>mb_node = n', mb_disk = d', mb_run = Counting b\<rparr>"
          b "''n2''" "\<lparr>vr_granted = True, vr_peerTerm = 1, vr_ok = True\<rparr>" ?ss "(0, 0)" None "[OnLeader 1]" n4 d' 1 2] rv
      by (simp add: C4_def C3_def C2_def C1_def b sample_members_def)
  qed
  moreover have "(''n1'', 1, ''n2'', True, 1) \<in> cl_replies C4" by (simp add: C4_def C3_def)
  moreover have "n_role n4 = Leader" "n_currentTerm n4 = 1" by (simp_all add: n4_def n')
  ultimately show ?thesis by (intro exI [of _ C4]) (simp add: C4_def assumed_def)
qed

section \<open>Properties\<close>

text \<open>
  C2. Election safety: over a network that loses, delays, repeats and reorders messages, and with
  members that crash and restart from their durable state, at most one member ever becomes leader
  in a term, provided the member IDs are distinct and not empty, every write of the election
  state succeeds, and no term overflows.
\<close>

theorem at_most_one_leader_per_term:
  assumes "store_laws B" "reliable (electionStore B)" "distinct ms" "'''' \<notin> set ms"
    and "election_reach (electionStore B) (store_wf B) ms tmin tmax C"
    and "(a, t) \<in> cl_led C \<or> a \<in> set ms \<and> n_role (mb_node (cl_member C a)) = Leader \<and>
      n_currentTerm (mb_node (cl_member C a)) = t"
    and "(b, t) \<in> cl_led C \<or> b \<in> set ms \<and> n_role (mb_node (cl_member C b)) = Leader \<and>
      n_currentTerm (mb_node (cl_member C b)) = t"
  shows "a = b"
proof -
  have "es.election_inv B ms tmin tmax C" by (rule es.election_reach_inv [OF assms(1,2,4,3,5)])
  then have "(c, t) \<in> cl_led C" if "(c, t) \<in> cl_led C \<or> c \<in> set ms \<and>
      n_role (mb_node (cl_member C c)) = Leader \<and> n_currentTerm (mb_node (cl_member C c)) = t" for c
    using that by (auto simp: es.election_inv_def es.member_ok_def)
  then show ?thesis using es.one_leader [OF assms(1,2,4,3,5), of a t b] assms(6,7) by blast
qed

theorem at_most_one_leader_per_term_witness:
  "\<exists>C. election_reach (electionStore mem_bolt) (store_wf mem_bolt) [''n1'', ''n2'', ''n3''] 1 2 C \<and>
     (''n1'', 1) \<in> cl_led C \<and> (''n2'', 1) \<notin> cl_led C"
proof -
  obtain C where C: "election_reach (electionStore mem_bolt) (store_wf mem_bolt) sample_members 1 2 C"
    "(''n1'', 1) \<in> cl_led C"
    using sample_run by blast
  have "(''n2'', 1) \<notin> cl_led C"
    using at_most_one_leader_per_term [OF store_laws_mem_bolt reliable_mem_bolt _ _ C(1), of "''n1''" 1 "''n2''"] C(2)
    by (auto simp: sample_members_def)
  then show ?thesis using C by (auto simp: sample_members_def)
qed

text \<open>
  C34. One vote per term: two positive answers of a member to vote requests of the same term went
  to the same candidate, even when the member crashed and restarted in between.
\<close>

theorem one_vote_per_term:
  assumes "store_laws B" "reliable (electionStore B)" "distinct ms" "'''' \<notin> set ms"
    and "election_reach (electionStore B) (store_wf B) ms tmin tmax C"
    and "(a, t, p, True, ct) \<in> cl_replies C" "(b, t, p, True, ct') \<in> cl_replies C"
  shows "a = b"
proof -
  have inv: "es.election_inv B ms tmin tmax C" by (rule es.election_reach_inv [OF assms(1,2,4,3,5)])
  then have "(p, t, a) \<in> cl_cast C" "(p, t, b) \<in> cl_cast C"
    using assms(6,7) by (auto simp: es.election_inv_def messages_ok_def)
  then show ?thesis using inv by (auto simp: es.election_inv_def cast_ok_def)
qed

theorem one_vote_per_term_witness:
  "\<exists>C. election_reach (electionStore mem_bolt) (store_wf mem_bolt) [''n1'', ''n2'', ''n3''] 1 2 C \<and>
     (''n1'', 1, ''n2'', True, 1) \<in> cl_replies C \<and> (\<forall>ct. (''n3'', 1, ''n2'', True, ct) \<notin> cl_replies C)"
proof -
  obtain C where C: "election_reach (electionStore mem_bolt) (store_wf mem_bolt) sample_members 1 2 C"
    "(''n1'', 1, ''n2'', True, 1) \<in> cl_replies C"
    using sample_run by blast
  have "(''n3'', 1, ''n2'', True, ct) \<notin> cl_replies C" for ct
    using one_vote_per_term [OF store_laws_mem_bolt reliable_mem_bolt _ _ C, of "''n3''" ct]
    by (auto simp: sample_members_def)
  then show ?thesis using C by (auto simp: sample_members_def)
qed

end
