(* ===== verification/Poll_Batch.thy ===== *)
theory Poll_Batch
  imports Sample
begin

text \<open>
  What a poll hands out (\<open>PollTask\<close> in \<open>internal/scheduler/dispatch.go\<close>): how many tasks, in which
  order, and that every assignment is backed by a lease and by a stored RUNNING job.
\<close>

section \<open>How many\<close>

lemma poll_loop_length: "length out \<le> n \<Longrightarrow> length (fst (poll_loop E w now n out s)) \<le> n"
proof (induction out s rule: poll_loop_induct [of n _ E w now])
  case (stale out s k q)
  then show ?case by (simp add: poll_loop_stale)
next
  case (leased out s k q job s2 l)
  have "length (fst (poll_loop E w now n (out @ [poll_assignment l job]) (Inc TasksDispatched (addLease l s2)))) \<le> n"
    by (rule leased.IH) (use leased(1) in simp)
  then show ?case using poll_loop_leased [OF leased(1-6)] by simp
qed (simp_all add: poll_loop_full poll_loop_empty poll_loop_refused)

lemma batch_size_bounds: "1 \<le> batch_size m" "batch_size m \<le> 64" "1 \<le> m \<Longrightarrow> int (batch_size m) \<le> m"
  by (auto simp: batch_size_def maxBatch_def Let_def)

section \<open>What stands behind an assignment\<close>

definition backed :: "'db env \<Rightarrow> string \<Rightarrow> 'db server \<Rightarrow> TaskAssignment \<Rightarrow> bool" where
  "backed E w s a \<longleftrightarrow>
     (\<exists>l j. getLease (ta_TaskId a) s = Some l \<and> ls_jobID l = ta_JobId a \<and> ls_workerID l = w \<and>
        ls_attempt l = ta_Attempt a \<and> ta_LeaseDeadline a = Some (ls_deadline l) \<and>
        jobs_of E (s_db s) (ta_JobId a) = Some j \<and> j_State j = JOB_STATE_RUNNING \<and> j_AssignedWorkerId j = w \<and>
        j_Attempt j = ta_Attempt a \<and> j_Spec j = ta_Spec a)"

definition old_ids :: "'db env \<Rightarrow> 'db server \<Rightarrow> TaskAssignment list \<Rightarrow> bool" where
  "old_ids E s out \<longleftrightarrow> (\<forall>a \<in> set out. \<exists>n < s_tick s. ta_TaskId a = ''task-'' @ env_uuid E n) \<and> distinct (map ta_TaskId out)"

lemma backed_same:
  "backed E w s a \<Longrightarrow> s_leases s' = s_leases s \<Longrightarrow> jobs_of E (s_db s') = jobs_of E (s_db s) \<Longrightarrow> backed E w s' a"
  by (simp add: backed_def getLease_def)

lemma old_ids_later: "old_ids E s out \<Longrightarrow> s_tick s \<le> s_tick s' \<Longrightarrow> old_ids E s' out"
  unfolding old_ids_def by (meson less_le_trans)

lemma putJob_failed_jobs:
  assumes "store_laws E" "sane E s" "putJob E j s = (Some e, s')"
  shows "jobs_of E (s_db s') = jobs_of E (s_db s)"
  using arg_cong [OF putJob_view(2) [OF assms(1,2), of j], of mc_jobs] assms(3) by simp

lemma putJob_stored_jobs:
  assumes "store_laws E" "sane E s" "putJob E j s = (None, s')"
  shows "jobs_of E (s_db s') = (jobs_of E (s_db s))(j_Id j \<mapsto> j)" "sane E s'"
  using arg_cong [OF putJob_view(2) [OF assms(1,2), of j], of mc_jobs] putJob_view(1) [OF assms(1,2), of j] assms(3)
  by simp_all

lemma sane_pop: "sane E s \<Longrightarrow> PQ_Pop (s_queue s) = (r, q) \<Longrightarrow> sane E (s\<lparr>s_queue := q\<rparr>)"
  using pq_inv_ops(3) [of "s_queue s"] by (simp add: sane_def)

lemma poll_loop_backed:
  assumes laws: "store_laws E" and inj: "inj (env_uuid E)"
  shows "\<lbrakk>sane E s; old_ids E s out; \<forall>a \<in> set out. backed E w s a; poll_loop E w now n out s = (out', s')\<rbrakk> \<Longrightarrow>
    old_ids E s' out' \<and> (\<forall>a \<in> set out'. backed E w s' a)"
proof (induction out s rule: poll_loop_induct [of n _ E w now])
  case (full out s)
  then show ?case by (simp add: poll_loop_full)
next
  case (empty out s q)
  then have s': "out' = out" "s' = s\<lparr>s_queue := q\<rparr>" by (auto simp: poll_loop_empty)
  have "backed E w s' a" if "a \<in> set out" for a
    using empty.prems(3) that s' by - (rule backed_same [of E w s a], auto)
  then show ?case using empty.prems(2) s' by (simp add: old_ids_def)
next
  case (stale out s k q)
  have "\<forall>a \<in> set out. backed E w (s\<lparr>s_queue := q\<rparr>) a"
    using stale.prems(3) backed_same [of E w s _ "s\<lparr>s_queue := q\<rparr>"] by simp
  then show ?case
    using stale.IH sane_pop [OF stale.prems(1) stale(2)] stale.prems(2,4) poll_loop_stale [OF stale(1-3)]
    by (simp add: old_ids_def)
next
  case (refused out s k q job e s2)
  let ?s = "asked (s\<lparr>s_queue := q\<rparr>)"
  have s: "sane E ?s" using sane_pop [OF refused.prems(1) refused(2)] by (simp add: sane_def)
  have s': "out' = out" "s' = s2\<lparr>s_queue := snd (PQ_Push k (j_Priority job) (AsTime (j_CreatedAt job)) (s_queue s2))\<rparr>"
    using refused.prems(4) poll_loop_refused [OF refused(1-5)] by auto
  have s2: "s_leases s2 = s_leases s" "s_tick s2 = Suc (s_tick s)" "jobs_of E (s_db s2) = jobs_of E (s_db s)"
    using putJob_frame(7,14) [of E "running job w now" ?s] putJob_failed_jobs [OF laws s refused(5)] refused(5) by simp_all
  have "backed E w s' a" if "a \<in> set out" for a
    using refused.prems(3) that s' s2 by - (rule backed_same [of E w s a], auto)
  then show ?case using old_ids_later [OF refused.prems(2), of s'] s' s2(2) by simp
next
  case (leased out s k q job s2 l)
  let ?s = "asked (s\<lparr>s_queue := q\<rparr>)" and ?job = "running job w now" and ?a = "poll_assignment l job"
  let ?s3 = "Inc TasksDispatched (addLease l s2)"
  have s: "sane E ?s" using sane_pop [OF leased.prems(1) leased(2)] by (simp add: sane_def)
  have k: "jobs_of E (s_db s) k = Some job" "j_Id job = k" using get_job [OF laws leased.prems(1) leased(3)] by auto
  have id: "j_Id ?job = k" using k(2) by (simp add: running_def)
  have s2: "s_leases s2 = s_leases s" "s_tick s2 = Suc (s_tick s)" "jobs_of E (s_db s2) = (jobs_of E (s_db s))(k \<mapsto> ?job)" "sane E s2"
    using putJob_frame(7,14) [of E ?job ?s] putJob_stored_jobs [OF laws s leased(5)] leased(5) id by simp_all
  have l: "ls_taskID l = ''task-'' @ env_uuid E (s_tick s)" "ls_jobID l = k" "ls_workerID l = w" "ls_attempt l = j_Attempt ?job"
    using leased(6) by (simp_all add: poll_lease_def ids_New_def)
  have new: "ta_TaskId a \<noteq> ls_taskID l" if "a \<in> set out" for a
    using leased.prems(2) that inj l(1) by (fastforce simp: old_ids_def inj_def)
  have "backed E w ?s3 a" if "a \<in> set out" for a
  proof -
    have b: "backed E w s a" using leased.prems(3) that by blast
    then have "ta_JobId a \<noteq> k" using k(1) leased(4) by (auto simp: backed_def)
    then show ?thesis using b new [OF that] s2 by (simp add: backed_def getLease_def addLease_def)
  qed
  moreover have "backed E w ?s3 ?a"
    using l s2(3) by (auto simp: backed_def getLease_def addLease_def poll_assignment_def running_def)
  moreover have "old_ids E ?s3 (out @ [?a])"
    using old_ids_later [OF leased.prems(2), of ?s3] l(1) s2(2) new by (force simp: old_ids_def poll_assignment_def)
  moreover have "sane E ?s3" using s2(4) by (simp add: sane_def)
  ultimately show ?case using leased.IH leased.prems(4) poll_loop_leased [OF leased(1-6)] by simp
qed

section \<open>In which order\<close>

text \<open>The jobs of a queue by descending priority, then ascending creation time, then ID.\<close>

definition pq_order :: "pqueue \<Rightarrow> string list" where
  "pq_order q = map (\<lambda>(p, c, k). k) (sorted_list_of_set (key_set (pq_abs q)))"

lemma drain_order:
  assumes "pq_inv q" "card (dom (pq_abs q)) \<le> n"
  shows "drain PQ_Pop n q = pq_order q"
  unfolding pq_order_def pq.drain_sorted [OF assms, symmetric] by (simp add: pq_key_def comp_def)

lemma pq_order_pop:
  assumes "pq_inv q" "PQ_Pop q = (Some k, q')"
  shows "pq_order q = k # pq_order q'" "k \<notin> set (pq_order q')"
proof -
  obtain pc where q: "pq_abs q k = Some pc" "pq_abs q' = (pq_abs q)(k := None)" "pq_inv q'"
    by (rule pq.pop_Some [OF assms])
  have fin: "finite (dom (pq_abs q'))" "finite (dom (pq_abs q))" using finite_pq_abs assms(1) q(3) by blast+
  have "card (dom (pq_abs q)) \<le> Suc (card (dom (pq_abs q')))"
    using q(1,2) card_Suc_Diff1 [OF fin(2), of k] by (simp add: domIff)
  then have "drain PQ_Pop (Suc (card (dom (pq_abs q')))) q = pq_order q" by (rule drain_order [OF assms(1)])
  then show "pq_order q = k # pq_order q'" using assms(2) drain_order [OF q(3) order_refl] by simp
  show "k \<notin> set (pq_order q')" using q(2) finite_key_set [OF fin(1)] by (auto simp: pq_order_def key_set_def pq_key_def)
qed

lemma pq_order_empty: "pq_inv q \<Longrightarrow> PQ_Pop q = (None, q') \<Longrightarrow> pq_order q = []"
  using pq.pop_None by (force simp: pq_order_def)

lemma set_pq_order: "pq_inv q \<Longrightarrow> set (pq_order q) = dom (pq_abs q)"
  using finite_key_set [OF finite_pq_abs] by (force simp: pq_order_def key_set_def pq_key_def image_iff)

text \<open>The QUEUED jobs of the ready queue, in that order.\<close>

definition ready_jobs :: "'db env \<Rightarrow> 'db server \<Rightarrow> string list" where
  "ready_jobs E s = filter (\<lambda>k. \<not> stale_entry E s k) (pq_order (s_queue s))"

lemma stale_entry_abs:
  assumes "store_laws E" "sane E s"
  shows "stale_entry E s k \<longleftrightarrow> \<not> (\<exists>j. jobs_of E (s_db s) k = Some j \<and> j_State j = JOB_STATE_QUEUED)"
  using assms jobs.get_spec [of E "s_db s" k] by (auto simp: stale_entry_def sane_def split: option.splits)

lemma poll_loop_order:
  assumes laws: "store_laws E" and ok: "no_faults E"
  shows "sane E s \<Longrightarrow>
    map ta_JobId (fst (poll_loop E w now n out s)) = map ta_JobId out @ take (n - length out) (ready_jobs E s) \<and>
    ready_jobs E (snd (poll_loop E w now n out s)) = drop (n - length out) (ready_jobs E s)"
proof (induction out s rule: poll_loop_induct [of n _ E w now])
  case (full out s)
  then show ?case by (simp add: poll_loop_full)
next
  case (empty out s q)
  have "pq_order q = []"
    using pq.pop_spec [of "s_queue s", OF _ empty(2)] empty.prems by (simp add: sane_def pq_order_def key_set_def)
  then show ?case using pq_order_empty [OF _ empty(2)] empty.prems by (simp add: empty poll_loop_empty ready_jobs_def sane_def)
next
  case (stale out s k q)
  have inv: "pq_inv (s_queue s)" using stale.prems by (simp add: sane_def)
  have "ready_jobs E s = ready_jobs E (s\<lparr>s_queue := q\<rparr>)"
    using pq_order_pop [OF inv stale(2)] stale(3) by (simp add: ready_jobs_def stale_entry_def)
  then show ?case using stale.IH sane_pop [OF stale.prems stale(2)] poll_loop_stale [OF stale(1-3)] by simp
next
  case (refused out s k q job e s2)
  then show ?case
    using no_faults_writes(1) [OF ok, of "s_db s" "running job w now"] by (auto simp: putJob_def split: prod.splits option.splits)
next
  case (leased out s k q job s2 l)
  let ?s = "asked (s\<lparr>s_queue := q\<rparr>)" and ?s3 = "Inc TasksDispatched (addLease l s2)"
  have inv: "pq_inv (s_queue s)" using leased.prems by (simp add: sane_def)
  note pop = pq_order_pop [OF inv leased(2)]
  have s: "sane E ?s" using sane_pop [OF leased.prems leased(2)] by (simp add: sane_def)
  have k: "jobs_of E (s_db s) k = Some job" "j_Id job = k" using get_job [OF laws leased.prems leased(3)] by auto
  have s2: "jobs_of E (s_db s2) = (jobs_of E (s_db s))(k \<mapsto> running job w now)" "sane E s2" "s_queue s2 = q"
    using putJob_stored_jobs [OF laws s leased(5)] putJob_queue [OF leased(5)] k(2) by (simp_all add: running_def)
  have s3: "sane E ?s3" "s_db ?s3 = s_db s2" using s2(2) by (simp_all add: sane_def)
  have "stale_entry E ?s3 i = stale_entry E s i" if "i \<in> set (pq_order q)" for i
    using that pop(2) s2(1) stale_entry_abs [OF laws s3(1)] stale_entry_abs [OF laws leased.prems] s3(2) by auto
  then have "filter (\<lambda>i. \<not> stale_entry E ?s3 i) (pq_order q) = filter (\<lambda>i. \<not> stale_entry E s i) (pq_order q)"
    by (intro filter_cong) auto
  then have "ready_jobs E s = k # ready_jobs E ?s3"
    using pop(1) leased(3,4) s2(3) by (simp add: ready_jobs_def stale_entry_def)
  moreover have "n - length out = Suc (n - length (out @ [poll_assignment l job]))" using leased(1) by simp
  moreover have "ta_JobId (poll_assignment l job) = k" using leased(6) by (simp add: poll_assignment_def poll_lease_def)
  ultimately show ?case using leased.IH [OF s3(1)] poll_loop_leased [OF leased(1-6)] by simp
qed

lemma poll_loop_same:
  "s_node (snd (poll_loop E w now n out s)) = s_node s \<and> s_workers (snd (poll_loop E w now n out s)) = s_workers s \<and>
   s_closed (snd (poll_loop E w now n out s)) = s_closed s"
proof (induction out s rule: poll_loop_induct [of n _ E w now])
  case (refused out s k q job e s2)
  then show ?case using putJob_frame [of E "running job w now" "asked (s\<lparr>s_queue := q\<rparr>)"] by (simp add: poll_loop_refused)
next
  case (leased out s k q job s2 l)
  then show ?case using poll_loop_leased [OF leased(1-6)] putJob_frame [of E "running job w now" "asked (s\<lparr>s_queue := q\<rparr>)"] by simp
qed (simp_all add: poll_loop_full poll_loop_empty poll_loop_stale)

section \<open>Polls in a row\<close>

primrec polls :: "'db env \<Rightarrow> string \<Rightarrow> int \<Rightarrow> nat \<Rightarrow> 'db server \<Rightarrow> string list \<times> 'db server" where
  "polls E w m 0 s = ([], s)"
| "polls E w m (Suc n) s =
     (case PollTask E w m s of
        (Inl _, s) \<Rightarrow> polls E w m n s
      | (Inr out, s) \<Rightarrow> (case polls E w m n s of (ks, s) \<Rightarrow> (map ta_JobId out @ ks, s)))"

lemma ready_jobs_asked [simp]: "ready_jobs E (asked s) = ready_jobs E s"
  by (simp add: ready_jobs_def stale_entry_def)

lemma PollTask_order:
  assumes "store_laws E" "no_faults E" "sane E s" "requireLeader s = None" "workerKnown w s"
  obtains out s' where "PollTask E w m s = (Inr out, s')" "map ta_JobId out = take (batch_size m) (ready_jobs E s)"
    "ready_jobs E s' = drop (batch_size m) (ready_jobs E s)" "sane E s'" "requireLeader s' = None" "workerKnown w s'"
proof -
  obtain out s' where loop: "poll_loop E w (time_Now E s) (batch_size m) [] (asked s) = (out, s')" by fastforce
  have s: "sane E (asked s)" using assms(3) by (simp add: sane_def)
  show thesis
  proof (rule that [of out s'])
    show "PollTask E w m s = (Inr out, s')" using assms(4,5) loop by (simp add: PollTask_def Let_def)
    show "map ta_JobId out = take (batch_size m) (ready_jobs E s)" "ready_jobs E s' = drop (batch_size m) (ready_jobs E s)"
      using poll_loop_order [OF assms(1,2) s, of w "time_Now E s" "batch_size m" "[]"] loop by simp_all
    show "sane E s'"
      using refines_poll_loop [OF assms(1), of "asked s" w "time_Now E s" "batch_size m" "[]"] s loop by (simp add: refines_def)
    show "requireLeader s' = None" "workerKnown w s'"
      using poll_loop_same [of E w "time_Now E s" "batch_size m" "[]" "asked s"] assms(4,5) loop
      by (auto simp: requireLeader_def workerKnown_def split: if_splits)
  qed
qed

lemma polls_order:
  assumes "store_laws E" "no_faults E"
  shows "sane E s \<Longrightarrow> requireLeader s = None \<Longrightarrow> workerKnown w s \<Longrightarrow>
    fst (polls E w m n s) = take (n * batch_size m) (ready_jobs E s)"
proof (induction n arbitrary: s)
  case (Suc n)
  obtain out s' where s': "PollTask E w m s = (Inr out, s')" "map ta_JobId out = take (batch_size m) (ready_jobs E s)"
    "ready_jobs E s' = drop (batch_size m) (ready_jobs E s)" "sane E s'" "requireLeader s' = None" "workerKnown w s'"
    by (rule PollTask_order [OF assms Suc.prems])
  then show ?case using Suc.IH [OF s'(4-6)] by (auto simp: take_add split: prod.splits)
qed simp

lemma length_ready_jobs:
  assumes "sane E s"
  shows "length (ready_jobs E s) \<le> QueueDepth s"
proof -
  have inv: "pq_inv (s_queue s)" using assms by (simp add: sane_def)
  have "length (ready_jobs E s) \<le> length (pq_order (s_queue s))" by (simp add: ready_jobs_def)
  also have "\<dots> = card (key_set (pq_abs (s_queue s)))" by (simp add: pq_order_def)
  also have "\<dots> \<le> card (dom (pq_abs (s_queue s)))"
  proof -
    have "key_set (pq_abs (s_queue s)) = (\<lambda>k. pq_key k (the (pq_abs (s_queue s) k))) ` dom (pq_abs (s_queue s))"
      by (force simp: key_set_def)
    then show ?thesis using card_image_le finite_pq_abs [OF inv] by metis
  qed
  also have "\<dots> \<le> QueueDepth s" using card_pq_abs [OF inv] by (simp add: QueueDepth_def PQ_Len_def innerHeap_Len_def)
  finally show ?thesis .
qed

text \<open>A leader with two jobs in its ready queue, the later one with the higher priority.\<close>

definition polled_server :: "mem server" where
  "polled_server = (sample_server Leader [sample_job ''a'', sample_job ''b''] [sample_worker ''w''])
     \<lparr>s_queue := snd (PQ_Push ''b'' 5 0 (snd (PQ_Push ''a'' 1 0 PQ_New)))\<rparr>"

lemma polled_server_facts:
  "sane sample_env polled_server" "requireLeader polled_server = None" "workerKnown ''w'' polled_server"
  "''a'' \<in> dom (pq_abs (s_queue polled_server))" "jobs_of sample_env (s_db polled_server) ''a'' = Some (sample_job ''a'')"
  using sane_sample [of Leader "[sample_job ''a'', sample_job ''b'']" "[sample_worker ''w'']"]
  by (simp_all add: polled_server_def sane_def pq_inv_ops pq_inv_New pq_abs_Push requireLeader_def Node_IsLeader_def
      workerKnown_def sample_worker_def domIff)

section \<open>Properties of PollTask\<close>

text \<open>
  C19. With a store that takes writes, a leader answers a poll of a known worker with the first jobs of
  its ready queue that are still QUEUED, by descending priority, then age, then ID, as many as the
  batch allows; those jobs leave the queue and the others stay in their order.
\<close>

theorem poll_serves_by_priority:
  assumes "store_laws E" "no_faults E" "sane E s" "requireLeader s = None" "workerKnown w s"
  shows "\<exists>out s'. PollTask E w m s = (Inr out, s') \<and> map ta_JobId out = take (batch_size m) (ready_jobs E s) \<and>
    ready_jobs E s' = drop (batch_size m) (ready_jobs E s)"
  by (rule PollTask_order [OF assms]) blast

theorem poll_serves_by_priority_witness:
  "\<exists>out s'. PollTask sample_env ''w'' 2 polled_server = (Inr out, s') \<and>
     map ta_JobId out = take 2 (ready_jobs sample_env polled_server)"
  using poll_serves_by_priority [of sample_env polled_server "''w''" 2] polled_server_facts
  by (fastforce simp: batch_size_def maxBatch_def)



text \<open>
  C18. Every assignment a poll hands out, at most 64 of them and each under a task ID of its own, is
  backed by state: the leader holds a lease for it in the worker's name, and the job is stored as
  RUNNING on that worker with the same attempt number and the task the worker is told to run.
\<close>

theorem assignments_are_backed:
  assumes "store_laws E" "inj (env_uuid E)" "sane E s" "PollTask E w m s = (Inr out, s')"
  shows "length out \<le> 64 \<and> distinct (map ta_TaskId out) \<and> (\<forall>a \<in> set out. backed E w s' a)"
proof -
  have s: "sane E (asked s)" using assms(3) by (simp add: sane_def)
  have loop: "poll_loop E w (time_Now E s) (batch_size m) [] (asked s) = (out, s')"
    using assms(4) by (auto simp: PollTask_def Let_def split: option.splits if_splits prod.splits)
  then have "length out \<le> 64"
    using poll_loop_length [of "[]" "batch_size m" E w "time_Now E s" "asked s"] batch_size_bounds(2) [of m] by simp
  moreover have "old_ids E s' out \<and> (\<forall>a \<in> set out. backed E w s' a)"
    by (rule poll_loop_backed [OF assms(1,2) s _ _ loop]) (simp_all add: old_ids_def)
  ultimately show ?thesis by (auto simp: old_ids_def)
qed

theorem assignments_are_backed_witness:
  "\<exists>out s'. PollTask sample_env ''w'' 2 polled_server = (Inr out, s') \<and> (\<forall>a \<in> set out. backed sample_env ''w'' s' a)"
proof -
  obtain out s' where poll: "PollTask sample_env ''w'' 2 polled_server = (Inr out, s')"
    by (rule PollTask_order [OF store_laws_sample no_faults_sample polled_server_facts(1-3)])
  from assignments_are_backed [OF store_laws_sample _ polled_server_facts(1) poll] poll steadyD(3) [OF steady_sample]
  show ?thesis by blast
qed

end
