(* ===== verification/Exclusive.thy ===== *)
theory Exclusive
  imports Poll_Batch
begin

text \<open>
  At most one lease per job. A job under a lease is RUNNING, or has finished since; only RUNNING jobs
  that lose their lease become QUEUED again, and only QUEUED jobs are leased. Submitting a job again
  under the ID of a canceled one would break this, because the lease of the canceled attempt is kept
  until its worker reports or the reaper finds it; the runs considered here use every ID once.
\<close>

section \<open>Calm operations\<close>

definition settled :: "JobState \<Rightarrow> bool" where
  "settled st \<longleftrightarrow> st = JOB_STATE_RUNNING \<or> terminal st"

definition busy :: "'db env \<Rightarrow> 'db server \<Rightarrow> string \<Rightarrow> bool" where
  "busy E s k \<longleftrightarrow> (\<exists>j. jobs_of E (s_db s) k = Some j \<and> settled (j_State j))"

definition calm :: "'db env \<Rightarrow> string set \<Rightarrow> 'db server \<Rightarrow> 'db server \<Rightarrow> bool" where
  "calm E X s s' \<longleftrightarrow>
     (sane E s \<longrightarrow> sane E s' \<and> s_leases s' = s_leases s \<and> (\<forall>k. k \<notin> X \<longrightarrow> busy E s k \<longrightarrow> busy E s' k))"

lemma calm_refl [simp, intro]: "calm E X s s"
  by (simp add: calm_def)

lemma calm_trans [trans]: "calm E X s t \<Longrightarrow> calm E X t u \<Longrightarrow> calm E X s u"
  by (simp add: calm_def)

lemma calm_mono: "calm E X s t \<Longrightarrow> X \<subseteq> Y \<Longrightarrow> calm E Y s t"
  by (auto simp: calm_def)

lemma calm_sane: "(sane E s \<Longrightarrow> calm E X s t) \<Longrightarrow> calm E X s t"
  by (auto simp: calm_def)

lemma calm_same:
  "s_db s' = s_db s \<Longrightarrow> (pq_inv (s_queue s) \<Longrightarrow> pq_inv (s_queue s')) \<Longrightarrow> s_leases s' = s_leases s \<Longrightarrow> calm E X s s'"
  by (simp add: calm_def sane_def busy_def)

lemma calm_basic [simp, intro]:
  "calm E X s (asked s)" "calm E X s (Inc c s)" "calm E X s (enqueueJob E k s)" "calm E X s (armEnqueue E k d s)"
  "calm E X s (s\<lparr>s_queue := snd (PQ_Remove k (s_queue s))\<rparr>)" "calm E X s (s\<lparr>s_queue := snd (PQ_Push k p t (s_queue s))\<rparr>)"
  "calm E X s (removeFromIndex k s)" "calm E X s (addDeps j s)"
proof -
  have "pq_inv (s_queue s) \<Longrightarrow> pq_inv (s_queue (enqueueJob E k s))"
    by (auto simp: enqueueJob_def pq_inv_ops split: sum.splits)
  then show "calm E X s (enqueueJob E k s)" "calm E X s (armEnqueue E k d s)"
    by (auto simp: armEnqueue_def intro!: calm_same)
qed (auto intro!: calm_same simp: pq_inv_ops)

lemma calm_putJob:
  assumes laws: "store_laws E" and j: "j_Id j \<in> X \<or> settled (j_State j) \<or> \<not> busy E s (j_Id j)"
  shows "calm E X s (snd (putJob E j s))"
proof (rule calm_sane)
  assume s: "sane E s"
  have "jobs_of E (s_db (snd (putJob E j s))) = jobs_of E (s_db s) \<or>
      jobs_of E (s_db (snd (putJob E j s))) = (jobs_of E (s_db s))(j_Id j \<mapsto> j)"
    using arg_cong [OF putJob_view(2) [OF laws s, of j], of mc_jobs] by (auto split: option.splits)
  then show ?thesis using j putJob_view(1) [OF laws s, of j] by (auto simp: calm_def busy_def)
qed

lemma calm_put_failed:
  assumes "store_laws E" "putJob E j s = (Some e, s')"
  shows "calm E X s s'"
proof (rule calm_sane)
  assume s: "sane E s"
  have "mc_jobs (view E s') = mc_jobs (view E s)" "sane E s'"
    using putJob_view [OF assms(1) s, of j] assms(2) by simp_all
  moreover have "s_leases s' = s_leases s" using putJob_frame(7) [of E j s] assms(2) by simp
  ultimately show ?thesis by (simp add: calm_def busy_def)
qed

lemma calm_put:
  assumes "store_laws E" "putJob E j s = (r, s')" "r = None \<Longrightarrow> j_Id j \<in> X \<or> settled (j_State j) \<or> \<not> busy E s (j_Id j)"
  shows "calm E X s s'"
  using calm_put_failed [OF assms(1)] calm_putJob [OF assms(1), of j X s] assms(2,3) by (cases r) (metis snd_conv)+

lemma calm_cancel_one:
  assumes laws: "store_laws E"
  shows "calm E X s (cancel_one E now r k s)"
proof (cases "Store_GetJob E (s_db s) k")
  case (Inr job)
  let ?j = "job\<lparr>j_State := JOB_STATE_CANCELED, j_LastError := r, j_UpdatedAt := Some now\<rparr>"
  let ?s = "snd (putJob E ?j s)"
  have "calm E X s ?s" by (rule calm_putJob [OF laws]) (simp add: settled_def)
  also have "calm E X ?s (Inc JobsCanceled (?s\<lparr>s_queue := snd (PQ_Remove k (s_queue ?s))\<rparr>))"
    by (rule calm_trans [OF calm_basic(5) calm_basic(2)])
  finally show ?thesis using Inr by (simp add: cancel_one_def Let_def)
qed (simp add: cancel_one_def)

lemma calm_cancelCascade:
  assumes laws: "store_laws E"
  shows "calm E X s (cancelCascade E k r s)"
proof -
  have "calm E X s (cancel_loop E now visited work r s)" for now visited work r s
  proof (induction visited work r s rule: cancel_loop_induct [of _ E now])
    case (new visited work r s ds s2)
    let ?s1 = "cancel_one E now r (last work) s"
    have "calm E X s ?s1" by (rule calm_cancel_one [OF laws])
    also have "calm E X ?s1 (removeFromIndex (last work) s2)"
      using new(3) by (auto simp: dependentsOf_def intro: calm_trans [OF calm_basic(1) calm_basic(7)])
    also note new(4)
    finally show ?case using cancel_loop_new [OF new(1-3)] by simp
  qed (simp_all add: cancel_loop_seen)
  then show ?thesis by (auto simp: cancelCascade_def Let_def intro: calm_trans [OF calm_basic(1)])
qed

lemma calm_makeReady:
  assumes laws: "store_laws E" and j: "j_Id j \<in> X \<or> \<not> busy E s (j_Id j)"
  shows "calm E X s (makeReady E j now s)"
proof -
  obtain j' delay s1 where j': "same_job j j'" and s1: "s1 = s \<or> s1 = asked s" and eq: "makeReady E j now s =
      (case putJob E j' s1 of (Some _, s) \<Rightarrow> s | (None, s) \<Rightarrow> armEnqueue E (j_Id j) delay s)"
    by (rule makeReady_shape [of j s E now])
  obtain r s2 where put: "putJob E j' s1 = (r, s2)" by force
  have "calm E X s s1" using s1 by auto
  also have "calm E X s1 s2"
    by (rule calm_put [OF laws put]) (use j j' s1 in \<open>auto simp: same_job_def busy_def\<close>)
  also have "calm E X s2 (makeReady E j now s)" by (simp add: eq put split: option.split)
  finally show ?thesis .
qed

lemma get_pending:
  assumes laws: "store_laws E" and s: "sane E s" and get: "Store_GetJob E (s_db s) k = Inr job" and st: "\<not> settled (j_State job)"
  shows "\<not> busy E s (j_Id job)" "j_Id job = k" "\<not> busy E s k"
  using get_job [OF laws s get] st by (simp_all add: busy_def)

lemma calm_tryPromote:
  assumes laws: "store_laws E"
  shows "calm E X s (tryPromote E k s)"
proof (rule calm_sane)
  assume s: "sane E s"
  show ?thesis
  proof (cases "Store_GetJob E (s_db s) k")
    case (Inr job)
    have "calm E X s (makeReady E job (time_Now E s) (asked s))" if "j_State job = JOB_STATE_PENDING"
    proof -
      have "\<not> busy E s (j_Id job)" using get_pending(1) [OF laws s Inr] that by (simp add: settled_def)
      then have "calm E X (asked s) (makeReady E job (time_Now E s) (asked s))" by (intro calm_makeReady [OF laws]) (simp add: busy_def)
      then show ?thesis by (rule calm_trans [OF calm_basic(1)])
    qed
    then show ?thesis
      using Inr calm_cancelCascade [OF laws]
      by (auto simp: tryPromote_def split: prod.splits intro: calm_trans [OF _ calm_basic(7)])
  qed (simp add: tryPromote_def)
qed

lemma calm_fold: "(\<And>x s. calm E X s (f x s)) \<Longrightarrow> calm E X s (fold f xs s)"
  by (induction xs arbitrary: s) (auto intro: calm_trans)

lemma calm_promoteDependents: "store_laws E \<Longrightarrow> calm E X s (promoteDependents E k s)"
  by (auto simp: promoteDependents_def dependentsOf_def intro: calm_trans [OF calm_basic(1) calm_fold] calm_tryPromote)

section \<open>Lost attempts\<close>

lemma calm_maybeRescheduleCron:
  assumes laws: "store_laws E" and res: "maybeRescheduleCron E job now s = (b, job', s')"
  shows "calm E (if b then {j_Id job} else {}) s s'"
proof (cases "\<exists>next. Schedule_GetCronExpr (j_Schedule job) \<noteq> [] \<and> nextCron E (Schedule_GetCronExpr (j_Schedule job)) now = Inr next")
  case True
  then obtain "next" where n: "Schedule_GetCronExpr (j_Schedule job) \<noteq> []"
    "nextCron E (Schedule_GetCronExpr (j_Schedule job)) now = Inr next" by blast
  let ?j = "job\<lparr>j_State := JOB_STATE_QUEUED, j_Attempt := 0, j_AssignedWorkerId := [], j_LastError := [], j_FinishedAt := None,
    j_ScheduledAt := Some next, j_UpdatedAt := Some now\<rparr>"
  obtain r s1 where put: "putJob E ?j s = (r, s1)" by force
  have s1: "calm E {j_Id job} s s1" by (rule calm_put [OF laws put]) simp
  show ?thesis
  proof (cases r)
    case None
    then have "b" "s' = armEnqueue E (j_Id job) (time_Until E s1 next) (asked s1)"
      using res n put by (simp_all add: maybeRescheduleCron_def Let_def)
    then show ?thesis using calm_trans [OF s1 calm_trans [OF calm_basic(1) calm_basic(4)]] by simp
  next
    case (Some e)
    then have "\<not> b" "s' = s1" using res n put by (simp_all add: maybeRescheduleCron_def Let_def)
    then show ?thesis using calm_put_failed [OF laws] put Some by simp
  qed
next
  case False
  then have "\<not> b" "s' = s" using res by (auto simp: maybeRescheduleCron_def Let_def split: if_splits sum.splits)
  then show ?thesis by simp
qed

lemma calm_deadLetter:
  assumes laws: "store_laws E" and "Store_PutDeadLetter E (s_db s) j = (r, db)"
  shows "calm E X s (s\<lparr>s_db := db\<rparr>)"
  using PutDeadLetter_touches [OF laws, of s j r db "{}"] assms(2) by (auto simp: calm_def busy_def touches_def)

text \<open>If a failure cannot be recorded, the job is as it was.\<close>

lemma calm_handleFailure:
  assumes laws: "store_laws E" and res: "handleFailure E job msg now s = (e, job', s')"
  shows "calm E (if e = None then {j_Id job} else {}) s s'"
  using res
proof (cases rule: handleFailure_cases)
  case (retry d r s1)
  have id: "j_Id job' = j_Id job" using retry(2) by simp
  have "calm E (if e = None then {j_Id job} else {}) (asked s) s1"
    by (rule calm_put [OF laws retry(3)]) (use id retry(5) in simp)
  also have "calm E (if e = None then {j_Id job} else {}) s1 s'"
    using retry(4) by (auto intro: calm_trans [OF calm_basic(4) calm_basic(2)])
  finally show ?thesis by (rule calm_trans [OF calm_basic(1)])
next
  case rearm
  then show ?thesis using calm_maybeRescheduleCron [OF laws rearm(2)] by simp
next
  case (no_letter j2 s2 er db)
  show ?thesis
    using calm_trans [OF calm_maybeRescheduleCron [OF laws no_letter(2)]] calm_deadLetter [OF laws no_letter(4)] no_letter(5,6) by auto
next
  case (no_job j2 s2 db er)
  have "calm E {} s (s2\<lparr>s_db := db\<rparr>)"
    using calm_trans [OF calm_maybeRescheduleCron [OF laws no_job(2)]] calm_deadLetter [OF laws no_job(4)] by simp
  also have "calm E {} (s2\<lparr>s_db := db\<rparr>) s'" by (rule calm_put_failed [OF laws no_job(5)])
  finally show ?thesis using no_job(6) by auto
next
  case (buried j2 s2 db s3)
  have "calm E {} s (s2\<lparr>s_db := db\<rparr>)"
    using calm_trans [OF calm_maybeRescheduleCron [OF laws buried(2)]] calm_deadLetter [OF laws buried(4)] by simp
  also have "calm E {} (s2\<lparr>s_db := db\<rparr>) s3"
    by (rule calm_put [OF laws buried(5)]) (use buried(3) in \<open>simp add: settled_def\<close>)
  also have "calm E {} s3 s'"
    unfolding buried(6) by (rule calm_trans [OF calm_basic(2) calm_trans [OF calm_basic(7) calm_cancelCascade [OF laws]]])
  finally show ?thesis by (rule calm_mono) simp
qed

section \<open>Leases\<close>

definition lease_ok :: "'db env \<Rightarrow> 'db server \<Rightarrow> bool" where
  "lease_ok E s \<longleftrightarrow>
     (\<forall>t l. getLease t s = Some l \<longrightarrow> busy E s (ls_jobID l) \<and>
        (\<forall>t' l'. getLease t' s = Some l' \<longrightarrow> ls_jobID l' = ls_jobID l \<longrightarrow> t' = t))"

lemma lease_ok_none: "s_leases s = [] \<Longrightarrow> lease_ok E s"
  by (simp add: lease_ok_def getLease_def)

lemma lease_ok_same: "s_db s' = s_db s \<Longrightarrow> s_leases s' = s_leases s \<Longrightarrow> lease_ok E s' = lease_ok E s"
  by (simp add: lease_ok_def busy_def getLease_def)

lemma lease_ok_asked [simp]: "lease_ok E (asked s) = lease_ok E s"
  by (rule lease_ok_same) simp_all

lemma lease_ok_calm: "lease_ok E s \<Longrightarrow> calm E {} s s' \<Longrightarrow> sane E s \<Longrightarrow> lease_ok E s'"
  by (simp add: lease_ok_def calm_def getLease_def)

lemma lease_ok_drop:
  assumes "lease_ok E s" "getLease t s = Some l" "calm E {ls_jobID l} s s'" "sane E s"
  shows "lease_ok E (removeLease t s')"
proof -
  have same: "getLease i (removeLease t s') = (if i = t then None else getLease i s)" for i
    using assms(3,4) by (simp add: calm_def getLease_def removeLease_def delete_conv')
  have "busy E (removeLease t s') (ls_jobID l')" if "getLease i s = Some l'" "i \<noteq> t" for i l'
  proof -
    have "ls_jobID l' \<noteq> ls_jobID l" "busy E s (ls_jobID l')" using assms(1,2) that unfolding lease_ok_def by blast+
    then show ?thesis using assms(3,4) by (simp add: calm_def busy_def)
  qed
  then show ?thesis using assms(1) by (auto simp: lease_ok_def same split: if_splits)
qed

lemma lease_ok_remove: "lease_ok E s \<Longrightarrow> lease_ok E (removeLease t s)"
  by (auto simp: lease_ok_def busy_def getLease_def removeLease_def delete_conv')

lemma lease_ok_add:
  assumes "lease_ok E s" "\<And>t l'. getLease t s = Some l' \<Longrightarrow> ls_jobID l' \<noteq> ls_jobID l" "busy E s (ls_jobID l)"
  shows "lease_ok E (addLease l s)"
proof -
  have "getLease i (addLease l s) = (if i = ls_taskID l then Some l else getLease i s)" for i
    by (simp add: getLease_def addLease_def update_conv')
  moreover have "busy E (addLease l s) k = busy E s k" for k by (simp add: busy_def)
  ultimately show ?thesis using assms unfolding lease_ok_def by (metis option.inject)
qed

section \<open>Steps keep the leases exclusive\<close>

text \<open>A lease that is gone before its job moves.\<close>

lemma lease_ok_gone:
  assumes ok: "lease_ok E s" and s: "sane E s" and l: "getLease t s = Some l" and c: "calm E {ls_jobID l} (removeLease t s0) s'"
    and s0: "s0 = s \<or> s0 = asked s"
  shows "lease_ok E s'"
proof -
  let ?s = "removeLease t s0"
  have s1: "sane E ?s" "lease_ok E ?s" using s lease_ok_remove [of E s0] ok s0 by (auto simp: sane_def)
  have out: "ls_jobID l' \<noteq> ls_jobID l" if "getLease i ?s = Some l'" for i l'
  proof -
    have "i \<noteq> t" "getLease i s = Some l'" using that s0 by (auto simp: getLease_def removeLease_def delete_conv' split: if_splits)
    then show ?thesis using ok l unfolding lease_ok_def by blast
  qed
  have "getLease i s' = getLease i ?s" for i using c s1 by (simp add: calm_def getLease_def)
  moreover have "busy E s' (ls_jobID l')" if "getLease i ?s = Some l'" for i l'
    using c s1 out [OF that] that unfolding calm_def lease_ok_def by blast
  ultimately show ?thesis using s1(2) unfolding lease_ok_def by metis
qed

text \<open>A requeue does nothing, or takes the lease away and then moves at most the job of the lease.\<close>

lemma requeueLease_calm:
  assumes laws: "store_laws E" and s: "sane E s"
  obtains (same) "requeueLease E reason t s = s"
  | (gone) l where "getLease t s = Some l" "calm E {ls_jobID l} (removeLease t s) (requeueLease E reason t s)"
proof (cases "getLease t s")
  case (Some l)
  let ?s = "removeLease t s"
  have "calm E {ls_jobID l} ?s (requeueLease E reason t s)"
  proof (cases "\<exists>job. Store_GetJob E (s_db s) (ls_jobID l) = Inr job \<and> j_State job = JOB_STATE_RUNNING")
    case True
    then obtain job where job: "Store_GetJob E (s_db s) (ls_jobID l) = Inr job" "j_State job = JOB_STATE_RUNNING" by blast
    obtain e job' s' where res: "handleFailure E job reason (time_Now E (Inc TasksRequeued ?s)) (asked (Inc TasksRequeued ?s)) = (e, job', s')"
      by (metis prod_cases3)
    have id: "j_Id job = ls_jobID l" by (rule get_job(2) [OF laws s job(1)])
    have "calm E {ls_jobID l} ?s s'"
      by (rule calm_trans [OF calm_basic(2) calm_trans [OF calm_basic(1) calm_mono [OF calm_handleFailure [OF laws res]]]]) (simp add: id)
    then show ?thesis using Some job res by (simp add: requeueLease_def Let_def)
  next
    case False
    then have "requeueLease E reason t s = ?s" using Some by (auto simp: requeueLease_def Let_def split: sum.splits)
    then show ?thesis by simp
  qed
  then show thesis using Some gone by blast
qed (use same in \<open>simp add: requeueLease_def\<close>)

lemma lease_ok_requeueLease:
  assumes laws: "store_laws E" and s: "sane E s" "lease_ok E s"
  shows "lease_ok E (requeueLease E reason t s)" "sane E (requeueLease E reason t s)"
proof -
  have "lease_ok E (requeueLease E reason t s) \<and> sane E (requeueLease E reason t s)"
    using laws s(1)
  proof (cases rule: requeueLease_calm [of E s reason t])
    case (gone l)
    then show ?thesis using lease_ok_gone [OF s(2,1) gone(1,2)] s(1) by (simp add: calm_def sane_def)
  qed (use s in simp)
  then show "lease_ok E (requeueLease E reason t s)" "sane E (requeueLease E reason t s)" by blast+
qed

lemma lease_ok_requeues:
  "store_laws E \<Longrightarrow> sane E s \<and> lease_ok E s \<Longrightarrow>
   sane E (fold (requeueLease E reason) ts s) \<and> lease_ok E (fold (requeueLease E reason) ts s)"
  by (induction ts arbitrary: s) (simp_all add: lease_ok_requeueLease)

lemma calm_putWorker:
  assumes laws: "store_laws E"
  shows "calm E X s (snd (putWorker E w s))"
proof (rule calm_sane)
  assume s: "sane E s"
  have "sane E (snd (putWorker E w s))" "mc_jobs (view E (snd (putWorker E w s))) = mc_jobs (view E s)"
    using putWorker_view [OF laws s, of w] by simp_all
  then show ?thesis by (simp add: calm_def busy_def)
qed

lemma lease_ok_reapOnce:
  assumes laws: "store_laws E" and s: "sane E s" "lease_ok E s"
  shows "lease_ok E (reapOnce E s)"
proof -
  let ?now = "time_Now E s" and ?ok = "\<lambda>s. sane E s \<and> lease_ok E s"
  let ?changes = "reap_changes E ?now (asked s)"
  let ?s1 = "fold (\<lambda>(_, w) s. snd (putWorker E w s)) ?changes (asked (asked s))"
  have calm: "calm E {} s ?s1"
    by (rule calm_trans [OF calm_basic(1) calm_trans [OF calm_basic(1) calm_fold]]) (auto simp: calm_putWorker [OF laws])
  then have "?ok ?s1" using lease_ok_calm [OF s(2) calm s(1)] s(1) by (simp add: calm_def)
  moreover have "?ok (fold (requeueLeasesForWorker E r) ws u)" if "?ok u" for r ws u
    using that
  proof (induction ws arbitrary: u)
    case (Cons w ws)
    have "?ok (asked u)" using Cons.prems lease_ok_calm [OF _ calm_basic(1)] by (auto simp: sane_def)
    then show ?case using Cons.IH lease_ok_requeues [OF laws] by (simp add: requeueLeasesForWorker_def)
  qed simp
  ultimately have "?ok (fold (requeueLeasesForWorker E r) ws ?s1)" for r ws by blast
  then have "?ok (asked (fold (requeueLeasesForWorker E r) ws ?s1))" for r ws
    by (simp add: sane_def)
  then show ?thesis using lease_ok_requeues [OF laws] by (simp add: reapOnce_def Let_def)
qed

lemma lease_ok_poll_loop:
  assumes laws: "store_laws E"
  shows "sane E s \<Longrightarrow> lease_ok E s \<Longrightarrow> lease_ok E (snd (poll_loop E w now n out s))"
proof (induction out s rule: poll_loop_induct [of n _ E w now])
  case (full out s)
  then show ?case by (simp add: poll_loop_full)
next
  case (empty out s q)
  then show ?case by (simp add: poll_loop_empty lease_ok_def busy_def getLease_def)
next
  case (stale out s k q)
  have "sane E (s\<lparr>s_queue := q\<rparr>)" using stale.prems(1) pq_inv_ops(3) [of "s_queue s"] stale(2) by (simp add: sane_def)
  then show ?case
    using stale.IH stale.prems poll_loop_stale [OF stale(1-3)] by (simp add: lease_ok_def busy_def getLease_def)
next
  case (refused out s k q job e s2)
  have s: "sane E (asked (s\<lparr>s_queue := q\<rparr>))" using refused.prems(1) pq_inv_ops(3) [of "s_queue s"] refused(2) by (simp add: sane_def)
  have "lease_ok E (asked (s\<lparr>s_queue := q\<rparr>))" using refused.prems(2) by (simp add: lease_ok_def busy_def getLease_def)
  then have "lease_ok E s2" by (rule lease_ok_calm [OF _ calm_put_failed [OF laws refused(5)] s])
  then show ?case using poll_loop_refused [OF refused(1-5)] by (simp add: lease_ok_def busy_def getLease_def)
next
  case (leased out s k q job s2 l)
  let ?s = "asked (s\<lparr>s_queue := q\<rparr>)"
  have s: "sane E ?s" using leased.prems(1) pq_inv_ops(3) [of "s_queue s"] leased(2) by (simp add: sane_def)
  have ok: "lease_ok E ?s" using leased.prems(2) by (simp add: lease_ok_def busy_def getLease_def)
  have free: "\<not> busy E ?s k" and id: "j_Id job = k"
    using get_pending [OF laws leased.prems(1) leased(3)] leased(4) by (simp_all add: busy_def settled_def)
  have c: "calm E {} ?s s2" by (rule calm_put [OF laws leased(5)]) (simp add: settled_def running_def)
  have s2: "sane E s2" "lease_ok E s2" using c s lease_ok_calm [OF ok c s] by (simp_all add: calm_def)
  have "jobs_of E (s_db s2) k = Some (running job w now)"
    using putJob_view(2) [OF laws s, of "running job w now"] leased(5) id
    by (auto dest!: arg_cong [where f = mc_jobs] simp: running_def)
  then have "busy E s2 (ls_jobID l)" using leased(6) by (simp add: busy_def settled_def running_def poll_lease_def)
  moreover have "ls_jobID l' \<noteq> ls_jobID l" if "getLease t s2 = Some l'" for t l'
  proof -
    have "getLease t ?s = Some l'" using c s that by (simp add: calm_def getLease_def)
    then have "busy E ?s (ls_jobID l')" using ok unfolding lease_ok_def by blast
    then show ?thesis using free leased(6) by (auto simp: poll_lease_def)
  qed
  ultimately have "lease_ok E (addLease l s2)" by (intro lease_ok_add [OF s2(2)])
  then have "lease_ok E (Inc TasksDispatched (addLease l s2))" by (simp add: lease_ok_same [of "Inc TasksDispatched (addLease l s2)" "addLease l s2"])
  then show ?case using leased.IH s2(1) poll_loop_leased [OF leased(1-6)] by (simp add: sane_def)
qed

text \<open>A report moves at most the job of its lease, before or after it drops the lease.\<close>

lemma ReportTask_calm:
  assumes laws: "store_laws E" and s: "sane E s"
  obtains (same) "calm E {} s (snd (ReportTask E req s))"
  | (dropped) l s0 where "getLease (rt_TaskId req) s = Some l" "calm E {ls_jobID l} s s0"
      "snd (ReportTask E req s) = removeLease (rt_TaskId req) s0"
  | (gone) l where "getLease (rt_TaskId req) s = Some l"
      "calm E {ls_jobID l} (removeLease (rt_TaskId req) (asked s)) (snd (ReportTask E req s))"
proof (cases "requireLeader s = None \<and> (\<exists>l job. getLease (rt_TaskId req) s = Some l \<and>
    Store_GetJob E (s_db s) (ls_jobID l) = Inr job \<and> j_State job = JOB_STATE_RUNNING)")
  case False
  then have "snd (ReportTask E req s) = s \<or>
      (\<exists>l. getLease (rt_TaskId req) s = Some l \<and> snd (ReportTask E req s) = removeLease (rt_TaskId req) s)"
    by (auto simp: ReportTask_def split: option.splits sum.splits)
  then show thesis using same dropped [OF _ calm_refl] by fastforce
next
  case True
  then obtain l job where l: "requireLeader s = None" "getLease (rt_TaskId req) s = Some l"
    "Store_GetJob E (s_db s) (ls_jobID l) = Inr job" "j_State job = JOB_STATE_RUNNING" by blast
  let ?t = "rt_TaskId req" and ?now = "time_Now E s"
  have id: "j_Id job = ls_jobID l" by (rule get_job(2) [OF laws s l(3)])
  show thesis
  proof (cases "rt_Result req")
    case TASK_RESULT_FAILED
    obtain e job' s' where res: "handleFailure E job (rt_Error req) ?now (asked s) = (e, job', s')" by (metis prod_cases3)
    have c: "calm E (if e = None then {ls_jobID l} else {}) s s'"
      using calm_trans [OF calm_basic(1) calm_handleFailure [OF laws res]] id by (auto split: if_splits)
    have "snd (ReportTask E req s) = (if e = None then removeLease ?t s' else s')"
      using l res TASK_RESULT_FAILED by (cases e) (simp_all add: ReportTask_def Let_def)
    then show thesis using c dropped [OF l(2), of s'] same by (auto split: if_splits)
  next
    case TASK_RESULT_SUCCEEDED
    let ?s = "removeLease ?t (asked s)"
    obtain b job' s1 where res: "maybeRescheduleCron E job ?now ?s = (b, job', s1)" by (metis prod_cases3)
    obtain e s2 where put: "putJob E (succeeded job' ?now) s1 = (e, s2)" by force
    let ?s3 = "promoteDependents E (j_Id (succeeded job' ?now)) (removeFromIndex (j_Id (succeeded job' ?now)) (Inc JobsSucceeded s2))"
    have s': "snd (ReportTask E req s) = (if b then s1 else if e = None then ?s3 else s2)"
      using l res put TASK_RESULT_SUCCEEDED by (cases b; cases e) (simp_all add: ReportTask_def Let_def)
    have "calm E {} s1 s2" by (rule calm_put [OF laws put]) (simp add: settled_def succeeded_def)
    then have "calm E {} s1 (if e = None then ?s3 else s2)"
      by (auto intro: calm_trans [OF _ calm_trans [OF calm_basic(2) calm_trans [OF calm_basic(7) calm_promoteDependents [OF laws]]]])
    then have "calm E {ls_jobID l} ?s (if b then s1 else if e = None then ?s3 else s2)"
      using calm_mono [OF calm_maybeRescheduleCron [OF laws res], of "{ls_jobID l}"] id
      by (auto intro: calm_trans calm_mono split: if_splits)
    then show thesis using gone [OF l(2)] s' by simp
  qed (use l same in \<open>auto simp: ReportTask_def Let_def\<close>)
qed

lemma lease_ok_ReportTask:
  assumes laws: "store_laws E" and s: "sane E s" "lease_ok E s"
  shows "lease_ok E (snd (ReportTask E req s))"
  using laws s(1)
proof (cases rule: ReportTask_calm [of E s req])
  case same
  then show ?thesis by (rule lease_ok_calm [OF s(2) _ s(1)])
next
  case (dropped l s0)
  then show ?thesis using lease_ok_drop [OF s(2) dropped(1,2) s(1)] by simp
next
  case (gone l)
  then show ?thesis using lease_ok_gone [OF s(2,1) gone(1,2)] by blast
qed

lemma calm_SubmitJob:
  assumes laws: "store_laws E" and res: "SubmitJob E (Some job) s = (Inr k, s')" and new: "jobs_of E (s_db s) k = None"
  shows "calm E {} s s'"
  using res
proof (rule SubmitJob_shape)
  fix j s1
  assume j: "j_Id j = k" "s1 = s \<or> s1 = asked s \<or> s1 = asked (asked s)"
    and s': "s' = Inc JobsSubmitted (placeNewJob E j (time_Now E s1) (asked s1))"
  let ?s = "asked s1"
  obtain ready failed where deps: "depsSatisfied E j ?s = (ready, failed)" by force
  have "s_db ?s = s_db s" using j(2) by auto
  then have new: "\<not> busy E ?s k" using new by (simp add: busy_def)
  have put: "calm E {} ?s (snd (putJob E i ?s))" if "j_Id i = k" for i using calm_putJob [OF laws] that new by simp
  have ready: "calm E {} ?s (makeReady E j t ?s)" for t using calm_makeReady [OF laws, of j] new j(1) by simp
  have "calm E {} ?s (placeNewJob E j (time_Now E s1) ?s)"
    using deps j(1) by (auto simp: placeNewJob_def Let_def ready intro: calm_trans [OF put calm_basic(2)] calm_trans [OF put calm_basic(8)])
  then have c: "calm E {} ?s s'" unfolding s' by (rule calm_trans [OF _ calm_basic(2)])
  have "calm E {} s ?s" using j(2) by (auto intro: calm_trans [OF calm_basic(1) calm_trans [OF calm_basic(1) calm_basic(1)]] calm_trans [OF calm_basic(1) calm_basic(1)])
  then show ?thesis using c by (rule calm_trans)
qed

lemma calm_CancelJob:
  assumes laws: "store_laws E"
  shows "calm E {} s (snd (CancelJob E k s))"
proof (cases "requireLeader s = None \<and> (\<exists>job. loadJob E k s = Inr job \<and> \<not> terminal (j_State job))")
  case True
  then obtain job where job: "requireLeader s = None" "loadJob E k s = Inr job" "\<not> terminal (j_State job)" by blast
  let ?j = "job\<lparr>j_State := JOB_STATE_CANCELED, j_UpdatedAt := Some (time_Now E s)\<rparr>"
  obtain r s1 where put: "putJob E ?j (asked s) = (r, s1)" by force
  have "calm E {} (asked s) s1" by (rule calm_put [OF laws put]) (simp add: settled_def)
  then have c: "calm E {} s s1" by (rule calm_trans [OF calm_basic(1)])
  let ?s2 = "Inc JobsCanceled (s1\<lparr>s_queue := snd (PQ_Remove (j_Id job) (s_queue s1))\<rparr>)"
  let ?s3 = "cancelCascade E (j_Id job) (''upstream dependency '' @ j_Id job @ '' was canceled'') ?s2"
  have "calm E {} s1 ?s3" by (rule calm_trans [OF calm_basic(5) calm_trans [OF calm_basic(2) calm_cancelCascade [OF laws]]])
  then have "calm E {} s ?s3" by (rule calm_trans [OF c])
  moreover have "j_State job \<noteq> JOB_STATE_CANCELED \<and> j_State job \<noteq> JOB_STATE_SUCCEEDED \<and> j_State job \<noteq> JOB_STATE_FAILED"
    using job(3) by auto
  then have "snd (CancelJob E k s) = (if r = None then ?s3 else s1)"
    using job(1,2) put by (cases r) (simp_all add: CancelJob_def Let_def)
  ultimately show ?thesis using c by simp
next
  case False
  have "terminal st \<Longrightarrow> st = JOB_STATE_CANCELED \<or> st = JOB_STATE_SUCCEEDED \<or> st = JOB_STATE_FAILED" for st by (cases st) simp_all
  then have "snd (CancelJob E k s) = s" using False by (auto simp: CancelJob_def split: option.splits sum.splits)
  then show ?thesis by simp
qed

lemma calm_workers:
  assumes laws: "store_laws E"
  shows "calm E {} s (snd (RegisterWorker E w s))" "calm E {} s (snd (Heartbeat E k ts s))"
proof -
  have put: "putWorker E w (asked s) = (r, s') \<Longrightarrow> calm E {} s s'"
    "putWorker E w (asked (asked s)) = (r, s') \<Longrightarrow> calm E {} s s'" for w r s'
    using calm_trans [OF calm_basic(1) calm_putWorker [OF laws, of "{}" "asked s" w]]
      calm_trans [OF calm_basic(1) calm_trans [OF calm_basic(1) calm_putWorker [OF laws, of "{}" "asked (asked s)" w]]] by simp_all
  show "calm E {} s (snd (RegisterWorker E w s))"
    by (auto simp: RegisterWorker_def Let_def split: option.splits prod.splits if_splits intro: put)
  show "calm E {} s (snd (Heartbeat E k ts s))"
    by (auto simp: Heartbeat_def Let_def split: option.splits prod.splits if_splits intro: put)
qed

lemma lease_ok_work_step:
  assumes laws: "store_laws E" and step: "work_step E l s s'" and s: "sane E s" "lease_ok E s"
    and new: "\<And>k. l = Some k \<Longrightarrow> jobs_of E (s_db s) k = None"
  shows "lease_ok E s'"
  using step s new
proof cases
  case (accept job k)
  then show ?thesis using lease_ok_calm [OF s(2) calm_SubmitJob [OF laws] s(1)] new by blast
next
  case (refuse req e)
  then show ?thesis using SubmitJob_refused(3) [of E req s e s'] s(2) by auto
next
  case (cancel k r)
  then show ?thesis using lease_ok_calm [OF s(2) calm_CancelJob [OF laws, of s k] s(1)] by simp
next
  case (register w r)
  then show ?thesis using lease_ok_calm [OF s(2) calm_workers(1) [OF laws, of s w] s(1)] by simp
next
  case (heartbeat w ts r)
  then show ?thesis using lease_ok_calm [OF s(2) calm_workers(2) [OF laws, of s w ts] s(1)] by simp
next
  case (poll w n r)
  have "s' = s \<or> s' = snd (poll_loop E w (time_Now E s) (batch_size n) [] (asked s))"
    using poll by (auto simp: PollTask_def Let_def split: option.splits if_splits prod.splits)
  moreover have "sane E (asked s)" using s(1) by (simp add: sane_def)
  ultimately show ?thesis using lease_ok_poll_loop [OF laws] s(2) by (metis lease_ok_asked)
next
  case (report req r)
  then show ?thesis using lease_ok_ReportTask [OF laws s, of req] by simp
next
  case (timer k)
  have "calm E {} s (timerFired E k s)"
    unfolding timerFired_def by (rule calm_trans [OF _ calm_basic(3)]) (rule calm_same, simp_all)
  then show ?thesis using timer lease_ok_calm [OF s(2) _ s(1)] by simp
next
  case reaper
  then show ?thesis using lease_ok_reapOnce [OF laws s] s(2) by (simp add: reaperTick_def)
qed

section \<open>Elections, callbacks and restarts\<close>

lemma lease_ok_tables:
  assumes "lease_ok E s" "sane E s" "same_tables E (s_db s) (s_db s')" "s_leases s' = s_leases s"
  shows "lease_ok E s'"
  using assms by (simp add: lease_ok_def busy_def getLease_def same_tables_def sane_def)

lemma rebuild_leases: "s_leases (onBecomeLeader E t s) = []"
proof -
  have fail: "s_leases (snd (snd (handleFailure E j m now s))) = s_leases s" for j m now and s :: "'a server"
    by (cases "handleFailure E j m now s") (auto dest: handleFailure_leases)
  have one: "s_leases (snd (rebuild_one E now j s)) = s_leases s" for now j and s :: "'a server"
    by (cases "j_State j") (auto simp: rebuild_one_def Let_def fail)
  have jobs: "s_leases (snd (rebuild_jobs E now js s)) = s_leases s" for now js and s :: "'a server"
    by (induction js arbitrary: s) (simp_all add: one Let_def case_prod_beta)
  have "s_leases (fold (\<lambda>j s. if j_State j = JOB_STATE_PENDING then tryPromote E (j_Id j) s else s) js s) = s_leases s"
    for js :: "Job list" and s :: "'a server"
    by (induction js arbitrary: s) (simp_all add: tryPromote_leases)
  then show ?thesis
    using jobs by (simp add: onBecomeLeader_def seedReplication_def rebuildSchedulingState_def clearSchedulingState_def Let_def
        case_prod_beta split: sum.split)
qed

lemma callback_leases: "s_leases (run_callback E c s) = []"
  by (cases c) (simp_all add: run_callback_def rebuild_leases onStepDown_def clearSchedulingState_def)

lemma boot_leases:
  assumes "Server_boot E tick cfg db = Some (Inr s')"
  shows "s_leases s' = []"
proof -
  have cbs: "s_leases s = [] \<Longrightarrow> s_leases (fold (run_callback E) cs s) = []" for cs and s :: "'a server"
    by (induction cs arbitrary: s) (simp_all add: callback_leases)
  have "s_leases (snd (recover E (new_server tick cfg db))) = []"
    by (simp add: recover_def new_server_def Let_def split: sum.split)
  then show ?thesis using assms by (auto simp: Server_boot_def split: prod.splits option.splits intro!: cbs)
qed

lemma replicationTick_leases: "s_leases (replicationTick E send s) = s_leases s"
proof -
  have "s_leases (replicate_peer E send t k s) = s_leases s" for t k and s :: "'a server"
    by (simp add: replicate_peer_def ackPeer_def split: sum.split prod.split)
  then have "s_leases (fold (replicate_peer E send t) ks s) = s_leases s" for t ks and s :: "'a server"
    by (induction ks arbitrary: s) simp_all
  then show ?thesis by (simp add: replicationTick_def broadcastReplicate_def)
qed

lemma lease_ok_server_step:
  assumes laws: "store_laws E" and step: "server_step E l s s'" and s: "sane E s" "lease_ok E s"
    and new: "\<And>k. l = Some k \<Longrightarrow> jobs_of E (s_db s) k = None"
  shows "lease_ok E s'"
  using step
proof cases
  case work
  then show ?thesis using lease_ok_work_step [OF laws _ s new] by blast
next
  case (callback c)
  then show ?thesis by (simp add: lease_ok_none callback_leases)
next
  case (vote t c r)
  obtain a cbs n db where h: "HandleVote (electionStore E) (draw_of E s) (draw_of E (asked s)) t c (s_node s) (s_db s) = (a, cbs, n, db)"
    by (cases "HandleVote (electionStore E) (draw_of E s) (draw_of E (asked s)) t c (s_node s) (s_db s)")
  then show ?thesis
    using vote same_tables_election(3) [OF laws h] by (intro lease_ok_tables [OF s(2,1)]) (auto simp: RequestVote_def)
next
  case (beat t p r)
  obtain a ct cbs n db where h: "ObserveLeader (electionStore E) (draw_of E s) (draw_of E (asked s)) t p (s_node s) (s_db s) = ((a, ct), cbs, n, db)"
    by (cases "ObserveLeader (electionStore E) (draw_of E s) (draw_of E (asked s)) t p (s_node s) (s_db s)") force
  then show ?thesis
    using beat same_tables_election(4) [OF laws h]
    by (intro lease_ok_tables [OF s(2,1)]) (auto simp: Replicate_def applyEntries_def Let_def split: if_splits)
next
  case (broadcast send)
  have "mc_jobs (view E s') = mc_jobs (view E s)" using replicationTick_view [OF laws s(1), of send] broadcast by simp
  then show ?thesis using s(2) replicationTick_leases [of E send s] broadcast by (simp add: lease_ok_def busy_def getLease_def)
next
  case (campaign now dr b n db)
  then show ?thesis using same_tables_election(1) [OF laws campaign(4)] by (intro lease_ok_tables [OF s(2,1)]) auto
next
  case (count dr p r b b' cbs n db)
  then show ?thesis using same_tables_election(2) [OF laws count(3)] by (intro lease_ok_tables [OF s(2,1)]) auto
next
  case shutdown
  then show ?thesis by (intro lease_ok_tables [OF s(2,1)]) (auto simp: Shutdown_def)
next
  case (restart tick)
  then show ?thesis by (simp add: lease_ok_none boot_leases)
qed

lemma lease_ok_server_run:
  assumes laws: "store_laws E"
  shows "server_run E ls s s' \<Longrightarrow> sane E s \<Longrightarrow> lease_ok E s \<Longrightarrow> fresh_ids E s ls \<Longrightarrow> lease_ok E s'"
proof (induction rule: server_run.induct)
  case (more ls s t l u)
  have fresh: "fresh_ids E s ls" using more.prems(3) by (auto simp: fresh_ids_def accepted_ids_def split: if_splits)
  have "jobs_of E (s_db t) k = None" if "l = Some k" for k
    using run_dom [OF laws more(1) more.prems(1)] more.prems(3) that by (auto simp: fresh_ids_def accepted_ids_def domIff subset_iff)
  then show ?case
    using lease_ok_server_step [OF laws more(2)] server_run_sane [OF more(1) laws more.prems(1)] more.IH more.prems fresh by blast
qed

text \<open>
  C5. At most one worker at a time is entitled to run a job: whatever a node goes through, as long as
  every accepted submission has an ID of its own, two leases the node holds are for different jobs.
\<close>

theorem at_most_one_lease_per_job:
  assumes "store_laws E" "sane E s" "s_leases s = []" "server_run E ls s s'" "fresh_ids E s ls"
    and "getLease t s' = Some l" "getLease t' s' = Some l'" "ls_jobID l = ls_jobID l'"
  shows "t = t'"
  using lease_ok_server_run [OF assms(1,4,2) lease_ok_none [OF assms(3)] assms(5)] assms(6-8) unfolding lease_ok_def by metis

theorem at_most_one_lease_per_job_witness:
  "\<exists>s' t l. server_run sample_env [None] polled_server s' \<and> getLease t s' = Some l \<and>
     (\<forall>t' l'. getLease t' s' = Some l' \<longrightarrow> ls_jobID l' = ls_jobID l \<longrightarrow> t' = t)"
proof -
  have inj: "inj (env_uuid sample_env)" by (rule steadyD(3) [OF steady_sample])
  obtain out s' where poll: "PollTask sample_env ''w'' 1 polled_server = (Inr out, s')"
    and out: "map ta_JobId out = take (batch_size 1) (ready_jobs sample_env polled_server)"
    by (rule PollTask_order [OF store_laws_sample no_faults_sample polled_server_facts(1-3), of 1])
  have "''a'' \<in> set (ready_jobs sample_env polled_server)"
    using polled_server_facts stale_entry_abs [OF store_laws_sample polled_server_facts(1)] set_pq_order [of "s_queue polled_server"]
    by (simp add: ready_jobs_def sane_def)
  then have "out \<noteq> []" using out batch_size_bounds(1) [of 1] by (cases "ready_jobs sample_env polled_server") auto
  then obtain x where x: "x \<in> set out" by (cases out) auto
  have "\<forall>x \<in> set out. backed sample_env ''w'' s' x"
  proof -
    have "poll_loop sample_env ''w'' (time_Now sample_env polled_server) (batch_size 1) [] (asked polled_server) = (out, s')"
      using poll by (auto simp: PollTask_def Let_def split: option.splits if_splits prod.splits)
    from poll_loop_backed [OF store_laws_sample inj _ _ _ this] show ?thesis
      using polled_server_facts(1) by (simp add: old_ids_def sane_def)
  qed
  then obtain l where l: "getLease (ta_TaskId x) s' = Some l" using x by (auto simp: backed_def)
  have run: "server_run sample_env [None] polled_server s'"
    using server_run.more [OF server_run.start server_step.work [OF work_step.poll [OF poll]]] by simp
  have start: "s_leases polled_server = []" "fresh_ids sample_env polled_server [None]"
    by (simp_all add: polled_server_def fresh_ids_def accepted_ids_def)
  note one = at_most_one_lease_per_job [OF store_laws_sample polled_server_facts(1) start(1) run start(2) _ l]
  show ?thesis using run l one by blast
qed

end
