(* ===== verification/Poll_Threads.thy ===== *)
theory Poll_Threads
  imports Poll_Batch
begin

text \<open>
  Polls that run at the same time. The server takes no lock over a whole handler: \<open>PollTask\<close>
  (\<open>internal/scheduler/dispatch.go\<close>) is a sequence of accesses to the node, the worker cache, the queue,
  the store, the replication log and the lease table, each under its own lock, and other goroutines
  may come in between. Here a poll is a thread that makes one such access per step, and a schedule says
  whose turn it is. A poll that is not interrupted does what the handler of theory \<open>Dispatch\<close> does;
  polls that are interleaved in any way hand out different jobs and lose none.
\<close>

section \<open>A poll as a thread\<close>

text \<open>
  Where the thread is: before the check of leadership, the check of the worker, reading the clock, the
  head of the loop, loading the popped job, making a task ID for it, writing it to the store, appending
  it to the replication log, recording the lease, pushing the job back, or done.
\<close>

datatype poll_pc =
    Poll_Leader | Poll_Worker | Poll_Clock | Poll_Pop | Poll_Load string | Poll_Task string Job
  | Poll_Put string string Job | Poll_Log string string Job | Poll_Lease string string Job
  | Poll_Back string Job | Poll_Done "rpc_error + TaskAssignment list"

record poll_thread =
  pt_worker :: string
  pt_max :: int
  pt_now :: time
  pt_out :: "TaskAssignment list"
  pt_pc :: poll_pc

definition poll_start :: "string \<Rightarrow> int \<Rightarrow> poll_thread" where
  "poll_start w m = \<lparr>pt_worker = w, pt_max = m, pt_now = 0, pt_out = [], pt_pc = Poll_Leader\<rparr>"

definition poll_step :: "'db env \<Rightarrow> poll_thread \<Rightarrow> 'db server \<Rightarrow> poll_thread \<times> 'db server" where
  "poll_step E t s =
     (case pt_pc t of
        Poll_Leader \<Rightarrow>
          (case requireLeader s of
             Some e \<Rightarrow> (t\<lparr>pt_pc := Poll_Done (Inl e)\<rparr>, s)
           | None \<Rightarrow> (t\<lparr>pt_pc := Poll_Worker\<rparr>, s))
      | Poll_Worker \<Rightarrow>
          if \<not> workerKnown (pt_worker t) s then (t\<lparr>pt_pc := Poll_Done (Inl (Err_UnknownWorker (pt_worker t)))\<rparr>, s)
          else (t\<lparr>pt_pc := Poll_Clock\<rparr>, s)
      | Poll_Clock \<Rightarrow> (t\<lparr>pt_now := time_Now E s, pt_pc := Poll_Pop\<rparr>, asked s)
      | Poll_Pop \<Rightarrow>
          if \<not> length (pt_out t) < batch_size (pt_max t) then (t\<lparr>pt_pc := Poll_Done (Inr (pt_out t))\<rparr>, s)
          else (case PQ_Pop (s_queue s) of
                  (None, q) \<Rightarrow> (t\<lparr>pt_pc := Poll_Done (Inr (pt_out t))\<rparr>, s\<lparr>s_queue := q\<rparr>)
                | (Some jobID, q) \<Rightarrow> (t\<lparr>pt_pc := Poll_Load jobID\<rparr>, s\<lparr>s_queue := q\<rparr>))
      | Poll_Load jobID \<Rightarrow>
          (case Store_GetJob E (s_db s) jobID of
             Inl _ \<Rightarrow> (t\<lparr>pt_pc := Poll_Pop\<rparr>, s)
           | Inr job \<Rightarrow>
               if j_State job \<noteq> JOB_STATE_QUEUED then (t\<lparr>pt_pc := Poll_Pop\<rparr>, s)
               else (t\<lparr>pt_pc := Poll_Task jobID job\<rparr>, s))
      | Poll_Task jobID job \<Rightarrow>
          (t\<lparr>pt_pc := Poll_Put (ids_New E s ''task'') jobID (running job (pt_worker t) (pt_now t))\<rparr>, asked s)
      | Poll_Put taskID jobID job \<Rightarrow>
          (case Store_PutJob E (s_db s) job of
             (Some e, db) \<Rightarrow> (t\<lparr>pt_pc := Poll_Back jobID job\<rparr>, s\<lparr>s_db := db\<rparr>)
           | (None, db) \<Rightarrow> (t\<lparr>pt_pc := Poll_Log taskID jobID job\<rparr>, s\<lparr>s_db := db\<rparr>))
      | Poll_Log taskID jobID job \<Rightarrow>
          (t\<lparr>pt_pc := Poll_Lease taskID jobID job\<rparr>, appendRepl (ReplicationEntry_UpsertJob job) s)
      | Poll_Lease taskID jobID job \<Rightarrow>
          let deadline = pt_now t + cfg_LeaseTTL (s_cfg s);
              l = \<lparr>ls_taskID = taskID, ls_jobID = jobID, ls_workerID = pt_worker t,
                   ls_attempt = j_Attempt job, ls_deadline = deadline\<rparr>;
              a = \<lparr>ta_TaskId = taskID, ta_JobId = jobID, ta_Attempt = j_Attempt job,
                   ta_Spec = j_Spec job, ta_LeaseDeadline = Some deadline\<rparr>
          in (t\<lparr>pt_out := pt_out t @ [a], pt_pc := Poll_Pop\<rparr>, Inc TasksDispatched (addLease l s))
      | Poll_Back jobID job \<Rightarrow>
          (t\<lparr>pt_pc := Poll_Done (Inr (pt_out t))\<rparr>,
           s\<lparr>s_queue := snd (PQ_Push jobID (j_Priority job) (AsTime (j_CreatedAt job)) (s_queue s))\<rparr>)
      | Poll_Done _ \<Rightarrow> (t, s))"

text \<open>Threads by number, and a schedule: the numbers of the threads that take a step, in order.\<close>

fun run_polls :: "'db env \<Rightarrow> nat list \<Rightarrow> poll_thread list \<Rightarrow> 'db server \<Rightarrow> poll_thread list \<times> 'db server" where
  "run_polls E [] ts s = (ts, s)"
| "run_polls E (i # is) ts s =
     (if i < length ts then case poll_step E (ts ! i) s of (t, s) \<Rightarrow> run_polls E is (ts[i := t]) s else run_polls E is ts s)"

definition poll_answer :: "poll_thread \<Rightarrow> (rpc_error + TaskAssignment list) option" where
  "poll_answer t = (case pt_pc t of Poll_Done r \<Rightarrow> Some r | _ \<Rightarrow> None)"

section \<open>A poll that is not interrupted\<close>

text \<open>\<open>ends E (t, s) r s'\<close>: running alone from \<open>s\<close>, the thread comes to the answer \<open>r\<close> and leaves \<open>s'\<close>.\<close>

definition ends :: "'db env \<Rightarrow> poll_thread \<times> 'db server \<Rightarrow> (rpc_error + TaskAssignment list) \<Rightarrow> 'db server \<Rightarrow> bool" where
  "ends E x r s' \<longleftrightarrow> (\<exists>n t. ((\<lambda>(t, s). poll_step E t s) ^^ n) x = (t, s') \<and> poll_answer t = Some r)"

lemma ends_done: "pt_pc t = Poll_Done r \<Longrightarrow> ends E (t, s) r s"
  unfolding ends_def by (intro exI [of _ 0] exI [of _ t]) (simp add: poll_answer_def)

lemma ends_step: "ends E (poll_step E t s) r s' \<Longrightarrow> ends E (t, s) r s'"
  unfolding ends_def by (elim exE, rule_tac x = "Suc n" in exI) (simp add: funpow_Suc_right del: funpow.simps)

lemma run_alone:
  "run_polls E (replicate n 0) [t] s = (case ((\<lambda>(t, s). poll_step E t s) ^^ n) (t, s) of (t', s') \<Rightarrow> ([t'], s'))"
  by (induction n arbitrary: t s) (simp_all add: funpow_Suc_right case_prod_beta del: funpow.simps)

lemma ends_loop:
  assumes "n = batch_size m"
  shows "poll_loop E w now n out s = (out', s') \<Longrightarrow>
    ends E (\<lparr>pt_worker = w, pt_max = m, pt_now = now, pt_out = out, pt_pc = Poll_Pop\<rparr>, s) (Inr out') s'"
proof (induction out s rule: poll_loop_induct [of n _ E w now])
  case (full out s)
  then show ?case by (intro ends_step) (simp add: poll_step_def poll_loop_full assms ends_done)
next
  case (empty out s q)
  then show ?case by (intro ends_step) (auto simp: poll_step_def poll_loop_empty assms intro!: ends_done)
next
  case (stale out s k q)
  then have IH: "ends E (\<lparr>pt_worker = w, pt_max = m, pt_now = now, pt_out = out, pt_pc = Poll_Pop\<rparr>, s\<lparr>s_queue := q\<rparr>) (Inr out') s'"
    by (simp add: poll_loop_stale)
  show ?case
    by (rule ends_step, simp add: poll_step_def stale(1,2) assms [symmetric], rule ends_step)
      (use stale(3) IH in \<open>auto simp: poll_step_def stale_entry_def split: sum.splits\<close>)
next
  case (refused out s k q job e s2)
  obtain db where put: "Store_PutJob E (s_db s) (running job w now) = (Some e, db)" "s2 = (asked (s\<lparr>s_queue := q\<rparr>))\<lparr>s_db := db\<rparr>"
    using refused(5) by (auto simp: putJob_def split: prod.splits option.splits)
  show ?case
    apply (rule ends_step, simp add: poll_step_def refused(1,2) assms [symmetric])
    apply (rule ends_step, simp add: poll_step_def refused(3,4))
    apply (rule ends_step, simp add: poll_step_def)
    apply (rule ends_step, simp add: poll_step_def put)
    apply (rule ends_step, simp add: poll_step_def)
    apply (insert refused(6) poll_loop_refused [OF refused(1-5)] put)
    apply (auto intro!: ends_done simp: running_def)
    done
next
  case (leased out s k q job s2 l)
  obtain db where put: "Store_PutJob E (s_db s) (running job w now) = (None, db)"
    "s2 = appendRepl (ReplicationEntry_UpsertJob (running job w now)) ((asked (s\<lparr>s_queue := q\<rparr>))\<lparr>s_db := db\<rparr>)"
    using leased(5) by (auto simp: putJob_def split: prod.splits option.splits)
  show ?case
    apply (rule ends_step, simp add: poll_step_def leased(1,2) assms [symmetric])
    apply (rule ends_step, simp add: poll_step_def leased(3,4))
    apply (rule ends_step, simp add: poll_step_def)
    apply (rule ends_step, simp add: poll_step_def put)
    apply (rule ends_step, simp add: poll_step_def)
    apply (rule ends_step, simp add: poll_step_def)
    apply (insert leased(7) leased(8)[unfolded poll_loop_leased [OF leased(1-6)]] put leased(6))
    apply (simp add: poll_lease_def poll_assignment_def running_def ids_New_def Let_def)
    done
qed


section \<open>Polls in any order\<close>

text \<open>The jobs and the task IDs a thread holds: those it has handed out, and the one it works on.\<close>

definition held :: "poll_thread \<Rightarrow> string list" where
  "held t = map ta_JobId (pt_out t) @
     (case pt_pc t of
        Poll_Load k \<Rightarrow> [k] | Poll_Task k _ \<Rightarrow> [k] | Poll_Put _ k _ \<Rightarrow> [k] | Poll_Log _ k _ \<Rightarrow> [k]
      | Poll_Lease _ k _ \<Rightarrow> [k] | Poll_Back k _ \<Rightarrow> [k] | _ \<Rightarrow> [])"

definition minted :: "poll_thread \<Rightarrow> string list" where
  "minted t = map ta_TaskId (pt_out t) @
     (case pt_pc t of Poll_Put x _ _ \<Rightarrow> [x] | Poll_Log x _ _ \<Rightarrow> [x] | Poll_Lease x _ _ \<Rightarrow> [x] | _ \<Rightarrow> [])"

text \<open>What a thread knows of the job it works on.\<close>

definition assigned :: "string \<Rightarrow> string \<Rightarrow> Job \<Rightarrow> bool" where
  "assigned w k job \<longleftrightarrow> j_Id job = k \<and> j_State job = JOB_STATE_RUNNING \<and> j_AssignedWorkerId job = w"

definition job_ok :: "'db env \<Rightarrow> 'db server \<Rightarrow> poll_thread \<Rightarrow> bool" where
  "job_ok E s t =
     (case pt_pc t of
        Poll_Task k job \<Rightarrow> j_Id job = k
      | Poll_Put _ k job \<Rightarrow> assigned (pt_worker t) k job
      | Poll_Log _ k job \<Rightarrow> assigned (pt_worker t) k job \<and> jobs_of E (s_db s) k = Some job
      | Poll_Lease _ k job \<Rightarrow> assigned (pt_worker t) k job \<and> jobs_of E (s_db s) k = Some job
      | _ \<Rightarrow> True)"

definition thread_ok :: "'db env \<Rightarrow> 'db server \<Rightarrow> poll_thread \<Rightarrow> bool" where
  "thread_ok E s t \<longleftrightarrow>
     distinct (held t) \<and> distinct (minted t) \<and> (\<forall>k \<in> set (held t). pq_abs (s_queue s) k = None) \<and>
     (\<forall>x \<in> set (minted t). \<exists>n < s_tick s. x = ''task-'' @ env_uuid E n) \<and>
     (\<forall>a \<in> set (pt_out t). backed E (pt_worker t) s a) \<and> job_ok E s t"

text \<open>A thread does not notice steps that leave its jobs and leases alone.\<close>

lemma thread_ok_frame:
  assumes "thread_ok E s u" "\<And>k. k \<in> set (held u) \<Longrightarrow> jobs_of E (s_db s') k = jobs_of E (s_db s) k"
    and "\<And>x. x \<in> set (minted u) \<Longrightarrow> getLease x s' = getLease x s"
    and "\<And>k. k \<in> set (held u) \<Longrightarrow> pq_abs (s_queue s') k = None" "s_tick s \<le> s_tick s'"
  shows "thread_ok E s' u"
proof -
  have "backed E (pt_worker u) s' a" if "a \<in> set (pt_out u)" for a
    using assms(1-3) that by (auto simp: thread_ok_def backed_def held_def minted_def)
  moreover have "job_ok E s' u"
    using assms(1,2) by (auto simp: thread_ok_def job_ok_def held_def split: poll_pc.splits)
  ultimately show ?thesis using assms(1,4,5) unfolding thread_ok_def by (meson less_le_trans)
qed

text \<open>What one step of a thread may change.\<close>

definition step_within :: "'db env \<Rightarrow> poll_thread \<Rightarrow> 'db server \<Rightarrow> poll_thread \<Rightarrow> 'db server \<Rightarrow> bool" where
  "step_within E t s t' s' \<longleftrightarrow> sane E s' \<and> thread_ok E s' t' \<and> s_tick s \<le> s_tick s' \<and>
     (\<forall>k. k \<in> set (held t') \<or> pq_abs (s_queue s') k \<noteq> None \<longrightarrow> k \<in> set (held t) \<or> pq_abs (s_queue s) k \<noteq> None) \<and>
     (\<forall>k. k \<notin> set (held t) \<longrightarrow> jobs_of E (s_db s') k = jobs_of E (s_db s) k) \<and>
     (\<forall>x. x \<notin> set (minted t) \<longrightarrow> getLease x s' = getLease x s) \<and>
     (\<forall>x \<in> set (minted t'). x \<in> set (minted t) \<or> (\<exists>n. s_tick s \<le> n \<and> n < s_tick s' \<and> x = ''task-'' @ env_uuid E n))"

lemma getLease_frames [simp]:
  "getLease x (asked s) = getLease x s" "getLease x (s\<lparr>s_queue := q\<rparr>) = getLease x s"
  "getLease x (s\<lparr>s_db := db\<rparr>) = getLease x s" "getLease x (appendRepl m s) = getLease x s"
  "getLease x (Inc c s) = getLease x s" "getLease x (addLease l s) = (if x = ls_taskID l then Some l else getLease x s)"
  by (simp_all add: getLease_def addLease_def update_conv')

lemma backed_frames [simp]:
  "backed E w (asked s) a = backed E w s a" "backed E w (s\<lparr>s_queue := q\<rparr>) a = backed E w s a"
  "backed E w (appendRepl m s) a = backed E w s a" "backed E w (Inc c s) a = backed E w s a"
  by (simp_all add: backed_def)

lemmas within_defs = step_within_def thread_ok_def held_def minted_def job_ok_def

text \<open>A step that leaves queue and leases alone and writes at most the job the thread works on.\<close>

lemma within_local:
  assumes t: "thread_ok E s t" and s': "sane E s'" "s_queue s' = s_queue s" "s_leases s' = s_leases s" "s_tick s \<le> s_tick s'"
    and t': "pt_out t' = pt_out t" "pt_worker t' = pt_worker t" "set (held t') \<subseteq> set (held t)" "set (minted t') \<subseteq> set (minted t)"
      "distinct (held t')" "distinct (minted t')" "job_ok E s' t'"
    and jobs: "\<And>k. jobs_of E (s_db s') k \<noteq> jobs_of E (s_db s) k \<Longrightarrow> k \<in> set (held t) - ta_JobId ` set (pt_out t)"
  shows "step_within E t s t' s'"
proof -
  have L: "getLease x s' = getLease x s" for x using s'(3) by (simp add: getLease_def)
  have "jobs_of E (s_db s') (ta_JobId a) = jobs_of E (s_db s) (ta_JobId a)" if "a \<in> set (pt_out t)" for a
    using jobs [of "ta_JobId a"] that by blast
  then have "backed E (pt_worker t') s' a" if "a \<in> set (pt_out t')" for a
    using t that by (simp add: thread_ok_def backed_def L t'(1,2))
  moreover have "\<forall>x \<in> set (minted t'). \<exists>n < s_tick s'. x = ''task-'' @ env_uuid E n"
    using t t'(4) s'(4) unfolding thread_ok_def by (meson less_le_trans subsetD)
  ultimately have "thread_ok E s' t'" using t t'(3,5-7) s'(2) by (auto simp: thread_ok_def)
  then show ?thesis using s' t'(3,4) jobs by (auto simp: step_within_def L)
qed

lemma within_Pop:
  assumes "sane E s" "thread_ok E s t" "poll_step E t s = (t', s')" "pt_pc t = Poll_Pop"
  shows "step_within E t s t' s'"
proof -
  obtain r q where pop: "PQ_Pop (s_queue s) = (r, q)" by force
  have "pq_inv q" "r = None \<Longrightarrow> pq_abs q = Map.empty"
    "\<And>k. r = Some k \<Longrightarrow> pq_abs (s_queue s) k \<noteq> None \<and> pq_abs q = (pq_abs (s_queue s))(k := None)"
    using pq.pop_spec [OF _ pop] assms(1) by (auto simp: sane_def)
  then show ?thesis using assms pop
    by (cases r) (auto simp: poll_step_def within_defs sane_def split: if_splits)
qed

text \<open>The new task ID is not one of those the thread has, since UUIDs do not repeat.\<close>

lemma within_Task:
  assumes "inj (env_uuid E)" "sane E s" "thread_ok E s t" "poll_step E t s = (t', s')" "pt_pc t = Poll_Task k job"
  shows "step_within E t s t' s'"
proof -
  let ?x = "''task-'' @ env_uuid E (s_tick s)"
  have new: "?x \<notin> set (minted t)" using assms(1,3) by (force simp: thread_ok_def inj_eq)
  have t': "t' = t\<lparr>pt_pc := Poll_Put ?x k (running job (pt_worker t) (pt_now t))\<rparr>" "s' = asked s"
    using assms(4,5) by (simp_all add: poll_step_def ids_New_def)
  have "held t' = held t" "minted t' = minted t @ [?x]" "job_ok E s' t'"
    using assms(3,5) by (simp_all add: t' within_defs assigned_def running_def)
  then show ?thesis using assms(2,3) new by (auto simp: t' step_within_def thread_ok_def sane_def less_Suc_eq)
qed

lemma within_Put:
  assumes laws: "store_laws E" and s: "sane E s" and t: "thread_ok E s t" and step: "poll_step E t s = (t', s')"
    and pc: "pt_pc t = Poll_Put x k job"
  shows "step_within E t s t' s'"
proof -
  obtain r db where put: "Store_PutJob E (s_db s) job = (r, db)" by force
  have t': "t' = t\<lparr>pt_pc := (if r = None then Poll_Log x k job else Poll_Back k job)\<rparr>" "s' = s\<lparr>s_db := db\<rparr>"
    using step pc put by (auto simp: poll_step_def split: option.splits)
  have job: "assigned (pt_worker t) k job" "k \<notin> ta_JobId ` set (pt_out t)" using t pc by (simp_all add: within_defs)
  have db: "store_wf E db" "jobs_of E db = (if r = None then (jobs_of E (s_db s))(k \<mapsto> job) else jobs_of E (s_db s))"
    using PutJob_store(1,2) [OF laws, of "s_db s" job] put s job(1) by (auto simp: sane_def assigned_def split: option.splits)
  show ?thesis
    by (rule within_local [OF t]) (use s t pc job db in \<open>auto simp: t' sane_def within_defs split: if_splits\<close>)
qed

lemma within_Lease:
  assumes s: "sane E s" and t: "thread_ok E s t" and step: "poll_step E t s = (t', s')" and pc: "pt_pc t = Poll_Lease x k job"
  shows "step_within E t s t' s'"
proof -
  have job: "assigned (pt_worker t) k job" "jobs_of E (s_db s) k = Some job" "x \<notin> ta_TaskId ` set (pt_out t)"
    using t pc by (simp_all add: within_defs)
  define dl where "dl = pt_now t + cfg_LeaseTTL (s_cfg s)"
  define l where "l = \<lparr>ls_taskID = x, ls_jobID = k, ls_workerID = pt_worker t, ls_attempt = j_Attempt job, ls_deadline = dl\<rparr>"
  define a where "a = \<lparr>ta_TaskId = x, ta_JobId = k, ta_Attempt = j_Attempt job, ta_Spec = j_Spec job, ta_LeaseDeadline = Some dl\<rparr>"
  have la: "ls_taskID l = x" "ta_TaskId a = x" "ta_JobId a = k" "t' = t\<lparr>pt_out := pt_out t @ [a], pt_pc := Poll_Pop\<rparr>"
      "s' = Inc TasksDispatched (addLease l s)" "backed E (pt_worker t) s' a"
    using step pc job by (auto simp: poll_step_def backed_def assigned_def l_def a_def dl_def Let_def)
  have "held t' = held t" "minted t' = minted t" "job_ok E s' t'" using pc by (simp_all add: la(2-4) within_defs)
  moreover have "backed E (pt_worker t) s' b" if "b \<in> set (pt_out t)" for b
    using t that job(3) by (force simp: la(1,5) thread_ok_def backed_def)
  ultimately show ?thesis using s t la(6) pc by (auto simp: step_within_def thread_ok_def sane_def la(1,4,5) minted_def)
qed

lemma poll_step_within:
  assumes laws: "store_laws E" and inj: "inj (env_uuid E)" and s: "sane E s" and t: "thread_ok E s t"
    and step: "poll_step E t s = (t', s')"
  shows "step_within E t s t' s'"
proof (cases "pt_pc t")
  case Poll_Leader
  then show ?thesis using step s t by (auto simp: poll_step_def within_defs split: option.splits)
next
  case Poll_Worker
  then show ?thesis using step s t by (auto simp: poll_step_def within_defs split: if_splits)
next
  case Poll_Clock
  then have "t' = t\<lparr>pt_now := time_Now E s, pt_pc := Poll_Pop\<rparr>" "s' = asked s" using step by (auto simp: poll_step_def)
  then show ?thesis using Poll_Clock s t by (auto simp: within_defs sane_def less_Suc_eq)
next
  case (Poll_Load k)
  then show ?thesis using step s t
    by (auto simp: poll_step_def within_defs split: sum.splits if_splits dest: get_job(2) [OF laws])
next
  case (Poll_Log x k job)
  then have t': "t' = t\<lparr>pt_pc := Poll_Lease x k job\<rparr>" "s' = appendRepl (ReplicationEntry_UpsertJob job) s"
    using step by (simp_all add: poll_step_def)
  show ?thesis by (rule within_local [OF t]) (use s t Poll_Log in \<open>auto simp: t' sane_def within_defs\<close>)
next
  case (Poll_Back k job)
  obtain b q where push: "PQ_Push k (j_Priority job) (AsTime (j_CreatedAt job)) (s_queue s) = (b, q)" by force
  show ?thesis using Poll_Back step s t push pq.push_spec [OF _ push]
    by (auto simp: poll_step_def within_defs sane_def split: if_splits)
next
  case (Poll_Done r)
  then show ?thesis using step s t by (auto simp: poll_step_def step_within_def)
qed (rule within_Pop [OF s t step] within_Task [OF inj s t step] within_Put [OF laws s t step] within_Lease [OF s t step]; assumption)+

section \<open>All schedules\<close>

definition polls_ok :: "'db env \<Rightarrow> 'db server \<Rightarrow> poll_thread list \<Rightarrow> bool" where
  "polls_ok E s ts \<longleftrightarrow> sane E s \<and> (\<forall>t \<in> set ts. thread_ok E s t) \<and>
     (\<forall>i j. i < length ts \<longrightarrow> j < length ts \<longrightarrow> i \<noteq> j \<longrightarrow>
        set (held (ts ! i)) \<inter> set (held (ts ! j)) = {} \<and> set (minted (ts ! i)) \<inter> set (minted (ts ! j)) = {})"

lemma out_held: "ta_JobId ` set (pt_out t) \<subseteq> set (held t)" "ta_TaskId ` set (pt_out t) \<subseteq> set (minted t)"
  by (simp_all add: held_def minted_def)

lemma disjoint_mono: "A \<subseteq> C \<Longrightarrow> B \<subseteq> D \<Longrightarrow> C \<inter> D = {} \<Longrightarrow> A \<inter> B = {}"
  by blast

lemma polls_apart:
  assumes "polls_ok E s ts" "i < length ts" "j < length ts" "i \<noteq> j"
  shows "set (held (ts ! i)) \<inter> set (held (ts ! j)) = {}" "set (minted (ts ! i)) \<inter> set (minted (ts ! j)) = {}"
  using assms by (simp_all add: polls_ok_def)

lemma polls_ok_start:
  assumes "sane E s" "\<forall>t \<in> set ts. \<exists>w m. t = poll_start w m"
  shows "polls_ok E s ts"
proof -
  have start: "held (poll_start w m) = []" "minted (poll_start w m) = []" "thread_ok E s (poll_start w m)" for w m
    by (simp_all add: within_defs poll_start_def)
  have "held (ts ! i) = [] \<and> minted (ts ! i) = []" if "i < length ts" for i
    using assms(2) nth_mem [OF that] start(1,2) by metis
  then show ?thesis using assms start(3) by (auto simp: polls_ok_def)
qed

lemma polls_ok_step:
  assumes laws: "store_laws E" and inj: "inj (env_uuid E)" and ok: "polls_ok E s ts" and i: "i < length ts"
    and step: "poll_step E (ts ! i) s = (t', s')"
  shows "polls_ok E s' (ts[i := t'])"
proof -
  let ?t = "ts ! i"
  have apart: "set (held ?t) \<inter> set (held (ts ! j)) = {}" "set (minted ?t) \<inter> set (minted (ts ! j)) = {}"
    if "j < length ts" "j \<noteq> i" for j
    using polls_apart [OF ok i that(1)] that(2) by simp_all
  have "sane E s" "thread_ok E s ?t" using ok i by (simp_all add: polls_ok_def)
  then have W: "step_within E ?t s t' s'" by (rule poll_step_within [OF laws inj _ _ step])
  have other: "thread_ok E s' (ts ! j)" "set (held t') \<inter> set (held (ts ! j)) = {}" "set (minted t') \<inter> set (minted (ts ! j)) = {}"
    if j: "j < length ts" "j \<noteq> i" for j
  proof -
    have old: "thread_ok E s (ts ! j)" using ok j by (simp add: polls_ok_def)
    have q: "pq_abs (s_queue s') k = None \<and> k \<notin> set (held t')" if "k \<in> set (held (ts ! j))" for k
    proof -
      have "k \<notin> set (held ?t)" "pq_abs (s_queue s) k = None" using apart(1) [OF j] old that by (auto simp: thread_ok_def)
      then show ?thesis using W unfolding step_within_def by blast
    qed
    then show "set (held t') \<inter> set (held (ts ! j)) = {}" by blast
    show "thread_ok E s' (ts ! j)"
      by (rule thread_ok_frame [OF old]) (use W q apart [OF j] in \<open>auto simp: step_within_def\<close>)
    have "x \<notin> set (minted (ts ! j))" if x: "x \<in> set (minted t')" for x
    proof (cases "x \<in> set (minted ?t)")
      case False
      then obtain n where n: "s_tick s \<le> n" "x = ''task-'' @ env_uuid E n" using W x by (auto simp: step_within_def)
      then show ?thesis using old inj by (force simp: thread_ok_def inj_eq)
    qed (use apart(2) [OF j] in blast)
    then show "set (minted t') \<inter> set (minted (ts ! j)) = {}" by blast
  qed
  have "sane E s'" "thread_ok E s' t'" using W by (simp_all add: step_within_def)
  moreover have "thread_ok E s' u" if "u \<in> set (ts[i := t'])" for u
    using that \<open>thread_ok E s' t'\<close> other(1) i by (auto simp: in_set_conv_nth nth_list_update split: if_splits)
  moreover have "set (held (ts[i := t'] ! a)) \<inter> set (held (ts[i := t'] ! b)) = {} \<and>
      set (minted (ts[i := t'] ! a)) \<inter> set (minted (ts[i := t'] ! b)) = {}"
    if "a < length ts" "b < length ts" "a \<noteq> b" for a b
    using that other(2,3) ok unfolding polls_ok_def by (cases "a = i"; cases "b = i") (auto simp: Int_commute)
  ultimately show ?thesis by (simp add: polls_ok_def)
qed

text \<open>No job gets lost on the way: a thread that has popped a QUEUED job writes it or pushes it back.\<close>

definition waiting_on :: "poll_thread \<Rightarrow> string \<Rightarrow> bool" where
  "waiting_on t k =
     (case pt_pc t of Poll_Load k' \<Rightarrow> k' = k | Poll_Task k' _ \<Rightarrow> k' = k | Poll_Put _ k' _ \<Rightarrow> k' = k | Poll_Back k' _ \<Rightarrow> k' = k | _ \<Rightarrow> False)"

definition taken :: "poll_thread \<Rightarrow> string \<Rightarrow> bool" where
  "taken t k \<longleftrightarrow> k \<in> ta_JobId ` set (pt_out t) \<or>
     (case pt_pc t of Poll_Log _ k' _ \<Rightarrow> k' = k | Poll_Lease _ k' _ \<Rightarrow> k' = k | _ \<Rightarrow> False)"

definition queued :: "'db env \<Rightarrow> 'db server \<Rightarrow> string \<Rightarrow> bool" where
  "queued E s k \<longleftrightarrow> (\<exists>j. jobs_of E (s_db s) k = Some j \<and> j_State j = JOB_STATE_QUEUED)"

definition tracked :: "'db env \<Rightarrow> 'db server \<Rightarrow> poll_thread list \<Rightarrow> string \<Rightarrow> bool" where
  "tracked E s ts k \<longleftrightarrow> (\<exists>t \<in> set ts. taken t k) \<or>
     queued E s k \<and> (pq_abs (s_queue s) k \<noteq> None \<or> (\<exists>t \<in> set ts. waiting_on t k))"

lemma waiting_held: "waiting_on t k \<Longrightarrow> k \<in> set (held t)"
  by (auto simp: waiting_on_def held_def split: poll_pc.splits)

lemma poll_step_tracks:
  assumes laws: "store_laws E" and s: "sane E s" and t: "thread_ok E s t" and step: "poll_step E t s = (t', s')"
  shows "taken t k \<Longrightarrow> taken t' k"
    and "queued E s k \<Longrightarrow> pq_abs (s_queue s) k \<noteq> None \<or> waiting_on t k \<Longrightarrow>
      taken t' k \<or> queued E s' k \<and> (pq_abs (s_queue s') k \<noteq> None \<or> waiting_on t' k)"
proof -
  show "taken t k \<Longrightarrow> taken t' k"
    using step by (auto simp: poll_step_def taken_def Let_def split: poll_pc.splits if_splits option.splits prod.splits sum.splits)
  assume q: "queued E s k" and w: "pq_abs (s_queue s) k \<noteq> None \<or> waiting_on t k"
  show "taken t' k \<or> queued E s' k \<and> (pq_abs (s_queue s') k \<noteq> None \<or> waiting_on t' k)"
  proof (cases "pt_pc t")
    case Poll_Pop
    obtain r q where pop: "PQ_Pop (s_queue s) = (r, q)" by force
    have "r = None \<Longrightarrow> pq_abs (s_queue s) = Map.empty" "\<And>k. r = Some k \<Longrightarrow> pq_abs q = (pq_abs (s_queue s))(k := None)"
      using pq.pop_spec [OF _ pop] s by (auto simp: sane_def)
    then show ?thesis using Poll_Pop step q w pop
      by (cases r) (auto simp: poll_step_def waiting_on_def taken_def queued_def split: if_splits)
  next
    case (Poll_Put x k' job)
    then show ?thesis
      using step q w t s PutJob_store(2) [OF laws, of "s_db s" job]
      by (auto simp: poll_step_def waiting_on_def taken_def queued_def sane_def thread_ok_def job_ok_def assigned_def held_def
          split: prod.splits option.splits)
  next
    case (Poll_Back k' job)
    obtain b q' where push: "PQ_Push k' (j_Priority job) (AsTime (j_CreatedAt job)) (s_queue s) = (b, q')" by force
    show ?thesis using Poll_Back step q w s push pq.push_spec [OF _ push]
      by (auto simp: poll_step_def waiting_on_def taken_def queued_def sane_def split: if_splits)
  next
    case (Poll_Load k')
    then show ?thesis using step q w jobs.get_spec [OF laws, of "s_db s" k'] s
      by (auto simp: poll_step_def waiting_on_def taken_def queued_def sane_def split: sum.splits if_splits option.splits)
  qed (use step q w in \<open>auto simp: poll_step_def waiting_on_def taken_def queued_def Let_def split: if_splits option.splits\<close>)
qed

lemma tracked_step:
  assumes laws: "store_laws E" and inj: "inj (env_uuid E)" and ok: "polls_ok E s ts" and i: "i < length ts"
    and step: "poll_step E (ts ! i) s = (t', s')" and k: "tracked E s ts k"
  shows "tracked E s' (ts[i := t']) k"
proof -
  let ?t = "ts ! i"
  have t: "sane E s" "thread_ok E s ?t" using ok i by (simp_all add: polls_ok_def)
  note T = poll_step_tracks [OF laws t step, of k]
  have mem: "t' \<in> set (ts[i := t'])" "\<And>j. j < length ts \<Longrightarrow> j \<noteq> i \<Longrightarrow> ts ! j \<in> set (ts[i := t'])"
    using i by (auto simp: set_update_memI in_set_conv_nth intro!: exI)
  consider j where "j < length ts" "taken (ts ! j) k" | "queued E s k" "pq_abs (s_queue s) k \<noteq> None \<or> waiting_on ?t k"
    | j where "queued E s k" "j < length ts" "j \<noteq> i" "waiting_on (ts ! j) k"
    using k unfolding tracked_def by (metis in_set_conv_nth)
  then show ?thesis
  proof cases
    case 1
    then show ?thesis using T(1) mem unfolding tracked_def by (cases "j = i") blast+
  next
    case 2
    then show ?thesis using T(2) mem(1) unfolding tracked_def by blast
  next
    case 3
    have "k \<notin> set (held ?t)" using polls_apart(1) [OF ok i 3(2)] 3(3) waiting_held [OF 3(4)] by blast
    then have "queued E s' k"
      using poll_step_within [OF laws inj t step] 3(1) by (simp add: step_within_def queued_def)
    then show ?thesis using 3(4) mem(2) [OF 3(2,3)] unfolding tracked_def by blast
  qed
qed

lemma run_polls_ok:
  assumes laws: "store_laws E" "inj (env_uuid E)"
  shows "polls_ok E s ts \<Longrightarrow> run_polls E is ts s = (ts', s') \<Longrightarrow>
    polls_ok E s' ts' \<and> length ts' = length ts \<and> (\<forall>k. tracked E s ts k \<longrightarrow> tracked E s' ts' k)"
proof (induction "is" arbitrary: ts s)
  case (Cons i "is")
  show ?case
  proof (cases "i < length ts")
    case True
    obtain t s1 where step: "poll_step E (ts ! i) s = (t, s1)" by force
    have "polls_ok E s1 (ts[i := t])" by (rule polls_ok_step [OF laws Cons.prems(1) True step])
    moreover have "run_polls E is (ts[i := t]) s1 = (ts', s')" using Cons.prems(2) True step by simp
    ultimately show ?thesis using Cons.IH tracked_step [OF laws Cons.prems(1) True step] by fastforce
  qed (use Cons in simp)
qed simp

text \<open>
  C16. Polls that run at the same time do not get in each other's way, in whatever order their accesses
  to the server interleave: no job and no task ID is handed out twice, every assignment is backed by a
  lease and a RUNNING job of the worker that polled, and when all polls have returned each job that was
  ready before has been handed out or is still ready.
\<close>

theorem concurrent_polls_are_disjoint:
  assumes "store_laws E" "inj (env_uuid E)" "sane E s" "\<forall>t \<in> set ts. \<exists>w m. t = poll_start w m"
    and "run_polls E is ts s = (ts', s')"
  shows "(\<forall>i j. i < length ts' \<longrightarrow> j < length ts' \<longrightarrow> i \<noteq> j \<longrightarrow>
        ta_JobId ` set (pt_out (ts' ! i)) \<inter> ta_JobId ` set (pt_out (ts' ! j)) = {} \<and>
        ta_TaskId ` set (pt_out (ts' ! i)) \<inter> ta_TaskId ` set (pt_out (ts' ! j)) = {}) \<and>
    (\<forall>t \<in> set ts'. distinct (map ta_JobId (pt_out t)) \<and> distinct (map ta_TaskId (pt_out t)) \<and>
        (\<forall>a \<in> set (pt_out t). backed E (pt_worker t) s' a)) \<and>
    ((\<forall>t \<in> set ts'. poll_answer t \<noteq> None) \<longrightarrow>
        (\<forall>k \<in> set (ready_jobs E s). k \<in> set (ready_jobs E s') \<or> (\<exists>t \<in> set ts'. k \<in> ta_JobId ` set (pt_out t))))"
proof -
  have ok: "polls_ok E s' ts'" and len: "length ts' = length ts" and track: "\<And>k. tracked E s ts k \<Longrightarrow> tracked E s' ts' k"
    using run_polls_ok [OF assms(1,2) polls_ok_start [OF assms(3,4)] assms(5)] by blast+
  have ready: "k \<in> set (ready_jobs E u) \<longleftrightarrow> pq_abs (s_queue u) k \<noteq> None \<and> queued E u k" if "sane E u" for k u
    using that set_pq_order [of "s_queue u"] stale_entry_abs [OF assms(1) that, of k]
    by (auto simp: ready_jobs_def queued_def sane_def)
  have apart: "ta_JobId ` set (pt_out (ts' ! i)) \<inter> ta_JobId ` set (pt_out (ts' ! j)) = {} \<and>
      ta_TaskId ` set (pt_out (ts' ! i)) \<inter> ta_TaskId ` set (pt_out (ts' ! j)) = {}"
    if "i < length ts'" "j < length ts'" "i \<noteq> j" for i j
    using disjoint_mono [OF out_held(1) out_held(1) polls_apart(1) [OF ok that]]
      disjoint_mono [OF out_held(2) out_held(2) polls_apart(2) [OF ok that]] by (rule conjI)
  have own: "distinct (map ta_JobId (pt_out t)) \<and> distinct (map ta_TaskId (pt_out t)) \<and> (\<forall>a \<in> set (pt_out t). backed E (pt_worker t) s' a)"
    if "t \<in> set ts'" for t
    using ok that by (auto simp: polls_ok_def thread_ok_def held_def minted_def)
  have kept: "k \<in> set (ready_jobs E s') \<or> (\<exists>t \<in> set ts'. k \<in> ta_JobId ` set (pt_out t))"
    if fin: "\<forall>t \<in> set ts'. poll_answer t \<noteq> None" and k: "k \<in> set (ready_jobs E s)" for k
  proof -
    have "tracked E s' ts' k" using track ready [OF assms(3)] k by (auto simp: tracked_def)
    moreover have "\<forall>t \<in> set ts'. \<not> waiting_on t k \<and> (taken t k \<longrightarrow> k \<in> ta_JobId ` set (pt_out t))"
      using fin by (auto simp: poll_answer_def waiting_on_def taken_def split: poll_pc.splits)
    ultimately show ?thesis using ready [of s' k] ok unfolding tracked_def polls_ok_def by blast
  qed
  then show ?thesis using apart own by simp
qed


theorem concurrent_polls_are_disjoint_witness:
  "\<exists>ts' s'. run_polls sample_env (concat (replicate 12 [0, 1])) [poll_start ''w'' 1, poll_start ''w'' 2] polled_server = (ts', s') \<and>
     length ts' = 2 \<and> (\<forall>t \<in> set ts'. \<forall>a \<in> set (pt_out t). backed sample_env (pt_worker t) s' a) \<and>
     ta_JobId ` set (pt_out (ts' ! 0)) \<inter> ta_JobId ` set (pt_out (ts' ! 1)) = {}"
proof -
  let ?ts = "[poll_start ''w'' 1, poll_start ''w'' 2]"
  obtain ts' s' where run: "run_polls sample_env (concat (replicate 12 [0, 1])) ?ts polled_server = (ts', s')" by force
  have starts: "\<forall>t \<in> set ?ts. \<exists>w m. t = poll_start w m" by auto
  note sample = store_laws_sample steadyD(3) [OF steady_sample]
  have len: "length ts' = 2"
    using run_polls_ok [OF sample polls_ok_start [OF polled_server_facts(1) starts] run] by simp
  note D = concurrent_polls_are_disjoint [OF sample polled_server_facts(1) starts run]
  have "ta_JobId ` set (pt_out (ts' ! 0)) \<inter> ta_JobId ` set (pt_out (ts' ! 1)) = {}"
    using conjunct1 [OF D, rule_format, of 0 1] len by simp
  moreover have "\<forall>t \<in> set ts'. \<forall>a \<in> set (pt_out t). backed sample_env (pt_worker t) s' a" using D by blast
  ultimately show ?thesis using run len by (intro exI [of _ ts'] exI [of _ s'] conjI)
qed

end
