(* ===== verification/Interleaved.thy ===== *)
theory Interleaved
  imports Exclusive Poll_Threads
begin

text \<open>
  Polls that are interrupted by everything else a leader does: submissions, cancellations, reports,
  registrations, heartbeats, timers and sweeps, and by other polls. Even then no two leases are for the
  same job. The reason is that nobody puts a job into the ready queue while a poll works on it: only
  jobs that are new, PENDING or RUNNING are made ready, and a job has a timer or is in the queue only
  when it is QUEUED (or has been canceled since), never both.
\<close>

section \<open>Who puts a job into the queue\<close>

definition in_queue :: "'db server \<Rightarrow> string \<Rightarrow> bool" where
  "in_queue s k \<longleftrightarrow> pq_abs (s_queue s) k \<noteq> None"

definition timed :: "'db server \<Rightarrow> string \<Rightarrow> bool" where
  "timed s k \<longleftrightarrow> map_of (s_retryTimers s) k \<noteq> None"

definition over :: "'db env \<Rightarrow> 'db server \<Rightarrow> string \<Rightarrow> bool" where
  "over E s k \<longleftrightarrow> (\<exists>j. jobs_of E (s_db s) k = Some j \<and> terminal (j_State j))"

definition parked :: "'db env \<Rightarrow> 'db server \<Rightarrow> string \<Rightarrow> bool" where
  "parked E s k \<longleftrightarrow> over E s k \<or> queued E s k"

definition place_ok :: "'db env \<Rightarrow> 'db server \<Rightarrow> string \<Rightarrow> bool" where
  "place_ok E s k \<longleftrightarrow> (in_queue s k \<or> timed s k \<longrightarrow> parked E s k) \<and> (in_queue s k \<and> timed s k \<longrightarrow> over E s k)"

definition keeps_at :: "'db env \<Rightarrow> 'db server \<Rightarrow> 'db server \<Rightarrow> string \<Rightarrow> bool" where
  "keeps_at E s s' k \<longleftrightarrow>
     (place_ok E s k \<longrightarrow> place_ok E s' k \<and>
        (parked E s k \<longrightarrow> parked E s' k \<and> (over E s k \<longrightarrow> over E s' k) \<and> (timed s' k \<longrightarrow> timed s k) \<and>
           (in_queue s' k \<longrightarrow> in_queue s k \<or> timed s k \<and> \<not> over E s k)))"

definition keeps :: "'db env \<Rightarrow> 'db server \<Rightarrow> 'db server \<Rightarrow> bool" where
  "keeps E s s' \<longleftrightarrow> (sane E s \<longrightarrow> sane E s' \<and> (\<forall>k. keeps_at E s s' k))"

lemmas place_defs = place_ok_def parked_def over_def queued_def in_queue_def timed_def

lemma keeps_refl [simp, intro]: "keeps E s s"
  by (auto simp: keeps_def keeps_at_def)

lemma keeps_trans [trans]:
  assumes "keeps E s t" "keeps E t u"
  shows "keeps E s u"
proof -
  have "keeps_at E s t k \<Longrightarrow> keeps_at E t u k \<Longrightarrow> keeps_at E s u k" for k unfolding keeps_at_def by blast
  then show ?thesis using assms unfolding keeps_def by blast
qed

lemma keeps_sane: "(sane E s \<Longrightarrow> keeps E s t) \<Longrightarrow> keeps E s t"
  by (auto simp: keeps_def)

lemma keeps_same:
  assumes "s_db s' = s_db s" "pq_inv (s_queue s) \<Longrightarrow> pq_inv (s_queue s')"
    and "\<And>k. pq_inv (s_queue s) \<Longrightarrow> in_queue s' k \<Longrightarrow> in_queue s k" "\<And>k. timed s' k \<Longrightarrow> timed s k"
  shows "keeps E s s'"
proof (rule keeps_sane)
  assume s: "sane E s"
  have "over E s' k = over E s k" "parked E s' k = parked E s k" for k
    using assms(1) by (simp_all add: parked_def over_def queued_def)
  moreover have "in_queue s' k \<longrightarrow> in_queue s k" "timed s' k \<longrightarrow> timed s k" for k
    using assms(3,4) s by (simp_all add: sane_def)
  ultimately have "keeps_at E s s' k" for k unfolding keeps_at_def place_ok_def by metis
  then show ?thesis using s assms(1,2) by (simp add: keeps_def sane_def)
qed

lemma keeps_basic [simp, intro]:
  "keeps E s (asked s)" "keeps E s (Inc c s)" "keeps E s (removeLease x s)"
  "keeps E s (s\<lparr>s_queue := snd (PQ_Remove k (s_queue s))\<rparr>)" "keeps E s (removeFromIndex k s)" "keeps E s (addDeps j s)"
  by (rule keeps_same; force simp: in_queue_def timed_def pq_inv_ops pq_abs_Remove split: if_splits)+

lemma keeps_fold: "(\<And>x s. keeps E s (f x s)) \<Longrightarrow> keeps E s (fold f xs s)"
  by (induction xs arbitrary: s) (auto intro: keeps_trans)

text \<open>The jobs table after a write.\<close>

lemma putJob_jobs:
  assumes "store_laws E" "sane E s" "putJob E j s = (r, s')"
  shows "sane E s'" "jobs_of E (s_db s') = (if r = None then (jobs_of E (s_db s))(j_Id j \<mapsto> j) else jobs_of E (s_db s))"
    "s_queue s' = s_queue s" "s_retryTimers s' = s_retryTimers s" "s_leases s' = s_leases s"
  using putJob_view [OF assms(1,2), of j] putJob_frame(4,7,8) [of E j s] assms(3)
  by (auto simp: view_def split: option.splits)

lemma keeps_putJob:
  assumes laws: "store_laws E" and j: "\<not> parked E s (j_Id j) \<or> terminal (j_State j)" and put: "putJob E j s = (r, s')"
  shows "keeps E s s'"
proof (rule keeps_sane)
  assume s: "sane E s"
  note P = putJob_jobs [OF laws s put]
  have "keeps_at E s s' k" for k
    using j P(2) by (auto simp: keeps_at_def place_defs P(3,4) split: if_splits)
  then show ?thesis using P(1) by (simp add: keeps_def)
qed

lemma keeps_put_failed:
  assumes laws: "store_laws E" and put: "putJob E j s = (Some e, s')"
  shows "keeps E s s'"
proof (rule keeps_sane)
  assume s: "sane E s"
  note P = putJob_jobs [OF laws s put]
  have "keeps_at E s s' k" for k using P(2) by (simp add: keeps_at_def place_defs P(3,4))
  then show ?thesis using P(1) by (simp add: keeps_def)
qed


text \<open>A job that is neither QUEUED nor finished is written as QUEUED and then gets a timer or is enqueued.\<close>

lemma armEnqueue_places:
  assumes laws: "store_laws E" and s: "sane E s"
  shows "sane E (armEnqueue E k d s)" "jobs_of E (s_db (armEnqueue E k d s)) = jobs_of E (s_db s)"
    "x \<noteq> k \<Longrightarrow> in_queue (armEnqueue E k d s) x = in_queue s x" "x \<noteq> k \<Longrightarrow> timed (armEnqueue E k d s) x = timed s x"
    "in_queue (armEnqueue E k d s) k \<Longrightarrow> timed (armEnqueue E k d s) k \<Longrightarrow> in_queue s k \<or> timed s k"
proof -
  have id: "Store_GetJob E (s_db s) k = Inr j \<Longrightarrow> j_Id j = k" for j using get_job(2) [OF laws s] by blast
  have q: "s_queue (enqueueJob E k s) = s_queue s \<or> (\<exists>p c. s_queue (enqueueJob E k s) = snd (PQ_Push k p c (s_queue s)))"
    "s_retryTimers (enqueueJob E k s) = s_retryTimers s" "s_db (enqueueJob E k s) = s_db s"
    using id by (auto simp: enqueueJob_def split: sum.splits)
  have inv: "pq_inv (s_queue s)" using s by (simp add: sane_def)
  show "sane E (armEnqueue E k d s)" "jobs_of E (s_db (armEnqueue E k d s)) = jobs_of E (s_db s)"
    using q pq_inv_ops(1) [OF inv] s by (auto simp: armEnqueue_def sane_def)
  have "x \<noteq> k \<Longrightarrow> in_queue (enqueueJob E k s) x = in_queue s x"
    using q(1) by (auto simp: in_queue_def pq_abs_Push [OF inv] split: if_splits)
  then show "x \<noteq> k \<Longrightarrow> in_queue (armEnqueue E k d s) x = in_queue s x" by (simp add: armEnqueue_def in_queue_def)
  show "x \<noteq> k \<Longrightarrow> timed (armEnqueue E k d s) x = timed s x"
    "in_queue (armEnqueue E k d s) k \<Longrightarrow> timed (armEnqueue E k d s) k \<Longrightarrow> in_queue s k \<or> timed s k"
    using q(2) by (simp_all add: armEnqueue_def in_queue_def timed_def update_conv' split: if_splits)
qed

lemma keeps_put_arm:
  assumes laws: "store_laws E" and loose: "\<not> parked E s (j_Id j)" and j: "j_State j = JOB_STATE_QUEUED"
    and put: "putJob E j s = (None, s1)" and st: "s2 = s1 \<or> s2 = asked s1"
  shows "keeps E s (armEnqueue E (j_Id j) d s2)"
proof (rule keeps_sane)
  assume s: "sane E s"
  let ?s = "armEnqueue E (j_Id j) d s2"
  note P = putJob_jobs [OF laws s put]
  have s2: "sane E s2" "jobs_of E (s_db s2) = jobs_of E (s_db s1)" "in_queue s2 = in_queue s" "timed s2 = timed s"
    using st P(1,3,4) by (auto simp: sane_def in_queue_def timed_def)
  note Q = armEnqueue_places [OF laws s2(1), where k = "j_Id j" and d = d]
  have "keeps_at E s ?s k" for k
  proof (cases "k = j_Id j")
    case True
    have "queued E ?s k" using Q(2) s2(2) P(2) j True by (simp add: queued_def)
    then show ?thesis using loose True Q(5) by (auto simp: keeps_at_def place_ok_def parked_def s2(3,4))
  next
    case False
    then have "in_queue ?s k = in_queue s k" "timed ?s k = timed s k" "jobs_of E (s_db ?s) k = jobs_of E (s_db s) k"
      using Q(2-4) s2 P(2) by simp_all
    then show ?thesis by (simp add: keeps_at_def place_ok_def parked_def over_def queued_def)
  qed
  then show ?thesis using Q(1) by (simp add: keeps_def)
qed

lemma keeps_timer:
  assumes laws: "store_laws E" and k: "timed s k"
  shows "keeps E s (timerFired E k s)"
proof (rule keeps_sane)
  assume s: "sane E s"
  let ?s1 = "s\<lparr>s_retryTimers := AList.delete k (s_retryTimers s)\<rparr>" and ?s = "timerFired E k s"
  have s1: "sane E ?s1" using s by (simp add: sane_def)
  have eq: "?s = armEnqueue E k 0 ?s1" by (simp add: timerFired_def armEnqueue_def)
  note Q = armEnqueue_places [OF laws s1, where k = k and d = 0, folded eq]
  have t: "\<not> timed ?s k" by (auto simp: timerFired_def enqueueJob_def timed_def delete_conv' split: sum.split)
  have same: "over E ?s x = over E s x" "queued E ?s x = queued E s x" for x using Q(2) by (simp_all add: over_def queued_def)
  have "keeps_at E s ?s x" for x
  proof (cases "x = k")
    case True
    have "in_queue ?s k = in_queue s k" if "over E s k"
    proof -
      have "Store_GetJob E (s_db s) k \<noteq> Inr j \<or> j_State j \<noteq> JOB_STATE_QUEUED" for j
        using that get_job(1) [OF laws s, of k j] by (auto simp: over_def)
      then show ?thesis by (auto simp: timerFired_def enqueueJob_def in_queue_def split: sum.split)
    qed
    then show ?thesis using True t k by (auto simp: keeps_at_def place_ok_def parked_def same)
  next
    case False
    then have "in_queue ?s x = in_queue s x" "timed ?s x = timed s x"
      using Q(3,4) by (simp_all add: in_queue_def timed_def delete_conv')
    then show ?thesis by (simp add: keeps_at_def place_ok_def parked_def same)
  qed
  then show ?thesis using Q(1) by (simp add: keeps_def)
qed


section \<open>Every other handler keeps the places\<close>

lemma keeps_cancel_one:
  assumes laws: "store_laws E"
  shows "keeps E s (cancel_one E now r k s)"
proof (cases "Store_GetJob E (s_db s) k")
  case (Inr job)
  let ?j = "job\<lparr>j_State := JOB_STATE_CANCELED, j_LastError := r, j_UpdatedAt := Some now\<rparr>"
  let ?s = "snd (putJob E ?j s)"
  have "keeps E s ?s" by (rule keeps_putJob [OF laws _ prod.collapse [symmetric]]) simp
  also have "keeps E ?s (Inc JobsCanceled (?s\<lparr>s_queue := snd (PQ_Remove k (s_queue ?s))\<rparr>))"
    by (rule keeps_trans [OF keeps_basic(4) keeps_basic(2)])
  finally show ?thesis using Inr by (simp add: cancel_one_def Let_def)
qed (simp add: cancel_one_def)

lemma keeps_cancelCascade:
  assumes laws: "store_laws E"
  shows "keeps E s (cancelCascade E k r s)"
proof -
  have "keeps E s (cancel_loop E now visited work r s)" for now visited work r s
  proof (induction visited work r s rule: cancel_loop_induct [of _ E now])
    case (new visited work r s ds s2)
    let ?s1 = "cancel_one E now r (last work) s"
    have "keeps E s ?s1" by (rule keeps_cancel_one [OF laws])
    also have "keeps E ?s1 (removeFromIndex (last work) s2)"
      using new(3) by (auto simp: dependentsOf_def intro: keeps_trans [OF keeps_basic(1) keeps_basic(5)])
    also note new(4)
    finally show ?case using cancel_loop_new [OF new(1-3)] by simp
  qed (simp_all add: cancel_loop_seen)
  then show ?thesis by (auto simp: cancelCascade_def Let_def intro: keeps_trans [OF keeps_basic(1)])
qed

lemma keeps_makeReady:
  assumes laws: "store_laws E" and j: "\<not> parked E s (j_Id j)"
  shows "keeps E s (makeReady E j now s)"
proof -
  obtain j' delay s1 where j': "same_job j j'" "j_State j' = JOB_STATE_QUEUED" and s1: "s1 = s \<or> s1 = asked s" and eq: "makeReady E j now s =
      (case putJob E j' s1 of (Some _, s) \<Rightarrow> s | (None, s) \<Rightarrow> armEnqueue E (j_Id j) delay s)"
    by (rule makeReady_shape [of j s E now])
  have id: "j_Id j' = j_Id j" using j'(1) by (simp add: same_job_def)
  then have loose: "\<not> parked E s1 (j_Id j')" using j s1 by (auto simp: parked_def over_def queued_def)
  obtain r s2 where put: "putJob E j' s1 = (r, s2)" by force
  have "keeps E s s1" using s1 keeps_basic(1) keeps_refl by blast
  also have "keeps E s1 (makeReady E j now s)"
  proof (cases r)
    case None
    then have "keeps E s1 (armEnqueue E (j_Id j') delay s2)" 
      using put by (intro keeps_put_arm [OF laws loose j'(2) _ disjI1 [OF refl]]) simp
    then show ?thesis using put None by (simp add: eq id)
  next
    case (Some e)
    then show ?thesis using keeps_put_failed [OF laws] put by (simp add: eq)
  qed
  finally show ?thesis .
qed

lemma pending_not_parked:
  assumes "store_laws E" "sane E s" "Store_GetJob E (s_db s) k = Inr job" "j_State job = JOB_STATE_PENDING \<or> j_State job = JOB_STATE_RUNNING"
  shows "\<not> parked E s (j_Id job)" "\<not> parked E s k"
  using get_job [OF assms(1-3)] assms(4) by (auto simp: parked_def over_def queued_def)

lemma keeps_tryPromote:
  assumes laws: "store_laws E"
  shows "keeps E s (tryPromote E k s)"
proof (rule keeps_sane)
  assume s: "sane E s"
  show ?thesis
  proof (cases "Store_GetJob E (s_db s) k")
    case (Inr job)
    have "keeps E s (makeReady E job (time_Now E s) (asked s))" if "j_State job = JOB_STATE_PENDING"
    proof -
      have "\<not> parked E (asked s) (j_Id job)" using pending_not_parked(1) [OF laws s Inr] that by (simp add: parked_def over_def queued_def)
      from keeps_makeReady [OF laws this] show ?thesis by (rule keeps_trans [OF keeps_basic(1)])
    qed
    then show ?thesis
      using Inr keeps_cancelCascade [OF laws]
      by (auto simp: tryPromote_def split: prod.splits intro: keeps_trans [OF _ keeps_basic(5)])
  qed (simp add: tryPromote_def)
qed

lemma keeps_promoteDependents: "store_laws E \<Longrightarrow> keeps E s (promoteDependents E k s)"
  by (auto simp: promoteDependents_def dependentsOf_def intro: keeps_trans [OF keeps_basic(1) keeps_fold] keeps_tryPromote)

lemma keeps_maybeRescheduleCron:
  assumes laws: "store_laws E" and res: "maybeRescheduleCron E job now s = (b, job', s')" and j: "\<not> parked E s (j_Id job)"
  shows "keeps E s s'"
proof (cases "\<exists>next. Schedule_GetCronExpr (j_Schedule job) \<noteq> [] \<and> nextCron E (Schedule_GetCronExpr (j_Schedule job)) now = Inr next")
  case True
  then obtain "next" where n: "Schedule_GetCronExpr (j_Schedule job) \<noteq> []"
    "nextCron E (Schedule_GetCronExpr (j_Schedule job)) now = Inr next" by blast
  let ?j = "job\<lparr>j_State := JOB_STATE_QUEUED, j_Attempt := 0, j_AssignedWorkerId := [], j_LastError := [], j_FinishedAt := None,
    j_ScheduledAt := Some next, j_UpdatedAt := Some now\<rparr>"
  obtain r s1 where put: "putJob E ?j s = (r, s1)" by force
  show ?thesis
  proof (cases r)
    case None
    then have "s' = armEnqueue E (j_Id job) (time_Until E s1 next) (asked s1)"
      using res n put by (simp add: maybeRescheduleCron_def Let_def)
    moreover have "keeps E s (armEnqueue E (j_Id ?j) (time_Until E s1 next) (asked s1))"
      by (rule keeps_put_arm [OF laws _ _ _ disjI2 [OF refl]]) (use j put None in simp_all)
    ultimately show ?thesis by simp
  next
    case (Some e)
    then have "s' = s1" using res n put by (simp add: maybeRescheduleCron_def Let_def)
    then show ?thesis using keeps_put_failed [OF laws] put Some by simp
  qed
next
  case False
  then have "s' = s" using res by (auto simp: maybeRescheduleCron_def Let_def split: if_splits sum.splits)
  then show ?thesis by simp
qed

lemma keeps_deadLetter:
  assumes laws: "store_laws E" and "Store_PutDeadLetter E (s_db s) j = (r, db)"
  shows "keeps E s (s\<lparr>s_db := db\<rparr>)"
  using PutDeadLetter_touches [OF laws, of s j r db "{}"] assms(2)
  by (auto simp: keeps_def keeps_at_def place_ok_def parked_def over_def queued_def in_queue_def timed_def touches_def)

lemma keeps_handleFailure:
  assumes laws: "store_laws E" and res: "handleFailure E job msg now s = (e, job', s')" and j: "\<not> parked E s (j_Id job)"
  shows "keeps E s s'"
  using res
proof (cases rule: handleFailure_cases)
  case (retry d r s1)
  have id: "j_Id job' = j_Id job" "j_State job' = JOB_STATE_QUEUED" using retry(2) by simp_all
  have loose: "\<not> parked E (asked s) (j_Id job')" using j id by (simp add: parked_def over_def queued_def)
  have "keeps E s (asked s)" by simp
  also have "keeps E (asked s) s'"
  proof (cases r)
    case None
    then have "keeps E (asked s) (armEnqueue E (j_Id job') d s1)"
      using retry(3) by (intro keeps_put_arm [OF laws loose id(2) _ disjI1 [OF refl]]) simp
    from keeps_trans [OF this keeps_basic(2)] show ?thesis using None retry(4) id(1) by simp
  next
    case (Some er)
    then show ?thesis using keeps_put_failed [OF laws] retry(3,4) by simp
  qed
  finally show ?thesis .
next
  case rearm
  then show ?thesis using keeps_maybeRescheduleCron [OF laws rearm(2)] j by simp
next
  case (no_letter j2 s2 er db)
  show ?thesis
    using keeps_trans [OF keeps_maybeRescheduleCron [OF laws no_letter(2)]] keeps_deadLetter [OF laws no_letter(4)] no_letter(5) j by simp
next
  case (no_job j2 s2 db er)
  have "keeps E s (s2\<lparr>s_db := db\<rparr>)"
    using keeps_trans [OF keeps_maybeRescheduleCron [OF laws no_job(2)]] keeps_deadLetter [OF laws no_job(4)] j by simp
  also have "keeps E (s2\<lparr>s_db := db\<rparr>) s'" by (rule keeps_put_failed [OF laws no_job(5)])
  finally show ?thesis .
next
  case (buried j2 s2 db s3)
  have "keeps E s (s2\<lparr>s_db := db\<rparr>)"
    using keeps_trans [OF keeps_maybeRescheduleCron [OF laws buried(2)]] keeps_deadLetter [OF laws buried(4)] j by simp
  also have "keeps E (s2\<lparr>s_db := db\<rparr>) s3"
    by (rule keeps_putJob [OF laws _ buried(5)]) (use buried(3) in simp)
  also have "keeps E s3 s'"
    unfolding buried(6) by (rule keeps_trans [OF keeps_basic(2) keeps_trans [OF keeps_basic(5) keeps_cancelCascade [OF laws]]])
  finally show ?thesis .
qed


text \<open>A job without a lease stays without one, and if it is RUNNING or finished it stays so.\<close>

definition unleased :: "'db server \<Rightarrow> string \<Rightarrow> bool" where
  "unleased s k \<longleftrightarrow> (\<forall>x l. getLease x s = Some l \<longrightarrow> ls_jobID l \<noteq> k)"

definition spares :: "'db env \<Rightarrow> 'db server \<Rightarrow> 'db server \<Rightarrow> bool" where
  "spares E s s' \<longleftrightarrow>
     (sane E s \<longrightarrow> sane E s' \<and> (\<forall>k. unleased s k \<longrightarrow> unleased s' k \<and> (busy E s k \<longrightarrow> busy E s' k)))"

lemma spares_trans [trans]: "spares E s t \<Longrightarrow> spares E t u \<Longrightarrow> spares E s u"
  by (simp add: spares_def)

lemma spares_calm: "calm E {} s s' \<Longrightarrow> spares E s s'"
  by (simp add: calm_def spares_def unleased_def getLease_def)

lemma spares_refl [simp, intro]: "spares E s s"
  by (simp add: spares_def)

lemma spares_fold: "(\<And>x s. spares E s (f x s)) \<Longrightarrow> spares E s (fold f xs s)"
  by (induction xs arbitrary: s) (auto intro: spares_trans)

lemma spares_dropped:
  assumes "getLease t s = Some l" "calm E {ls_jobID l} s s'"
  shows "spares E s (removeLease t s')"
proof -
  have "k \<noteq> ls_jobID l" if "unleased s k" for k using that assms(1) by (auto simp: unleased_def)
  moreover have "sane E s \<Longrightarrow> getLease x (removeLease t s') = (if x = t then None else getLease x s)" for x
    using assms(2) by (simp add: calm_def getLease_def removeLease_def delete_conv')
  ultimately show ?thesis using assms(2) by (auto simp: spares_def calm_def unleased_def busy_def sane_def split: if_splits)
qed

lemma spares_gone:
  assumes "getLease t s = Some l" "calm E {ls_jobID l} (removeLease t s0) s'" "s0 = s \<or> s0 = asked s"
  shows "spares E s s'"
proof -
  have "k \<noteq> ls_jobID l" if "unleased s k" for k using that assms(1) by (auto simp: unleased_def)
  moreover have "sane E (removeLease t s0) = sane E s" "busy E (removeLease t s0) k = busy E s k" for k
    using assms(3) by (auto simp: sane_def busy_def)
  moreover have "getLease x s' = (if x = t then None else getLease x s)" if "sane E s" for x
    using assms(2,3) that by (auto simp: calm_def getLease_def removeLease_def delete_conv' sane_def)
  ultimately show ?thesis using assms(2) by (auto simp: spares_def calm_def unleased_def split: if_splits)
qed

text \<open>What else happens on a leader while polls are under way.\<close>

inductive other_step :: "'db env \<Rightarrow> string option \<Rightarrow> 'db server \<Rightarrow> 'db server \<Rightarrow> bool" for E :: "'db env" where
  accept: "SubmitJob E (Some job) s = (Inr k, s') \<Longrightarrow> wire_policy (j_RetryPolicy job) \<Longrightarrow> other_step E (Some k) s s'"
| refuse: "SubmitJob E req s = (Inl e, s') \<Longrightarrow> other_step E None s s'"
| cancel: "CancelJob E k s = (r, s') \<Longrightarrow> other_step E None s s'"
| register: "RegisterWorker E w s = (r, s') \<Longrightarrow> other_step E None s s'"
| heartbeat: "Heartbeat E w ts s = (r, s') \<Longrightarrow> other_step E None s s'"
| report: "ReportTask E req s = (r, s') \<Longrightarrow> other_step E None s s'"
| timer: "k \<in> fst ` set (s_retryTimers s) \<Longrightarrow> other_step E None s (timerFired E k s)"
| reaper: "other_step E None s (reaperTick E s)"

definition fair :: "'db env \<Rightarrow> 'db server \<Rightarrow> 'db server \<Rightarrow> bool" where
  "fair E s s' \<longleftrightarrow> keeps E s s' \<and> spares E s s'"

lemma fair_trans [trans]: "fair E s t \<Longrightarrow> fair E t u \<Longrightarrow> fair E s u"
  using keeps_trans spares_trans unfolding fair_def by blast

lemma fair_refl [simp, intro]: "fair E s s"
  by (simp add: fair_def)

lemma fair_asked [simp, intro]: "fair E s (asked s)"
  using spares_calm [OF calm_basic(1)] by (simp add: fair_def)

lemma fair_sane: "(sane E s \<Longrightarrow> fair E s t) \<Longrightarrow> fair E s t"
  by (auto simp: fair_def keeps_def spares_def)

lemma fair_calm: "keeps E s t \<Longrightarrow> calm E {} s t \<Longrightarrow> fair E s t"
  by (simp add: fair_def spares_calm)

lemma fair_fold: "(\<And>x s. fair E s (f x s)) \<Longrightarrow> fair E s (fold f xs s)"
  by (induction xs arbitrary: s) (auto intro: fair_trans)

lemma fair_requeueLease:
  assumes laws: "store_laws E"
  shows "fair E s (requeueLease E reason t s)"
proof (rule fair_sane)
  assume s: "sane E s"
  have "spares E s (requeueLease E reason t s)"
    using laws s
  proof (cases rule: requeueLease_calm [of E s reason t])
    case (gone l)
    then show ?thesis by (rule spares_gone) (rule disjI1, rule refl)
  qed simp
  moreover have "keeps E s (requeueLease E reason t s)"
  proof (cases "getLease t s")
    case (Some l)
    let ?s = "Inc TasksRequeued (removeLease t s)"
    have base: "keeps E s (asked ?s)" by (rule keeps_trans [OF keeps_basic(3) keeps_trans [OF keeps_basic(2) keeps_basic(1)]])
    have "keeps E s (snd (snd (handleFailure E job reason (time_Now E ?s) (asked ?s))))"
      if "Store_GetJob E (s_db s) (ls_jobID l) = Inr job" "j_State job = JOB_STATE_RUNNING" for job
    proof -
      obtain e job' s' where res: "handleFailure E job reason (time_Now E ?s) (asked ?s) = (e, job', s')" by (metis prod_cases3)
      have "\<not> parked E (asked ?s) (j_Id job)"
        using pending_not_parked(1) [OF laws s that(1)] that(2) by (simp add: parked_def over_def queued_def)
      from keeps_trans [OF base keeps_handleFailure [OF laws res this]] show ?thesis using res by simp
    qed
    then show ?thesis using Some by (auto simp: requeueLease_def Let_def split: sum.split)
  qed (simp add: requeueLease_def)
  ultimately show ?thesis by (simp add: fair_def)
qed

lemma fair_putWorker:
  assumes laws: "store_laws E"
  shows "fair E s (snd (putWorker E w s))"
proof (rule fair_calm [OF keeps_sane calm_putWorker [OF laws]])
  assume s: "sane E s"
  have "sane E (snd (putWorker E w s))" "mc_jobs (view E (snd (putWorker E w s))) = mc_jobs (view E s)"
    using putWorker_view [OF laws s, of w] by simp_all
  then show "keeps E s (snd (putWorker E w s))" by (simp add: keeps_def keeps_at_def place_defs)
qed

lemma fair_reapOnce:
  assumes laws: "store_laws E"
  shows "fair E s (reapOnce E s)"
proof -
  let ?changes = "reap_changes E (time_Now E s) (asked s)"
  let ?s1 = "fold (\<lambda>(_, w) s. snd (putWorker E w s)) ?changes (asked (asked s))"
  have worker: "fair E u (requeueLeasesForWorker E r w u)" for r w and u :: "'a server"
    unfolding requeueLeasesForWorker_def by (rule fair_trans [OF fair_asked fair_fold]) (rule fair_requeueLease [OF laws])
  have "fair E s (asked (asked s))" by (rule fair_trans [OF fair_asked fair_asked])
  also have "fair E (asked (asked s)) ?s1" by (rule fair_fold) (auto simp: fair_putWorker [OF laws])
  also have "fair E ?s1 (fold (requeueLeasesForWorker E r) ws ?s1)" for r ws by (rule fair_fold) (rule worker)
  finally have pre: "fair E s (fold (requeueLeasesForWorker E r) ws ?s1)" for r ws .
  have "fair E u (fold (requeueLease E r) ts (asked u))" for r ts and u :: "'a server"
    by (rule fair_trans [OF fair_asked fair_fold]) (rule fair_requeueLease [OF laws])
  from fair_trans [OF pre this] show ?thesis by (simp add: reapOnce_def Let_def)
qed


lemma keeps_SubmitJob:
  assumes laws: "store_laws E" and res: "SubmitJob E (Some job) s = (Inr k, s')" and new: "jobs_of E (s_db s) k = None"
  shows "keeps E s s'"
  using res
proof (rule SubmitJob_shape)
  fix j s1
  assume j: "j_Id j = k" "s1 = s \<or> s1 = asked s \<or> s1 = asked (asked s)"
    and s': "s' = Inc JobsSubmitted (placeNewJob E j (time_Now E s1) (asked s1))"
  let ?s = "asked s1"
  obtain ready failed where deps: "depsSatisfied E j ?s = (ready, failed)" by force
  have "s_db ?s = s_db s" using j(2) by auto
  then have loose: "\<not> parked E ?s k" using new by (simp add: parked_def over_def queued_def)
  have put: "keeps E ?s (snd (putJob E i ?s))" if "j_Id i = k" for i
    using loose that by (intro keeps_putJob [OF laws _ prod.collapse [symmetric]]) simp
  have ready: "keeps E ?s (makeReady E j t ?s)" for t using keeps_makeReady [OF laws, of ?s j] loose j(1) by simp
  have c: "keeps E ?s (placeNewJob E j (time_Now E s1) ?s)"
    using deps j(1) by (auto simp: placeNewJob_def Let_def ready intro: keeps_trans [OF put keeps_basic(2)] keeps_trans [OF put keeps_basic(6)])
  have "keeps E s s1" using j(2) keeps_basic(1) keeps_trans by blast
  from keeps_trans [OF this keeps_trans [OF keeps_basic(1) keeps_trans [OF c keeps_basic(2)]]]
  show ?thesis unfolding s' .
qed

lemma keeps_CancelJob:
  assumes laws: "store_laws E"
  shows "keeps E s (snd (CancelJob E k s))"
proof (cases "requireLeader s = None \<and> (\<exists>job. loadJob E k s = Inr job \<and> \<not> terminal (j_State job))")
  case True
  then obtain job where job: "requireLeader s = None" "loadJob E k s = Inr job" "\<not> terminal (j_State job)" by blast
  let ?j = "job\<lparr>j_State := JOB_STATE_CANCELED, j_UpdatedAt := Some (time_Now E s)\<rparr>"
  obtain r s1 where put: "putJob E ?j (asked s) = (r, s1)" by force
  have "keeps E (asked s) s1" by (rule keeps_putJob [OF laws _ put]) simp
  then have c: "keeps E s s1" by (rule keeps_trans [OF keeps_basic(1)])
  let ?s2 = "Inc JobsCanceled (s1\<lparr>s_queue := snd (PQ_Remove (j_Id job) (s_queue s1))\<rparr>)"
  let ?s3 = "cancelCascade E (j_Id job) (''upstream dependency '' @ j_Id job @ '' was canceled'') ?s2"
  have "keeps E s1 ?s3" by (rule keeps_trans [OF keeps_basic(4) keeps_trans [OF keeps_basic(2) keeps_cancelCascade [OF laws]]])
  then have "keeps E s ?s3" by (rule keeps_trans [OF c])
  moreover have "j_State job \<noteq> JOB_STATE_CANCELED \<and> j_State job \<noteq> JOB_STATE_SUCCEEDED \<and> j_State job \<noteq> JOB_STATE_FAILED"
    using job(3) by auto
  then have "snd (CancelJob E k s) = (if r = None then ?s3 else s1)"
    using job(1,2) put by (cases r) (simp_all add: CancelJob_def Let_def)
  ultimately show ?thesis using c by simp
next
  case False
  have "terminal st \<Longrightarrow> st = JOB_STATE_CANCELED \<or> st = JOB_STATE_SUCCEEDED \<or> st = JOB_STATE_FAILED" for st by (cases st) simp_all
  then have "snd (CancelJob E k s) = s" using False by (auto simp: CancelJob_def split: option.splits sum.splits)
  then show ?thesis by simp
qed

lemma fair_workers:
  assumes laws: "store_laws E"
  shows "fair E s (snd (RegisterWorker E w s))" "fair E s (snd (Heartbeat E k ts s))"
proof -
  have put: "putWorker E w (asked s) = (r, s') \<Longrightarrow> fair E s s'" "putWorker E w (asked (asked s)) = (r, s') \<Longrightarrow> fair E s s'" for w r s'
    using fair_trans [OF fair_asked fair_putWorker [OF laws, of "asked s" w]]
      fair_trans [OF fair_asked fair_trans [OF fair_asked fair_putWorker [OF laws, of "asked (asked s)" w]]] by simp_all
  show "fair E s (snd (RegisterWorker E w s))"
    by (auto simp: RegisterWorker_def Let_def split: option.splits prod.splits if_splits intro: put)
  show "fair E s (snd (Heartbeat E k ts s))"
    by (auto simp: Heartbeat_def Let_def split: option.splits prod.splits if_splits intro: put)
qed

lemma keeps_ReportTask:
  assumes laws: "store_laws E"
  shows "keeps E s (snd (ReportTask E req s))"
proof (rule keeps_sane)
  assume s: "sane E s"
  let ?t = "rt_TaskId req" and ?now = "time_Now E s"
  show ?thesis
  proof (cases "requireLeader s = None \<and> (\<exists>l job. getLease ?t s = Some l \<and>
      Store_GetJob E (s_db s) (ls_jobID l) = Inr job \<and> j_State job = JOB_STATE_RUNNING)")
    case False
    then have "snd (ReportTask E req s) = s \<or> snd (ReportTask E req s) = removeLease ?t s"
      by (auto simp: ReportTask_def split: option.splits sum.splits)
    then show ?thesis by auto
  next
    case True
    then obtain l job where l: "requireLeader s = None" "getLease ?t s = Some l"
      "Store_GetJob E (s_db s) (ls_jobID l) = Inr job" "j_State job = JOB_STATE_RUNNING" by blast
    have loose: "\<not> parked E (asked s) (j_Id job)" "\<not> parked E (removeLease ?t (asked s)) (j_Id job)"
      using pending_not_parked(1) [OF laws s l(3)] l(4) by (simp_all add: parked_def over_def queued_def)
    show ?thesis
    proof (cases "rt_Result req")
      case TASK_RESULT_FAILED
      obtain e job' s' where res: "handleFailure E job (rt_Error req) ?now (asked s) = (e, job', s')" by (metis prod_cases3)
      have "keeps E s s'" by (rule keeps_trans [OF keeps_basic(1) keeps_handleFailure [OF laws res loose(1)]])
      from this keeps_trans [OF this keeps_basic(3)] have "keeps E s (if e = None then removeLease ?t s' else s')" by simp
      also have "(if e = None then removeLease ?t s' else s') = snd (ReportTask E req s)"
        using l res TASK_RESULT_FAILED by (cases e) (simp_all add: ReportTask_def Let_def)
      finally show ?thesis .
    next
      case TASK_RESULT_SUCCEEDED
      let ?s = "removeLease ?t (asked s)"
      obtain b job' s1 where res: "maybeRescheduleCron E job ?now ?s = (b, job', s1)" by (metis prod_cases3)
      obtain e s2 where put: "putJob E (succeeded job' ?now) s1 = (e, s2)" by force
      let ?s3 = "promoteDependents E (j_Id (succeeded job' ?now)) (removeFromIndex (j_Id (succeeded job' ?now)) (Inc JobsSucceeded s2))"
      have s': "snd (ReportTask E req s) = (if b then s1 else if e = None then ?s3 else s2)"
        using l res put TASK_RESULT_SUCCEEDED by (cases b; cases e) (simp_all add: ReportTask_def Let_def)
      have s1: "keeps E s s1"
        by (rule keeps_trans [OF keeps_basic(1) keeps_trans [OF keeps_basic(3) keeps_maybeRescheduleCron [OF laws res loose(2)]]])
      have s2: "keeps E s1 s2" by (rule keeps_putJob [OF laws _ put]) (simp add: succeeded_def)
      have "keeps E s2 ?s3" by (rule keeps_trans [OF keeps_basic(2) keeps_trans [OF keeps_basic(5) keeps_promoteDependents [OF laws]]])
      then have "keeps E s ?s3" by (rule keeps_trans [OF keeps_trans [OF s1 s2]])
      then show ?thesis using s1 keeps_trans [OF s1 s2] by (simp add: s')
    qed (use l in \<open>simp_all add: ReportTask_def Let_def\<close>)
  qed
qed

lemma fair_ReportTask:
  assumes "store_laws E"
  shows "fair E s (snd (ReportTask E req s))"
proof (rule fair_sane)
  assume s: "sane E s"
  have "spares E s (snd (ReportTask E req s))"
    using assms s
  proof (cases rule: ReportTask_calm [of E s req])
    case same
    then show ?thesis by (rule spares_calm)
  next
    case (dropped l s0)
    then show ?thesis using spares_dropped [OF dropped(1,2)] by simp
  next
    case (gone l)
    then show ?thesis using spares_gone [OF gone(1,2)] by blast
  qed
  then show ?thesis using keeps_ReportTask [OF assms] by (simp add: fair_def)
qed

lemma fair_timerFired:
  assumes "store_laws E" "timed s k"
  shows "fair E s (timerFired E k s)"
proof -
  have "calm E {} s (timerFired E k s)"
    unfolding timerFired_def by (rule calm_trans [OF _ calm_basic(3)]) (rule calm_same, simp_all)
  then show ?thesis using fair_calm [OF keeps_timer [OF assms]] by blast
qed

lemma other_step_fair:
  assumes laws: "store_laws E" and step: "other_step E l s s'" and new: "\<And>k. l = Some k \<Longrightarrow> jobs_of E (s_db s) k = None"
  shows "fair E s s'"
  using step
proof cases
  case (accept job k)
  then show ?thesis using fair_calm [OF keeps_SubmitJob [OF laws] calm_SubmitJob [OF laws]] new by blast
next
  case (refuse req e)
  then show ?thesis using SubmitJob_refused(3) [of E req s e s'] fair_trans [OF fair_asked fair_asked, of E s] by auto
next
  case (cancel k r)
  then show ?thesis using fair_calm [OF keeps_CancelJob [OF laws, of s k] calm_CancelJob [OF laws, of s k]] by simp
next
  case (register w r)
  then show ?thesis using fair_workers(1) [OF laws, of s w] by simp
next
  case (heartbeat w ts r)
  then show ?thesis using fair_workers(2) [OF laws, of s w ts] by simp
next
  case (report req r)
  then show ?thesis using fair_ReportTask [OF laws, of s req] by simp
next
  case (timer k)
  then have "timed s k" by (auto simp: timed_def map_of_eq_None_iff)
  then show ?thesis using timer(2) fair_timerFired [OF laws] by blast
next
  case reaper
  then show ?thesis using fair_reapOnce [OF laws] by (simp add: reaperTick_def)
qed

end
