(* ===== verification/Poll_Race.thy ===== *)
theory Poll_Race
  imports Poll_Threads
begin

text \<open>
  What polls that are threads do not exclude: another handler that writes the job between the load and
  the write of a poll. \<open>CancelJob\<close> (\<open>internal/scheduler/job.go\<close>) is such a handler.
\<close>

text \<open>The first five accesses of a poll find a job; the four after it write the job and its lease.\<close>

lemma poll_finds:
  assumes "store_laws E" "sane E s" "requireLeader s = None" "workerKnown w s" "PQ_Pop (s_queue s) = (Some k, q)"
    and "jobs_of E (s_db s) k = Some job" "j_State job = JOB_STATE_QUEUED"
  shows "run_polls E (replicate 5 0) [poll_start w m] s =
    ([\<lparr>pt_worker = w, pt_max = m, pt_now = time_Now E s, pt_out = [], pt_pc = Poll_Task k job\<rparr>], (asked s)\<lparr>s_queue := q\<rparr>)"
proof -
  have "Store_GetJob E (s_db s) k = Inr job" using assms(1,2,6) by (simp add: jobs.get_spec sane_def)
  moreover have "0 < batch_size m" by (simp add: batch_size_def maxBatch_def)
  ultimately show ?thesis using assms(3-5,7) by (simp add: poll_step_def poll_start_def numeral_eq_Suc)
qed

lemma run_polls_append:
  "run_polls E (is @ is') ts s = (case run_polls E is ts s of (ts, s) \<Rightarrow> run_polls E is' ts s)"
  by (induction "is" arbitrary: ts s) (auto split: prod.splits)

lemma poll_writes:
  assumes "store_laws E" "no_faults E" "sane E s" "pt_pc t = Poll_Task k job" "j_Id job = k"
  shows "\<exists>t' s' a. run_polls E (replicate 4 0) [t] s = ([t'], s') \<and> pt_out t' = pt_out t @ [a] \<and> ta_JobId a = k \<and>
    backed E (pt_worker t) s' a"
proof -
  let ?j = "running job (pt_worker t) (pt_now t)"
  obtain db where put: "Store_PutJob E (s_db s) ?j = (None, db)"
    using no_faults_writes(1) [OF assms(2), of "s_db s" ?j] by (metis prod.collapse)
  have "jobs_of E db k = Some ?j"
    using PutJob_store(2) [OF assms(1), of "s_db s" ?j] assms(3,5) put by (simp add: sane_def running_def)
  then show ?thesis using assms(4) put by (simp add: poll_step_def numeral_eq_Suc Let_def backed_def) (simp add: running_def)
qed

text \<open>A cancellation that comes in between: the client is told CANCELED and so it is stored.\<close>

lemma cancel_acknowledged:
  assumes "store_laws E" "no_faults E" "sane E s" "requireLeader s = None" "k \<noteq> []"
    and "jobs_of E (s_db s) k = Some job" "\<not> terminal (j_State job)"
  obtains c s' where "CancelJob E k s = (Inr c, s')" "j_Id c = k" "j_State c = JOB_STATE_CANCELED" "sane E s'"
    "jobs_of E (s_db s') k = Some c" "s_node s' = s_node s"
proof -
  define c where "c = job\<lparr>j_State := JOB_STATE_CANCELED, j_UpdatedAt := Some (time_Now E s)\<rparr>"
  let ?s1 = "snd (putJob E c (asked s))"
  let ?s2 = "Inc JobsCanceled (?s1\<lparr>s_queue := snd (PQ_Remove k (s_queue ?s1))\<rparr>)"
  let ?s' = "cancelCascade E k (''upstream dependency '' @ k @ '' was canceled'') ?s2"
  have id: "j_Id c = k" using jobs.keyed assms(1,3,6) by (auto simp: sane_def c_def)
  have load: "loadJob E k s = Inr job" using assms(1,3,5,6) by (simp add: loadJob_def jobs.get_spec sane_def)
  obtain db where put: "Store_PutJob E (s_db s) c = (None, db)"
    using no_faults_writes(1) [OF assms(2), of "s_db s" c] by (metis prod.collapse)
  have db: "store_wf E db" "jobs_of E db k = Some c"
    using PutJob_store(1,2) [OF assms(1), of "s_db s" c] assms(3) put id by (simp_all add: sane_def)
  have s1: "putJob E c (asked s) = (None, appendRepl (ReplicationEntry_UpsertJob c) ((asked s)\<lparr>s_db := db\<rparr>))"
    using put by (simp add: putJob_def)
  have s2: "sane E ?s2" "jobs_of E (s_db ?s2) k = Some c" using db assms(3) by (simp_all add: s1 sane_def pq_inv_ops)
  have "sane E ?s' \<and> s_node ?s' = s_node ?s2 \<and> machine_steps (view E ?s2) (view E ?s')"
    using refines_cancelCascade [OF assms(1)] s2(1) unfolding refines_def by blast
  moreover have "CancelJob E k s = (Inr c, ?s')"
    using assms(4,7) load s1 id by (cases "j_State job") (simp_all add: CancelJob_def Let_def c_def)
  ultimately show ?thesis using that [of c ?s'] id s2(2) terminal_stays [of "view E ?s2" "view E ?s'" k c]
    by (simp add: c_def s1 view_def)
qed

text \<open>A leader with a job at the head of its queue.\<close>

lemma polled_head:
  "PQ_Pop (s_queue polled_server) = (Some ''b'', snd (PQ_Pop (s_queue polled_server)))" "''b'' \<noteq> []"
  "jobs_of sample_env (s_db polled_server) ''b'' = Some (sample_job ''b'')"
proof -
  have "fst (PQ_Pop (s_queue polled_server)) = Some ''b''" by code_simp
  then show "PQ_Pop (s_queue polled_server) = (Some ''b'', snd (PQ_Pop (s_queue polled_server)))" by (metis prod.collapse)
qed (simp_all add: polled_server_def)

text \<open>
  C30. A cancellation can get lost: on every leader with a QUEUED job at the head of its ready queue
  there is an order of accesses in which the client is told that the job is CANCELED and the job is then
  stored as RUNNING and handed to a worker, since the poll writes the copy it loaded before.
\<close>

theorem running_poll_overwrites_cancel:
  assumes "store_laws E" "no_faults E" "sane E s" "requireLeader s = None" "workerKnown w s"
    and "PQ_Pop (s_queue s) = (Some k, q)" "k \<noteq> []" "jobs_of E (s_db s) k = Some job" "j_State job = JOB_STATE_QUEUED"
  shows "\<exists>t s1 c s2 t' s3 a. run_polls E (replicate 5 0) [poll_start w m] s = ([t], s1) \<and>
    CancelJob E k s1 = (Inr c, s2) \<and> j_State c = JOB_STATE_CANCELED \<and> jobs_of E (s_db s2) k = Some c \<and>
    run_polls E (replicate 4 0) [t] s2 = ([t'], s3) \<and> pt_out t' = [a] \<and> ta_JobId a = k \<and> backed E w s3 a"
proof -
  define t where "t = \<lparr>pt_worker = w, pt_max = m, pt_now = time_Now E s, pt_out = [], pt_pc = Poll_Task k job\<rparr>"
  let ?s1 = "(asked s)\<lparr>s_queue := q\<rparr>"
  have "sane E ?s1" using assms(3) pq.pop_spec [OF _ assms(6)] by (auto simp: sane_def)
  moreover have "requireLeader ?s1 = None" using assms(4) by (simp add: requireLeader_def split: if_splits)
  ultimately obtain c s2 where c: "CancelJob E k ?s1 = (Inr c, s2)" "j_State c = JOB_STATE_CANCELED" "sane E s2"
    "jobs_of E (s_db s2) k = Some c"
    by (rule cancel_acknowledged [OF assms(1,2) _ _ assms(7), of ?s1 job]) (use assms(8,9) in simp_all)
  have "j_Id job = k" using jobs.keyed assms(1,3,8) by (auto simp: sane_def)
  then show ?thesis
    using poll_finds [OF assms(1,3-6,8,9), of m] c poll_writes [OF assms(1,2) c(3), of t k job] by (auto simp: t_def)
qed

theorem running_poll_overwrites_cancel_witness:
  "\<exists>t s1 c s2 t' s3 a. run_polls sample_env (replicate 5 0) [poll_start ''w'' 1] polled_server = ([t], s1) \<and>
    CancelJob sample_env ''b'' s1 = (Inr c, s2) \<and> j_State c = JOB_STATE_CANCELED \<and>
    jobs_of sample_env (s_db s2) ''b'' = Some c \<and>
    run_polls sample_env (replicate 4 0) [t] s2 = ([t'], s3) \<and> pt_out t' = [a] \<and> ta_JobId a = ''b'' \<and>
    backed sample_env ''w'' s3 a"
  by (rule running_poll_overwrites_cancel [OF store_laws_sample no_faults_sample polled_server_facts(1-3) polled_head]) simp_all


text \<open>
  The store and the replication log can disagree: a write goes to the store under one lock and to the
  log under another, so when a cancellation comes between the two writes of a poll, the leader has the
  job CANCELED while its log replays to the job RUNNING, and that is what its followers store.
\<close>

lemma log_order_differs_from_store:
  assumes "store_laws E" "no_faults E" "sane E s" "requireLeader s = None" "workerKnown w s"
    and "PQ_Pop (s_queue s) = (Some k, q)" "k \<noteq> []" "jobs_of E (s_db s) k = Some job" "j_State job = JOB_STATE_QUEUED"
  shows "\<exists>t s1 c s2 t' s3 j. run_polls E (replicate 7 0) [poll_start w m] s = ([t], s1) \<and> CancelJob E k s1 = (Inr c, s2) \<and>
    run_polls E [0] [t] s2 = ([t'], s3) \<and> jobs_of E (s_db s3) k = Some c \<and> j_State c = JOB_STATE_CANCELED \<and>
    replay (s_replLog s3) Map.empty k = Some j \<and> j_State j = JOB_STATE_RUNNING"
proof -
  let ?j = "running job w (time_Now E s)"
  obtain db where put: "Store_PutJob E (s_db s) ?j = (None, db)"
    using no_faults_writes(1) [OF assms(2), of "s_db s" ?j] by (metis prod.collapse)
  define s1 where "s1 = asked (asked s)\<lparr>s_queue := q, s_db := db\<rparr>"
  define t where "t = \<lparr>pt_worker = w, pt_max = m, pt_now = time_Now E s, pt_out = [],
    pt_pc = Poll_Log (ids_New E (asked s) ''task'') k ?j\<rparr>"
  have id: "j_Id ?j = k" using jobs.keyed assms(1,3,8) by (auto simp: sane_def running_def)
  have "replicate 7 0 = replicate 5 0 @ [0, 0::nat]" by (simp add: numeral_eq_Suc)
  then have run: "run_polls E (replicate 7 0) [poll_start w m] s = ([t], s1)"
    using poll_finds [OF assms(1,3-6,8,9), of m] put by (simp add: run_polls_append poll_step_def s1_def t_def ids_New_def)
  have db: "store_wf E db" "jobs_of E db k = Some ?j"
    using PutJob_store(1,2) [OF assms(1), of "s_db s" ?j] assms(3) put id by (simp_all add: sane_def)
  have leader: "Node_IsLeader (s_node s)" "requireLeader s1 = None"
    using assms(4) by (simp_all add: requireLeader_def s1_def split: if_splits)
  have "sane E s1" using db assms(3) pq.pop_spec [OF _ assms(6)] by (auto simp: sane_def s1_def)
  then obtain c s2 where c: "CancelJob E k s1 = (Inr c, s2)" "j_State c = JOB_STATE_CANCELED"
    "jobs_of E (s_db s2) k = Some c" "s_node s2 = s_node s1"
    by (rule cancel_acknowledged [OF assms(1,2) _ leader(2) assms(7), of ?j]) (use db(2) in \<open>simp_all add: s1_def running_def\<close>)
  have "poll_step E t s2 = (t\<lparr>pt_pc := Poll_Lease (ids_New E (asked s) ''task'') k ?j\<rparr>, appendRepl (ReplicationEntry_UpsertJob ?j) s2)"
    by (simp add: poll_step_def t_def)
  then show ?thesis
    using run c leader(1) id by (simp add: s1_def appendRepl_def Let_def) (simp add: running_def)
qed

lemma log_order_differs_from_store_example:
  "\<exists>t s1 c s2 t' s3 j. run_polls sample_env (replicate 7 0) [poll_start ''w'' 1] polled_server = ([t], s1) \<and>
    CancelJob sample_env ''b'' s1 = (Inr c, s2) \<and> run_polls sample_env [0] [t] s2 = ([t'], s3) \<and>
    jobs_of sample_env (s_db s3) ''b'' = Some c \<and> j_State c = JOB_STATE_CANCELED \<and>
    replay (s_replLog s3) Map.empty ''b'' = Some j \<and> j_State j = JOB_STATE_RUNNING"
  by (rule log_order_differs_from_store [OF store_laws_sample no_faults_sample polled_server_facts(1-3) polled_head]) simp_all

end
