(* ===== verification/Interleaved_Polls.thy ===== *)
theory Interleaved_Polls
  imports Interleaved Poll_Race
begin

text \<open>
  A leader with any number of polls under way and everything else it does in between: from the moment
  it has taken over, no two of its leases are for the same job.
\<close>

section \<open>A new leader\<close>

definition unplaced :: "'db server \<Rightarrow> string \<Rightarrow> bool" where
  "unplaced s k \<longleftrightarrow> \<not> in_queue s k \<and> \<not> timed s k"

lemma keeps_unplaced:
  assumes "keeps E s s'" "sane E s" "place_ok E s k" "unplaced s k" "parked E s k \<or> \<not> parked E s' k"
  shows "unplaced s' k"
  using assms unfolding keeps_def keeps_at_def unplaced_def place_ok_def by blast

lemma rebuild_one_places:
  assumes laws: "store_laws E" and s: "sane E s" and j: "jobs_of E (s_db s) (j_Id j) = Some j" "unplaced s (j_Id j)"
    and ok: "\<And>k. place_ok E s k" and s': "s' = snd (rebuild_one E now j s)"
  shows "place_ok E s' k" "k \<noteq> j_Id j \<Longrightarrow> unplaced s k \<Longrightarrow> jobs_of E (s_db s') k = jobs_of E (s_db s) k \<Longrightarrow> unplaced s' k"
proof -
  define s0 where "s0 = (if terminal (j_State j) then s else addDeps j s)"
  have s0: "sane E s0" "s_db s0 = s_db s" "in_queue s0 = in_queue s" "timed s0 = timed s"
    using s by (auto simp: s0_def sane_def in_queue_def timed_def)
  have ok0: "place_ok E s0 k" for k using ok [of k] s0(2-4) by (simp add: place_ok_def parked_def over_def queued_def)
  have parked0: "parked E s0 k = parked E s k" for k using s0(2) by (simp add: parked_def over_def queued_def)
  have idle: "s' = s0 \<Longrightarrow> place_ok E s' k \<and> (k \<noteq> j_Id j \<longrightarrow> unplaced s k \<longrightarrow> jobs_of E (s_db s') k = jobs_of E (s_db s) k \<longrightarrow> unplaced s' k)"
    using ok0 s0(3,4) by (simp add: unplaced_def)
  have "place_ok E s' k \<and> (k \<noteq> j_Id j \<longrightarrow> unplaced s k \<longrightarrow> jobs_of E (s_db s') k = jobs_of E (s_db s) k \<longrightarrow> unplaced s' k)"
  proof (cases "j_State j")
    case JOB_STATE_QUEUED
    let ?q = "s0\<lparr>s_queue := snd (PQ_Push (j_Id j) (j_Priority j) (AsTime (j_CreatedAt j)) (s_queue s0))\<rparr>"
    have "s' = ?q \<or> (\<exists>d. s' = armEnqueue E (j_Id j) d s0)"
      using JOB_STATE_QUEUED unfolding s' rebuild_one_def Let_def s0_def [symmetric] by auto
    moreover have "in_queue ?q x = (x = j_Id j \<or> in_queue s0 x)" "timed ?q x = timed s0 x" for x
      using s0(1) by (auto simp: in_queue_def timed_def pq_abs_Push sane_def)
    moreover note armEnqueue_places [OF laws s0(1), where k = "j_Id j"]
    ultimately have P: "jobs_of E (s_db s') = jobs_of E (s_db s)" "\<And>x. x \<noteq> j_Id j \<Longrightarrow> in_queue s' x = in_queue s x \<and> timed s' x = timed s x"
      "\<not> (in_queue s' (j_Id j) \<and> timed s' (j_Id j))"
      using j(2) s0(2-4) unfolding unplaced_def by (auto, metis+)
    have "queued E s' (j_Id j)" using P(1) j(1) JOB_STATE_QUEUED by (simp add: queued_def)
    then show ?thesis using P ok [of k] by (cases "k = j_Id j") (auto simp: place_ok_def parked_def over_def queued_def unplaced_def)
  next
    case JOB_STATE_RUNNING
    obtain e j' s1 where res: "handleFailure E j ''reclaimed orphaned task after leadership change'' now s0 = (e, j', s1)" by (metis prod_cases3)
    have "\<not> parked E s0 (j_Id j)" using j(1) JOB_STATE_RUNNING s0(2) by (simp add: parked_def over_def queued_def)
    then have "keeps E s0 s1" by (rule keeps_handleFailure [OF laws res])
    moreover have "s' = s1" using JOB_STATE_RUNNING res unfolding s' rebuild_one_def Let_def s0_def [symmetric] by simp
    ultimately have K: "keeps E s0 s'" by simp
    have "unplaced s' k" if "unplaced s k" "jobs_of E (s_db s') k = jobs_of E (s_db s) k"
    proof (rule keeps_unplaced [OF K s0(1) ok0])
      show "unplaced s0 k" using that(1) s0(3,4) by (simp add: unplaced_def)
      show "parked E s0 k \<or> \<not> parked E s' k" using that(2) s0(2) by (auto simp: parked_def over_def queued_def)
    qed
    then show ?thesis using K s0(1) ok0 unfolding keeps_def keeps_at_def by blast
  qed (rule idle, simp add: s' rebuild_one_def s0_def)+
  then show "place_ok E s' k" "k \<noteq> j_Id j \<Longrightarrow> unplaced s k \<Longrightarrow> jobs_of E (s_db s') k = jobs_of E (s_db s) k \<Longrightarrow> unplaced s' k" by blast+
qed

lemma rebuild_jobs_places:
  assumes laws: "store_laws E"
  shows "sane E s \<Longrightarrow> distinct (map j_Id js) \<Longrightarrow> index_ids s \<subseteq> X \<Longrightarrow> X \<inter> j_Id ` set js = {} \<Longrightarrow>
    \<forall>j \<in> set js. jobs_of E (s_db s) (j_Id j) = Some j \<and> unplaced s (j_Id j) \<Longrightarrow> \<forall>k. place_ok E s k \<Longrightarrow>
    sane E (snd (rebuild_jobs E now js s)) \<and> (\<forall>k. place_ok E (snd (rebuild_jobs E now js s)) k)"
proof (induction js arbitrary: s X)
  case (Cons j js)
  let ?s = "snd (rebuild_one E now j s)" and ?X = "insert (j_Id j) X"
  have t: "touches E ?X s ?s" using Cons.prems(3) by (intro touches_rebuild_one [OF laws _ _ Cons.prems(1)]) auto
  note P = rebuild_one_places [OF laws Cons.prems(1), of j, OF _ _ _ refl, where now = now]
  have "sane E (snd (rebuild_jobs E now js ?s)) \<and> (\<forall>k. place_ok E (snd (rebuild_jobs E now js ?s)) k)"
  proof (rule Cons.IH)
    show "\<forall>i \<in> set js. jobs_of E (s_db ?s) (j_Id i) = Some i \<and> unplaced ?s (j_Id i)"
    proof
      fix i
      assume i: "i \<in> set js"
      then have out: "j_Id i \<notin> ?X" "j_Id i \<noteq> j_Id j" using Cons.prems(2,4) by (auto simp: image_iff)
      then have "jobs_of E (s_db ?s) (j_Id i) = jobs_of E (s_db s) (j_Id i)" using t Cons.prems(1) by (simp add: touches_def)
      then show "jobs_of E (s_db ?s) (j_Id i) = Some i \<and> unplaced ?s (j_Id i)"
        using P(2) Cons.prems(5,6) i out(2) by simp
    qed
    show "index_ids ?s \<subseteq> ?X" using Cons.prems(3) by (intro touches_index [OF t]) auto
    show "sane E ?s" using t Cons.prems(1) by (simp add: touches_def)
    show "\<forall>k. place_ok E ?s k" using P(1) Cons.prems(5,6) by simp
  qed (use Cons.prems(2,4) in auto)
  then show ?case by (simp add: rebuild_jobs_snd del: rebuild_jobs.simps)
qed simp

lemma onBecomeLeader_places:
  assumes laws: "store_laws E" and s: "sane E s"
  shows "sane E (onBecomeLeader E t s)" "place_ok E (onBecomeLeader E t s) k"
proof -
  let ?c = "asked (clearSchedulingState s)"
  have c: "sane E ?c" "s_db ?c = s_db s" "index_ids ?c = {}" "unplaced ?c k" "place_ok E ?c k" for k
    using s by (auto simp: clearSchedulingState_def index_ids_def sane_def unplaced_def place_ok_def in_queue_def timed_def)
  obtain js where js: "Store_ListJobs E (s_db s) = Inr js" "distinct (map j_Id js)"
    "\<And>k v. jobs_of E (s_db s) k = Some v \<longleftrightarrow> v \<in> set js \<and> j_Id v = k"
    using jobs.listE [OF laws, of "s_db s"] s by (metis sane_def)
  obtain js' s1 where r: "rebuild_jobs E (time_Now E (clearSchedulingState s)) js ?c = (js', s1)" by force
  have s1: "sane E s1" "place_ok E s1 k" for k
    using rebuild_jobs_places [OF laws c(1) js(2), of "{}" "time_Now E (clearSchedulingState s)"] c(2-5) js(3) r by auto
  let ?s2 = "fold (\<lambda>j s. if j_State j = JOB_STATE_PENDING then tryPromote E (j_Id j) s else s) js' s1"
  have "keeps E s1 ?s2" by (rule keeps_fold) (auto simp: keeps_tryPromote [OF laws])
  then have s2: "sane E ?s2" "place_ok E ?s2 k" for k using s1 unfolding keeps_def keeps_at_def by blast+
  have "rebuildSchedulingState E s = ?s2" using js(1) r by (simp add: rebuildSchedulingState_def Let_def clearSchedulingState_def)
  then show "sane E (onBecomeLeader E t s)" "place_ok E (onBecomeLeader E t s) k"
    using s2 by (simp_all add: onBecomeLeader_def seedReplication_def Let_def sane_def place_ok_def parked_def over_def queued_def
        in_queue_def timed_def)
qed


section \<open>Polls and everything else\<close>

text \<open>A poll is called, a poll makes its next access, or something else happens.\<close>

inductive node_step ::
  "'db env \<Rightarrow> string option \<Rightarrow> poll_thread list \<times> 'db server \<Rightarrow> poll_thread list \<times> 'db server \<Rightarrow> bool" for E :: "'db env" where
  call: "node_step E None (ts, s) (ts @ [poll_start w m], s)"
| turn: "i < length ts \<Longrightarrow> poll_step E (ts ! i) s = (t, s') \<Longrightarrow> node_step E None (ts, s) (ts[i := t], s')"
| other: "other_step E l s s' \<Longrightarrow> node_step E l (ts, s) (ts, s')"

inductive node_run ::
  "'db env \<Rightarrow> string option list \<Rightarrow> poll_thread list \<times> 'db server \<Rightarrow> poll_thread list \<times> 'db server \<Rightarrow> bool" for E :: "'db env" where
  start: "node_run E [] x x"
| more: "node_run E ls x y \<Longrightarrow> node_step E l y z \<Longrightarrow> node_run E (ls @ [l]) x z"

text \<open>The job a poll has popped and not yet written, and the job it has found QUEUED and not yet leased.\<close>

definition popped :: "poll_thread \<Rightarrow> string option" where
  "popped t = (case pt_pc t of Poll_Load k \<Rightarrow> Some k | Poll_Task k _ \<Rightarrow> Some k | Poll_Put _ k _ \<Rightarrow> Some k | Poll_Back k _ \<Rightarrow> Some k | _ \<Rightarrow> None)"

definition owned :: "poll_thread \<Rightarrow> string option" where
  "owned t = (case pt_pc t of Poll_Task k _ \<Rightarrow> Some k | Poll_Put _ k _ \<Rightarrow> Some k | Poll_Log _ k _ \<Rightarrow> Some k | Poll_Lease _ k _ \<Rightarrow> Some k
     | Poll_Back k _ \<Rightarrow> Some k | _ \<Rightarrow> None)"

definition claim_ok :: "'db env \<Rightarrow> 'db server \<Rightarrow> poll_thread \<Rightarrow> bool" where
  "claim_ok E s t \<longleftrightarrow>
     (\<forall>k. popped t = Some k \<longrightarrow> \<not> in_queue s k \<and> parked E s k \<and> (\<not> over E s k \<longrightarrow> \<not> timed s k)) \<and>
     (\<forall>k. owned t = Some k \<longrightarrow> unleased s k \<and> (if popped t = None then busy E s k else \<not> timed s k)) \<and>
     (case pt_pc t of
        Poll_Task k job \<Rightarrow> j_Id job = k
      | Poll_Put _ k job \<Rightarrow> j_Id job = k \<and> j_State job = JOB_STATE_RUNNING
      | _ \<Rightarrow> True)"

definition node_ok :: "'db env \<Rightarrow> poll_thread list \<Rightarrow> 'db server \<Rightarrow> bool" where
  "node_ok E ts s \<longleftrightarrow> sane E s \<and> lease_ok E s \<and> (\<forall>k. place_ok E s k) \<and> (\<forall>t \<in> set ts. claim_ok E s t) \<and>
     (\<forall>i j k. i < length ts \<longrightarrow> j < length ts \<longrightarrow> i \<noteq> j \<longrightarrow>
        (popped (ts ! i) = Some k \<longrightarrow> popped (ts ! j) \<noteq> Some k) \<and> (owned (ts ! i) = Some k \<longrightarrow> owned (ts ! j) \<noteq> Some k))"

lemma claim_ok_fair:
  assumes "fair E s s'" "sane E s" "\<And>k. place_ok E s k" "claim_ok E s t"
  shows "claim_ok E s' t"
proof -
  have K: "keeps_at E s s' k" and S: "unleased s k \<Longrightarrow> unleased s' k \<and> (busy E s k \<longrightarrow> busy E s' k)" for k
    using assms(1,2) by (auto simp: fair_def keeps_def spares_def)
  have "\<not> in_queue s' k \<and> parked E s' k \<and> (\<not> over E s' k \<longrightarrow> \<not> timed s' k)" if "popped t = Some k" for k
    using K [of k] assms(3) [of k] assms(4) that unfolding keeps_at_def claim_ok_def by blast
  moreover have "unleased s' k \<and> (if popped t = None then busy E s' k else \<not> timed s' k)" if "owned t = Some k" for k
  proof (cases "popped t = None")
    case False
    then have "popped t = Some k" using that by (auto simp: popped_def owned_def split: poll_pc.splits)
    then show ?thesis using K [of k] S [of k] assms(3) [of k] assms(4) that unfolding keeps_at_def claim_ok_def by simp
  qed (use S [of k] assms(4) that in \<open>simp add: claim_ok_def\<close>)
  ultimately show ?thesis using assms(4) unfolding claim_ok_def by blast
qed

lemma other_step_work: "other_step E l s s' \<Longrightarrow> work_step E l s s'"
  by (cases rule: other_step.cases) (auto intro: work_step.intros)

lemma node_ok_other:
  assumes laws: "store_laws E" and ok: "node_ok E ts s" and step: "other_step E l s s'"
    and new: "\<And>k. l = Some k \<Longrightarrow> jobs_of E (s_db s) k = None"
  shows "node_ok E ts s'"
proof -
  have F: "fair E s s'" by (rule other_step_fair [OF laws step new])
  have s: "sane E s" "lease_ok E s" "\<And>k. place_ok E s k" "\<And>t. t \<in> set ts \<Longrightarrow> claim_ok E s t" using ok by (auto simp: node_ok_def)
  have "sane E s'" "\<And>k. place_ok E s' k" using F s(1,3) by (auto simp: fair_def keeps_def keeps_at_def)
  moreover have "lease_ok E s'" by (rule lease_ok_work_step [OF laws other_step_work [OF step] s(1,2) new])
  ultimately show ?thesis using ok claim_ok_fair [OF F s(1,3,4)] by (auto simp: node_ok_def)
qed


text \<open>What one access of a poll does to itself and to the server.\<close>

definition turn_within :: "'db env \<Rightarrow> poll_thread \<Rightarrow> 'db server \<Rightarrow> poll_thread \<Rightarrow> 'db server \<Rightarrow> bool" where
  "turn_within E t s t' s' \<longleftrightarrow> sane E s' \<and> lease_ok E s' \<and> (\<forall>k. place_ok E s' k) \<and> claim_ok E s' t' \<and>
     (\<forall>k. popped t' = Some k \<longrightarrow> popped t = Some k \<or> in_queue s k) \<and>
     (\<forall>k. owned t' = Some k \<longrightarrow> owned t = Some k \<or> popped t = Some k \<and> \<not> busy E s k) \<and>
     (\<forall>k. jobs_of E (s_db s') k \<noteq> jobs_of E (s_db s) k \<longrightarrow> popped t = Some k \<and> owned t = Some k) \<and>
     (\<forall>k. popped t \<noteq> Some k \<longrightarrow> in_queue s' k \<longrightarrow> in_queue s k) \<and> (\<forall>k. timed s' k \<longrightarrow> timed s k) \<and>
     (\<forall>k. owned t \<noteq> Some k \<longrightarrow> unleased s k \<longrightarrow> unleased s' k)"

lemma turn_same:
  assumes "sane E s" "lease_ok E s" "\<forall>k. place_ok E s k" "s_db s' = s_db s" "s_leases s' = s_leases s"
    "s_queue s' = s_queue s" "s_retryTimers s' = s_retryTimers s" "claim_ok E s t'"
    "\<And>k. popped t' = Some k \<Longrightarrow> popped t = Some k" "\<And>k. owned t' = Some k \<Longrightarrow> owned t = Some k \<or> popped t = Some k \<and> \<not> busy E s k"
  shows "turn_within E t s t' s'"
proof -
  have same: "sane E s' = sane E s" "lease_ok E s' = lease_ok E s" "in_queue s' = in_queue s" "timed s' = timed s"
    "unleased s' k = unleased s k" "busy E s' k = busy E s k" "over E s' k = over E s k" "parked E s' k = parked E s k" for k
    using assms(4-7) lease_ok_same [OF assms(4,5)]
    by (auto simp: sane_def in_queue_def timed_def unleased_def getLease_def busy_def over_def parked_def queued_def fun_eq_iff)
  then have "claim_ok E s' t' = claim_ok E s t'" "place_ok E s' k = place_ok E s k" for k by (simp_all add: claim_ok_def place_ok_def)
  then show ?thesis using assms same by (simp add: turn_within_def)
qed

lemmas pc_defs = popped_def owned_def

lemma turn_pop:
  assumes s: "sane E s" "lease_ok E s" "\<forall>k. place_ok E s k" and pc: "pt_pc t = Poll_Pop" and step: "poll_step E t s = (t', s')"
  shows "turn_within E t s t' s'"
proof (cases "length (pt_out t) < batch_size (pt_max t)")
  case True
  obtain r q where pop: "PQ_Pop (s_queue s) = (r, q)" by force
  have q: "pq_inv q" "r = None \<Longrightarrow> pq_abs q = Map.empty" "\<And>k. r = Some k \<Longrightarrow> in_queue s k \<and> pq_abs q = (pq_abs (s_queue s))(k := None)"
    using pq.pop_spec [OF _ pop] s(1) by (auto simp: sane_def in_queue_def)
  have s': "s' = s\<lparr>s_queue := q\<rparr>" and t': "t' = t\<lparr>pt_pc := (case r of None \<Rightarrow> Poll_Done (Inr (pt_out t)) | Some k \<Rightarrow> Poll_Load k)\<rparr>"
    using step pc True pop by (auto simp: poll_step_def split: option.splits)
  have inq: "in_queue s' k \<longleftrightarrow> in_queue s k \<and> r \<noteq> Some k \<and> r \<noteq> None" for k
    using q(2,3) by (cases r) (auto simp: s' in_queue_def)
  have same: "sane E s'" "lease_ok E s'" "timed s' k = timed s k" "unleased s' k = unleased s k" "jobs_of E (s_db s') k = jobs_of E (s_db s) k"
    "over E s' k = over E s k" "parked E s' k = parked E s k" for k
    using s q(1) lease_ok_same [of s' s E] by (auto simp: s' sane_def timed_def unleased_def getLease_def over_def parked_def queued_def)
  have "place_ok E s' k" for k using s(3) inq same unfolding place_ok_def by blast
  moreover have "claim_ok E s' t'"
    using q(3) s(3) inq same by (auto simp: t' claim_ok_def pc_defs place_ok_def split: option.splits)
  ultimately show ?thesis using same inq q(3) pc by (auto simp: turn_within_def t' pc_defs split: option.splits)
qed (use step pc in \<open>intro turn_same [OF s], auto simp: poll_step_def claim_ok_def pc_defs\<close>)

lemma turn_put:
  assumes laws: "store_laws E" and s: "sane E s" "lease_ok E s" "\<forall>k. place_ok E s k" and t: "claim_ok E s t"
    and pc: "pt_pc t = Poll_Put x k job" and step: "poll_step E t s = (t', s')"
  shows "turn_within E t s t' s'"
proof -
  obtain r db where put: "Store_PutJob E (s_db s) job = (r, db)" by force
  have s': "s' = s\<lparr>s_db := db\<rparr>" and t': "t' = t\<lparr>pt_pc := (if r = None then Poll_Log x k job else Poll_Back k job)\<rparr>"
    using step pc put by (auto simp: poll_step_def split: option.splits)
  have job: "j_Id job = k" "j_State job = JOB_STATE_RUNNING" "\<not> in_queue s k" "\<not> timed s k" "parked E s k" "unleased s k"
    using t pc by (auto simp: claim_ok_def pc_defs)
  have db: "store_wf E db" "jobs_of E db = (if r = None then (jobs_of E (s_db s))(k \<mapsto> job) else jobs_of E (s_db s))"
    using PutJob_store(1,2) [OF laws, of "s_db s" job] put s(1) job(1) by (auto simp: sane_def split: option.splits)
  have same: "in_queue s' = in_queue s" "timed s' = timed s" "unleased s' = unleased s" "getLease y s' = getLease y s" for y
    by (auto simp: s' in_queue_def timed_def unleased_def getLease_def fun_eq_iff)
  have other: "i \<noteq> k \<or> r \<noteq> None \<Longrightarrow> busy E s' i = busy E s i \<and> over E s' i = over E s i \<and> parked E s' i = parked E s i" for i
    using db(2) by (auto simp: s' busy_def over_def parked_def queued_def)
  have k: "r = None \<Longrightarrow> busy E s' k" using db(2) job(2) by (simp add: s' busy_def settled_def)
  have "lease_ok E s'" using s(2) other k unfolding lease_ok_def same by metis
  moreover have "place_ok E s' i" for i
    using s(3) other [of i] job(3,4) by (cases "i = k \<and> r = None") (auto simp: place_ok_def same)
  moreover have "claim_ok E s' t'"
    using job k other [of k] by (auto simp: t' claim_ok_def pc_defs same)
  ultimately show ?thesis using s(1) db pc by (auto simp: turn_within_def s' t' sane_def pc_defs same [unfolded s'])
qed

lemma turn_lease:
  assumes s: "sane E s" "lease_ok E s" "\<forall>k. place_ok E s k" and t: "claim_ok E s t"
    and pc: "pt_pc t = Poll_Lease x k job" and step: "poll_step E t s = (t', s')"
  shows "turn_within E t s t' s'"
proof -
  define l where "l = \<lparr>ls_taskID = x, ls_jobID = k, ls_workerID = pt_worker t, ls_attempt = j_Attempt job,
    ls_deadline = pt_now t + cfg_LeaseTTL (s_cfg s)\<rparr>"
  have s': "s' = Inc TasksDispatched (addLease l s)" and t': "popped t' = None" "owned t' = None" "pt_pc t' = Poll_Pop"
    using step pc by (auto simp: poll_step_def Let_def pc_defs l_def)
  have k: "unleased s k" "busy E s k" using t pc by (auto simp: claim_ok_def pc_defs)
  have "lease_ok E (addLease l s)"
    using k by (intro lease_ok_add [OF s(2)]) (auto simp: l_def unleased_def)
  then have ok: "lease_ok E s'" unfolding s' by (simp add: lease_ok_same [of "Inc TasksDispatched (addLease l s)" "addLease l s"])
  have same: "sane E s'" "in_queue s' i = in_queue s i" "timed s' i = timed s i" "jobs_of E (s_db s') i = jobs_of E (s_db s) i" for i
    using s(1) by (simp_all add: s' sane_def in_queue_def timed_def)
  have "unleased s' i" if "unleased s i" "i \<noteq> k" for i
    using that by (auto simp: s' unleased_def l_def split: if_splits)
  moreover have "place_ok E s' i" for i using s(3) same by (simp add: place_ok_def parked_def over_def queued_def)
  ultimately show ?thesis using ok same t' pc by (auto simp: turn_within_def claim_ok_def pc_defs)
qed

lemma turn_back:
  assumes s: "sane E s" "lease_ok E s" "\<forall>k. place_ok E s k" and t: "claim_ok E s t"
    and pc: "pt_pc t = Poll_Back k job" and step: "poll_step E t s = (t', s')"
  shows "turn_within E t s t' s'"
proof -
  have s': "s' = s\<lparr>s_queue := snd (PQ_Push k (j_Priority job) (AsTime (j_CreatedAt job)) (s_queue s))\<rparr>"
    and t': "popped t' = None" "owned t' = None" "pt_pc t' = Poll_Done (Inr (pt_out t))"
    using step pc by (auto simp: poll_step_def pc_defs)
  have k: "\<not> timed s k" "parked E s k" using t pc by (auto simp: claim_ok_def pc_defs)
  have inq: "in_queue s' i \<longleftrightarrow> i = k \<or> in_queue s i" for i using s(1) by (auto simp: s' in_queue_def pq_abs_Push sane_def)
  have same: "sane E s'" "lease_ok E s'" "timed s' i = timed s i" "unleased s' i = unleased s i" "jobs_of E (s_db s') i = jobs_of E (s_db s) i"
    "over E s' i = over E s i" "parked E s' i = parked E s i" for i
    using s lease_ok_same [of s' s E] by (auto simp: s' sane_def pq_inv_ops timed_def unleased_def getLease_def over_def parked_def queued_def)
  have "place_ok E s' i" for i using s(3) inq [of i] k same by (cases "i = k") (auto simp: place_ok_def)
  then show ?thesis using same inq t' pc by (auto simp: turn_within_def claim_ok_def pc_defs)
qed

lemma turn_step:
  assumes laws: "store_laws E" and s: "sane E s" "lease_ok E s" "\<forall>k. place_ok E s k" and t: "claim_ok E s t"
    and step: "poll_step E t s = (t', s')"
  shows "turn_within E t s t' s'"
proof (cases "pt_pc t")
  case Poll_Leader
  then show ?thesis using step by (intro turn_same [OF s]) (auto simp: poll_step_def claim_ok_def pc_defs split: option.splits)
next
  case Poll_Worker
  then show ?thesis using step by (intro turn_same [OF s]) (auto simp: poll_step_def claim_ok_def pc_defs split: if_splits)
next
  case Poll_Clock
  then show ?thesis using step by (intro turn_same [OF s]) (auto simp: poll_step_def claim_ok_def pc_defs)
next
  case (Poll_Load k)
  show ?thesis
  proof (cases "\<exists>job. Store_GetJob E (s_db s) k = Inr job \<and> j_State job = JOB_STATE_QUEUED")
    case True
    then obtain job where job: "Store_GetJob E (s_db s) k = Inr job" "j_State job = JOB_STATE_QUEUED" by blast
    have "jobs_of E (s_db s) k = Some job" "j_Id job = k" by (rule get_job [OF laws s(1) job(1)])+
    moreover from this have free: "\<not> busy E s k" "\<not> over E s k" using job(2) by (simp_all add: busy_def over_def settled_def)
    moreover have "unleased s k" using s(2) free(1) unfolding lease_ok_def unleased_def by blast
    ultimately show ?thesis using step Poll_Load job t
      by (intro turn_same [OF s]) (auto simp: poll_step_def claim_ok_def pc_defs)
  next
    case False
    then have "t' = t\<lparr>pt_pc := Poll_Pop\<rparr>" "s' = s" using step Poll_Load by (auto simp: poll_step_def split: sum.splits if_splits)
    then show ?thesis by (intro turn_same [OF s]) (auto simp: claim_ok_def pc_defs)
  qed
next
  case (Poll_Task k job)
  then show ?thesis using step t
    by (intro turn_same [OF s]) (auto simp: poll_step_def claim_ok_def pc_defs running_def)
next
  case (Poll_Log x k job)
  then show ?thesis using step t by (intro turn_same [OF s]) (auto simp: poll_step_def claim_ok_def pc_defs)
next
  case (Poll_Done r)
  then show ?thesis using step t by (intro turn_same [OF s]) (auto simp: poll_step_def)
qed (use turn_pop [OF s _ step] turn_put [OF laws s t _ step] turn_lease [OF s t _ step] turn_back [OF s t _ step] in blast)+

text \<open>What another thread claims is not touched by the turn of a thread that claims something else.\<close>

lemma claim_other:
  assumes W: "turn_within E t s t' s'" and u: "claim_ok E s u"
    and apart: "\<And>k. popped u = Some k \<Longrightarrow> popped t \<noteq> Some k" "\<And>k. owned u = Some k \<Longrightarrow> owned t \<noteq> Some k"
  shows "claim_ok E s' u"
proof -
  have jobs: "jobs_of E (s_db s') k = jobs_of E (s_db s) k" if "popped u = Some k \<or> owned u = Some k" for k
    using W apart that unfolding turn_within_def by blast
  have "\<not> in_queue s' k \<and> parked E s' k \<and> (\<not> over E s' k \<longrightarrow> \<not> timed s' k)" if p: "popped u = Some k" for k
  proof -
    have "over E s' k = over E s k" "parked E s' k = parked E s k" using jobs p by (simp_all add: over_def parked_def queued_def)
    moreover have "in_queue s' k \<longrightarrow> in_queue s k" "timed s' k \<longrightarrow> timed s k"
      using W apart(1) [OF p] unfolding turn_within_def by blast+
    ultimately show ?thesis using u p unfolding claim_ok_def by blast
  qed
  moreover have "unleased s' k \<and> (if popped u = None then busy E s' k else \<not> timed s' k)" if o: "owned u = Some k" for k
  proof -
    have "busy E s' k = busy E s k" using jobs o by (simp add: busy_def)
    moreover have "unleased s k \<longrightarrow> unleased s' k" "timed s' k \<longrightarrow> timed s k"
      using W apart(2) [OF o] unfolding turn_within_def by blast+
    ultimately show ?thesis using u o unfolding claim_ok_def by (auto split: if_splits)
  qed
  ultimately show ?thesis using u unfolding claim_ok_def by blast
qed

text \<open>What a turn claims anew was not claimed by another thread.\<close>

lemma claim_apart:
  assumes W: "turn_within E t s t' s'" and u: "claim_ok E s u"
    and apart: "\<And>k. popped u = Some k \<Longrightarrow> popped t \<noteq> Some k" "\<And>k. owned u = Some k \<Longrightarrow> owned t \<noteq> Some k"
  shows "popped t' = Some k \<Longrightarrow> popped u \<noteq> Some k" "owned t' = Some k \<Longrightarrow> owned u \<noteq> Some k"
proof -
  have "\<not> in_queue s k" if "popped u = Some k" using u that unfolding claim_ok_def by blast
  then show "popped t' = Some k \<Longrightarrow> popped u \<noteq> Some k" using W apart(1) unfolding turn_within_def by blast
  have "busy E s k \<or> popped u = Some k" if "owned u = Some k"
  proof (cases "popped u = None")
    case True
    then show ?thesis using u that unfolding claim_ok_def by simp
  next
    case False
    then show ?thesis using that by (auto simp: pc_defs split: poll_pc.splits)
  qed
  then show "owned t' = Some k \<Longrightarrow> owned u \<noteq> Some k" using W apart unfolding turn_within_def by blast
qed

lemma node_ok_turn:
  assumes laws: "store_laws E" and ok: "node_ok E ts s" and i: "i < length ts" and step: "poll_step E (ts ! i) s = (t', s')"
  shows "node_ok E (ts[i := t']) s'"
proof -
  have s: "sane E s" "lease_ok E s" "\<forall>k. place_ok E s k" and claims: "\<And>j. j < length ts \<Longrightarrow> claim_ok E s (ts ! j)"
    using ok by (auto simp: node_ok_def)
  have apart: "popped (ts ! a) = Some k \<Longrightarrow> popped (ts ! b) \<noteq> Some k" "owned (ts ! a) = Some k \<Longrightarrow> owned (ts ! b) \<noteq> Some k"
    if "a < length ts" "b < length ts" "a \<noteq> b" for a b k
    using ok that by (simp_all add: node_ok_def)
  have W: "turn_within E (ts ! i) s t' s'" by (rule turn_step [OF laws s claims [OF i] step])
  have claim: "claim_ok E s' (ts ! j)" if "j < length ts" "j \<noteq> i" for j
    by (rule claim_other [OF W claims [OF that(1)] apart [OF that(1) i that(2)]])
  have new: "popped t' = Some k \<Longrightarrow> popped (ts ! j) \<noteq> Some k" "owned t' = Some k \<Longrightarrow> owned (ts ! j) \<noteq> Some k"
    if "j < length ts" "j \<noteq> i" for j k
    using claim_apart [OF W claims [OF that(1)] apart [OF that(1) i that(2)]] by blast+
  have "claim_ok E s' t'" using W by (simp add: turn_within_def)
  then have "claim_ok E s' u" if "u \<in> set (ts[i := t'])" for u
    using that claim i by (auto simp: in_set_conv_nth nth_list_update split: if_splits)
  moreover have "(popped (ts[i := t'] ! a) = Some k \<longrightarrow> popped (ts[i := t'] ! b) \<noteq> Some k) \<and>
      (owned (ts[i := t'] ! a) = Some k \<longrightarrow> owned (ts[i := t'] ! b) \<noteq> Some k)" if ab: "a < length ts" "b < length ts" "a \<noteq> b" for a b k
    using ab new [of a k] new [of b k] apart [OF ab] by (cases "a = i"; cases "b = i") (auto simp: nth_list_update)
  moreover have "sane E s'" "lease_ok E s'" "\<forall>k. place_ok E s' k" using W unfolding turn_within_def by blast+
  ultimately show ?thesis by (simp add: node_ok_def)
qed

lemma node_ok_call:
  assumes ok: "node_ok E ts s"
  shows "node_ok E (ts @ [poll_start w m]) s"
proof -
  let ?p = "poll_start w m"
  have p: "popped ?p = None" "owned ?p = None" "claim_ok E s ?p" by (simp_all add: pc_defs claim_ok_def poll_start_def)
  have old: "popped ((ts @ [?p]) ! a) = Some k \<Longrightarrow> a < length ts \<and> popped (ts ! a) = Some k"
    "owned ((ts @ [?p]) ! a) = Some k \<Longrightarrow> a < length ts \<and> owned (ts ! a) = Some k" if "a < length (ts @ [?p])" for a k
    using that p(1,2) by (cases "a < length ts"; simp add: nth_append)+
  have apart: "\<forall>i j k. i < length ts \<longrightarrow> j < length ts \<longrightarrow> i \<noteq> j \<longrightarrow>
      (popped (ts ! i) = Some k \<longrightarrow> popped (ts ! j) \<noteq> Some k) \<and> (owned (ts ! i) = Some k \<longrightarrow> owned (ts ! j) \<noteq> Some k)"
    using ok unfolding node_ok_def by (elim conjE)
  have "(popped ((ts @ [?p]) ! a) = Some k \<longrightarrow> popped ((ts @ [?p]) ! b) \<noteq> Some k) \<and>
      (owned ((ts @ [?p]) ! a) = Some k \<longrightarrow> owned ((ts @ [?p]) ! b) \<noteq> Some k)"
    if ab: "a < length (ts @ [?p])" "b < length (ts @ [?p])" "a \<noteq> b" for a b k
    using old [OF ab(1), of k] old [OF ab(2), of k] apart [rule_format, of a b k] ab(3) by metis
  moreover have "\<forall>t \<in> set (ts @ [?p]). claim_ok E s t" using ok p(3) by (simp add: node_ok_def)
  ultimately show ?thesis using ok unfolding node_ok_def by blast
qed

lemma turn_dom:
  assumes "turn_within E t s t' s'" "claim_ok E s t"
  shows "dom (jobs_of E (s_db s')) \<subseteq> dom (jobs_of E (s_db s))"
proof
  fix k
  assume k: "k \<in> dom (jobs_of E (s_db s'))"
  show "k \<in> dom (jobs_of E (s_db s))"
  proof (cases "jobs_of E (s_db s') k = jobs_of E (s_db s) k")
    case False
    then have "popped t = Some k" using assms(1) unfolding turn_within_def by blast
    then show ?thesis using assms(2) by (auto simp: claim_ok_def parked_def over_def queued_def)
  qed (use k in \<open>simp add: domIff\<close>)
qed

lemma node_run_ok:
  assumes laws: "store_laws E"
  shows "node_run E ls x y \<Longrightarrow> x = (ts, s) \<Longrightarrow> node_ok E ts s \<Longrightarrow> fresh_ids E s ls \<Longrightarrow>
    node_ok E (fst y) (snd y) \<and> dom (jobs_of E (s_db (snd y))) \<subseteq> dom (jobs_of E (s_db s)) \<union> set (accepted_ids ls)"
proof (induction rule: node_run.induct)
  case (more ls x y l z)
  obtain us u where y: "y = (us, u)" by force
  have "fresh_ids E s ls" using more.prems(3) by (auto simp: fresh_ids_def accepted_ids_def split: if_splits)
  then have IH: "node_ok E us u" "dom (jobs_of E (s_db u)) \<subseteq> dom (jobs_of E (s_db s)) \<union> set (accepted_ids ls)"
    using more.IH more.prems y by simp_all
  have acc: "set (accepted_ids (ls @ [l])) = set (accepted_ids ls) \<union> set_option l"
    by (cases l) (auto simp: accepted_ids_def)
  from more(2) show ?case unfolding y
  proof cases
    case (call w m)
    then show ?thesis using IH node_ok_call [OF IH(1)] acc by auto
  next
    case (turn i t u')
    have "dom (jobs_of E (s_db u')) \<subseteq> dom (jobs_of E (s_db u))"
      by (rule turn_dom [OF turn_step [OF laws _ _ _ _ turn(4)]]) (use IH(1) turn(3) in \<open>simp_all add: node_ok_def\<close>)
    then show ?thesis using IH(2) node_ok_turn [OF laws IH(1) turn(3,4)] turn(1,2) acc by auto
  next
    case (other u')
    have new: "jobs_of E (s_db u) k = None" if "l = Some k" for k
      using IH(2) more.prems(3) that by (auto simp: fresh_ids_def accepted_ids_def domIff subset_iff)
    have sane: "sane E u" using IH(1) by (simp add: node_ok_def)
    have "server_run E [l] u u'" using server_run.more [OF server_run.start server_step.work [OF other_step_work [OF other(2)]]] by simp
    then have "dom (jobs_of E (s_db u')) \<subseteq> dom (jobs_of E (s_db u)) \<union> set (accepted_ids [l])" by (rule run_dom [OF laws _ sane])
    moreover have "set (accepted_ids [l]) = set_option l" by (cases l) (simp_all add: accepted_ids_def)
    ultimately show ?thesis using IH(2) node_ok_other [OF laws IH(1) other(2) new] other(1) acc by auto
  qed
qed simp

text \<open>
  C6. No job is leased twice, however polls are interrupted: on a leader that has taken over, with any
  number of polls under way, each making its accesses one at a time and all handlers, timers and sweeps
  coming in between, two leases are always for different jobs, as long as every accepted submission has
  an ID of its own.
\<close>

theorem interleaved_polls_lease_once:
  assumes "store_laws E" "sane E s" "node_run E ls ([], onBecomeLeader E term s) (ts', s')"
    and "fresh_ids E (onBecomeLeader E term s) ls"
    and "getLease x s' = Some l" "getLease x' s' = Some l'" "ls_jobID l = ls_jobID l'"
  shows "x = x'"
proof -
  have "node_ok E [] (onBecomeLeader E term s)"
    using onBecomeLeader_places [OF assms(1,2)] lease_ok_none [OF rebuild_leases] by (simp add: node_ok_def)
  then have "lease_ok E s'"
    using node_run_ok [OF assms(1,3) refl _ assms(4)] by (simp add: node_ok_def)
  then show ?thesis using assms(5-7) unfolding lease_ok_def by metis
qed


section \<open>A run with a lease\<close>

lemma run_polls_node:
  "run_polls E is ts s = (ts', s') \<Longrightarrow> node_run E ls x (ts, s) \<Longrightarrow> \<exists>n. node_run E (ls @ replicate n None) x (ts', s')"
proof (induction "is" arbitrary: ls ts s)
  case Nil
  then show ?case by (auto intro!: exI [of _ 0])
next
  case (Cons i "is")
  show ?case
  proof (cases "i < length ts")
    case True
    obtain t u where step: "poll_step E (ts ! i) s = (t, u)" by force
    have "node_run E (ls @ [None]) x (ts[i := t], u)" by (rule node_run.more [OF Cons.prems(2) node_step.turn [OF True step]])
    then obtain n where "node_run E ((ls @ [None]) @ replicate n None) x (ts', s')"
      using Cons.IH Cons.prems(1) True step by fastforce
    then show ?thesis by (intro exI [of _ "Suc n"]) simp
  qed (use Cons in simp)
qed

definition new_leader :: "mem server" where
  "new_leader = onBecomeLeader sample_env 1 (sample_server Leader [sample_job ''b''] [sample_worker ''w''])"

lemma new_leader_facts:
  "sane sample_env new_leader" "requireLeader new_leader = None" "workerKnown ''w'' new_leader"
  "jobs_of sample_env (s_db new_leader) ''b'' = Some (sample_job ''b'')" "fst (PQ_Pop (s_queue new_leader)) = Some ''b''"
proof -
  let ?s = "sample_server Leader [sample_job ''b''] [sample_worker ''w'']"
  have s: "sane sample_env ?s" by (rule sane_sample)
  show "sane sample_env new_leader" unfolding new_leader_def by (rule onBecomeLeader_places(1) [OF store_laws_sample s])
  obtain js where js: "Store_ListJobs sample_env (s_db ?s) = Inr js" "distinct (map j_Id js)"
    "\<And>k v. jobs_of sample_env (s_db ?s) k = Some v \<longleftrightarrow> v \<in> set js \<and> j_Id v = k"
    by (rule jobs.listE [OF store_laws_sample conjunct1 [OF s [unfolded sane_def]]]) (rule that)
  have "v \<in> set js \<longleftrightarrow> v = sample_job ''b''" for v using js(3) [of "j_Id v" v] by (auto split: if_splits)
  then have set: "set js = {sample_job ''b''}" by blast
  have "distinct js" using js(2) unfolding distinct_map by (rule conjunct1)
  from distinct_card [OF this] have "length js = Suc 0" unfolding set by simp
  then obtain x where "js = [x]" by (metis length_0_conv length_Suc_conv)
  then have "js = [sample_job ''b'']" using set by simp
  then have list: "Store_ListJobs sample_env (mem_of [sample_job ''b''] [sample_worker ''w'']) = Inr [sample_job ''b'']" using js(1) by simp
  let ?c = "asked (clearSchedulingState ?s)" and ?j = "sample_job ''b''"
  have c: "s_db (clearSchedulingState ?s) = mem_of [?j] [sample_worker ''w'']" "s_queue (clearSchedulingState ?s) = PQ_Clear PQ_New"
    "s_node (clearSchedulingState ?s) = sample_node Leader"
    "s_workers (clearSchedulingState ?s) = [(''w'', sample_worker ''w'')]"
    by (simp_all add: clearSchedulingState_def sample_worker_def)
  have st: "j_ScheduledAt ?j = None" by (simp add: sample_job_def)
  have r: "rebuildSchedulingState sample_env ?s = (addDeps ?j ?c)\<lparr>s_queue := snd (PQ_Push ''b'' (j_Priority ?j) (AsTime (j_CreatedAt ?j)) (PQ_Clear PQ_New))\<rparr>"
    by (simp add: rebuildSchedulingState_def c list Let_def rebuild_one_def st)
  have frame: "s_queue (seedReplication sample_env u) = s_queue u" "s_node (seedReplication sample_env u) = s_node u"
    "s_db (seedReplication sample_env u) = s_db u" "s_workers (seedReplication sample_env u) = s_workers u" for u
    by (simp_all add: seedReplication_def Let_def)
  show "requireLeader new_leader = None" "workerKnown ''w'' new_leader"
    "jobs_of sample_env (s_db new_leader) ''b'' = Some (sample_job ''b'')"
    by (simp_all add: new_leader_def onBecomeLeader_def frame r c requireLeader_def Node_IsLeader_def workerKnown_def)
  show "fst (PQ_Pop (s_queue new_leader)) = Some ''b''"
    unfolding new_leader_def onBecomeLeader_def frame r by (simp add: sample_job_def) code_simp
qed

theorem interleaved_polls_lease_once_witness:
  "\<exists>ls ts' s' x l. node_run sample_env ls ([], new_leader) (ts', s') \<and> getLease x s' = Some l \<and>
     (\<forall>x' l'. getLease x' s' = Some l' \<longrightarrow> ls_jobID l = ls_jobID l' \<longrightarrow> x = x')"
proof -
  obtain q where pop: "PQ_Pop (s_queue new_leader) = (Some ''b'', q)" using new_leader_facts(5) by (metis prod.collapse)
  define t where "t = \<lparr>pt_worker = ''w'', pt_max = 1, pt_now = time_Now sample_env new_leader, pt_out = [], pt_pc = Poll_Task ''b'' (sample_job ''b'')\<rparr>"
  let ?s1 = "(asked new_leader)\<lparr>s_queue := q\<rparr>"
  have finds: "run_polls sample_env (replicate 5 0) [poll_start ''w'' 1] new_leader = ([t], ?s1)"
    unfolding t_def by (rule poll_finds [OF store_laws_sample new_leader_facts(1-3) pop new_leader_facts(4)]) simp
  have "sane sample_env ?s1" using new_leader_facts(1) pq.pop_spec [OF _ pop] by (auto simp: sane_def)
  then obtain t' s' a where writes: "run_polls sample_env (replicate 4 0) [t] ?s1 = ([t'], s')" "backed sample_env ''w'' s' a"
    using poll_writes [OF store_laws_sample no_faults_sample, of ?s1 t "''b''" "sample_job ''b''"] by (auto simp: t_def)
  have "node_run sample_env [None] ([], new_leader) ([poll_start ''w'' 1], new_leader)"
    using node_run.more [OF node_run.start node_step.call [of sample_env "[]" new_leader "''w''" 1]] by simp
  from run_polls_node [OF finds this] obtain n where "node_run sample_env ([None] @ replicate n None) ([], new_leader) ([t], ?s1)" ..
  from run_polls_node [OF writes(1) this] obtain n' where
    run: "node_run sample_env (([None] @ replicate n None) @ replicate n' None) ([], new_leader) ([t'], s')" ..
  obtain l where l: "getLease (ta_TaskId a) s' = Some l" using writes(2) by (auto simp: backed_def)
  have "fresh_ids sample_env new_leader (([None] @ replicate n None) @ replicate n' None)"
    by (simp add: fresh_ids_def accepted_ids_def)
  then have "ta_TaskId a = x'" if "getLease x' s' = Some l'" "ls_jobID l = ls_jobID l'" for x' l'
    using interleaved_polls_lease_once [OF store_laws_sample sane_sample run [unfolded new_leader_def] _ l that] by (simp add: new_leader_def)
  then show ?thesis using run l by blast
qed

end
