(* ===== verification/Cascade.thy ===== *)
theory Cascade
  imports Sample
begin

text \<open>
  Cancellation reaches every job that waits, directly or through others, on the canceled one. The
  loop of \<open>cancelCascade\<close> walks the reverse index while it takes entries out of it; every job it can
  reach without passing a visited one ends up finished.
\<close>

section \<open>What the loop reaches\<close>

definition index_edges :: "'db server \<Rightarrow> string set \<Rightarrow> (string \<times> string) set" where
  "index_edges s V = {(a, b). b \<in> fst ` set (index_of a s) \<and> b \<notin> V}"

lemma index_edges_step:
  assumes "s_revIndex s2 = s_revIndex s" "(a, b) \<in> index_edges s V" "b \<noteq> k"
  shows "(a, b) \<in> index_edges (removeFromIndex k s2) (insert k V)"
proof -
  have "index_of a s2 = index_of a s" using assms(1) by (simp add: index_of_def)
  then show ?thesis using index_removeFromIndex [of a s2 k] assms(2,3) by (auto simp: index_edges_def)
qed

text \<open>One turn at \<open>k\<close>: what was reachable is \<open>k\<close>, or reachable from the new work.\<close>

lemma reach_step:
  assumes path: "(w, d) \<in> (index_edges s V)\<^sup>*" and w: "w \<in> set work" "w \<notin> V" and ne: "work \<noteq> []"
    and s2: "s_revIndex s2 = s_revIndex s" and ds: "set ds = fst ` set (index_of (last work) s)"
  shows "d = last work \<or> (\<exists>w' \<in> set (butlast work @ ds). w' \<notin> insert (last work) V \<and>
    (w', d) \<in> (index_edges (removeFromIndex (last work) s2) (insert (last work) V))\<^sup>*)"
  using path
proof (induction rule: rtrancl_induct)
  case base
  have "w = last work \<or> w \<in> set (butlast work)" using w(1) ne by (metis append_butlast_last_id in_set_conv_decomp insert_iff list.set(2) rotate1.simps(2) set_rotate1)
  then show ?case using w(2) by auto
next
  case (step y z)
  show ?case
  proof (cases "z = last work")
    case False
    have z: "z \<notin> V" using step(2) by (simp add: index_edges_def)
    from step.IH show ?thesis
    proof
      assume "y = last work"
      then have "z \<in> set ds" using step(2) ds by (simp add: index_edges_def)
      then show ?thesis using z False by auto
    next
      assume "\<exists>w' \<in> set (butlast work @ ds). w' \<notin> insert (last work) V \<and>
        (w', y) \<in> (index_edges (removeFromIndex (last work) s2) (insert (last work) V))\<^sup>*"
      then show ?thesis using index_edges_step [OF s2 step(2) False] by (meson rtrancl.rtrancl_into_rtrancl)
    qed
  qed simp
qed

definition finished :: "'db env \<Rightarrow> 'db server \<Rightarrow> string \<Rightarrow> bool" where
  "finished E s k \<longleftrightarrow> (\<forall>j. jobs_of E (s_db s) k = Some j \<longrightarrow> terminal (j_State j))"

lemma finished_stays:
  assumes "refines E s s'" "sane E s" "finished E s k"
  shows "finished E s' k"
proof (cases "jobs_of E (s_db s) k")
  case None
  then show ?thesis using no_new_jobs [of "view E s" "view E s'" k] assms(1,2) by (simp add: refines_def finished_def)
next
  case (Some j)
  then have "terminal (j_State j)" using assms(3) by (simp add: finished_def)
  then show ?thesis
    using terminal_stays [of "view E s" "view E s'" k j] assms(1,2) Some by (simp add: refines_def finished_def)
qed

lemma cancel_one_finishes:
  assumes E: "steady E" and s: "sane E s"
  shows "finished E (cancel_one E now r k s) k"
proof (cases "Store_GetJob E (s_db s) k")
  case (Inl e)
  then show ?thesis
    using jobs.get_spec [OF steadyD(1) [OF E], of "s_db s" k] s
    by (auto simp: finished_def cancel_one_def sane_def split: option.splits)
next
  case (Inr job)
  note job = get_job [OF steadyD(1) [OF E] s Inr]
  let ?j = "job\<lparr>j_State := JOB_STATE_CANCELED, j_LastError := r, j_UpdatedAt := Some now\<rparr>"
  show ?thesis
    using Inr job putJob_done(2) [OF E s, of ?j] by (auto simp: finished_def cancel_one_def Let_def)
qed

lemma cancel_loop_finishes:
  assumes E: "steady E"
  shows "sane E s \<Longrightarrow> w \<in> set work \<Longrightarrow> w \<notin> V \<Longrightarrow> (w, d) \<in> (index_edges s V)\<^sup>* \<Longrightarrow>
    finished E (cancel_loop E now V work r s) d"
proof (induction V work r s arbitrary: w rule: cancel_loop_induct [of _ E now])
  case (seen V work r s)
  have "w \<in> set (butlast work)"
    using seen(1,2,5,6) by (metis append_butlast_last_id in_set_conv_decomp insert_iff list.set(2) rotate1.simps(2) set_rotate1)
  then show ?case using seen by (simp add: cancel_loop_seen)
next
  case (new V work r s ds s2)
  let ?k = "last work" and ?s1 = "cancel_one E now r (last work) s"
  let ?s3 = "removeFromIndex ?k s2"
  note laws = steadyD(1) [OF E]
  have idx: "s_revIndex ?s1 = s_revIndex s" by simp
  have s2: "s2 = asked ?s1" "set ds = fst ` set (index_of ?k s)"
    using new(3) index_same [OF idx, of ?k] by (auto simp only: dependentsOf_def prod.inject set_range_keys)
  have s1: "sane E ?s1" using refines_cancel_one [OF laws] new.prems(1) unfolding refines_def by blast
  have s3: "sane E ?s3" "s_db ?s3 = s_db ?s1" using s1 s2(1) by (simp_all add: sane_def)
  have eq: "cancel_loop E now V work r s = cancel_loop E now (insert ?k V) (butlast work @ ds) (upstream_failed ?k) ?s3"
    by (rule cancel_loop_new [OF new(1-3)])
  have idx2: "s_revIndex s2 = s_revIndex s" using s2(1) by simp
  consider "d = ?k" | w' where "w' \<in> set (butlast work @ ds)" "w' \<notin> insert ?k V" "(w', d) \<in> (index_edges ?s3 (insert ?k V))\<^sup>*"
    using reach_step [OF new.prems(4,2,3) new(1) idx2 s2(2)] by blast
  then show ?case
  proof cases
    case 1
    have "finished E ?s3 d" using cancel_one_finishes [OF E new.prems(1), of now r ?k] 1 s3(2) by (simp add: finished_def)
    then show ?thesis unfolding eq by (rule finished_stays [OF refines_cancel_loop [OF laws] s3(1)])
  next
    case 2
    then show ?thesis unfolding eq by (intro new(4) [OF s3(1)])
  qed
qed simp

section \<open>Dependents\<close>

text \<open>The jobs that wait on \<open>k\<close>, directly or through other waiting jobs.\<close>

inductive waits_on :: "job_table \<Rightarrow> string \<Rightarrow> string \<Rightarrow> bool" for J :: job_table and k :: string where
  direct: "J d = Some j \<Longrightarrow> j_State j = JOB_STATE_PENDING \<Longrightarrow> k \<in> set (j_DependsOn j) \<Longrightarrow> waits_on J k d"
| through: "waits_on J k c \<Longrightarrow> J d = Some j \<Longrightarrow> j_State j = JOB_STATE_PENDING \<Longrightarrow> c \<in> set (j_DependsOn j) \<Longrightarrow> waits_on J k d"

lemma waits_on_index:
  assumes "placed E {} W s" "waits_on (jobs_of E (s_db s)) k d"
  shows "(k, d) \<in> (index_edges s {})\<^sup>*"
  using assms(2)
proof (induction rule: waits_on.induct)
  case (direct d j)
  then have "d \<in> fst ` set (index_of k s)" using placedD(7) [OF assms(1), of d] by (simp add: located_def)
  then show ?case by (auto simp: index_edges_def)
next
  case (through c d j)
  then have "d \<in> fst ` set (index_of c s)" using placedD(7) [OF assms(1), of d] by (simp add: located_def)
  then have "(c, d) \<in> index_edges s {}" by (simp add: index_edges_def)
  then show ?case using through.IH by (rule rtrancl_into_rtrancl [rotated])
qed

lemma cancelCascade_finishes:
  assumes E: "steady E" and p: "placed E {} W s" and d: "waits_on (jobs_of E (s_db s)) k d"
  shows "finished E (cancelCascade E k r s) d"
proof -
  have "(k, d) \<in> (index_edges (asked s) {})\<^sup>*" using waits_on_index [OF p d] by (simp add: index_edges_def index_of_def)
  moreover have "sane E (asked s)" using placedD(1) [OF p] by (simp add: sane_def)
  ultimately show ?thesis unfolding cancelCascade_def Let_def by (intro cancel_loop_finishes [OF E, of _ k]) simp_all
qed

text \<open>Writing another job of the same ID that does not wait leaves the jobs downstream of it waiting.\<close>

lemma waits_on_update: "waits_on J k d \<Longrightarrow> d = k \<or> waits_on (J(k \<mapsto> j)) k d"
proof (induction rule: waits_on.induct)
  case (direct d i)
  then show ?case by (cases "d = k") (auto intro: waits_on.direct)
next
  case (through c d i)
  then show ?case by (cases "d = k") (auto intro: waits_on.direct waits_on.through)
qed

section \<open>The cascade only cancels\<close>

definition only_cancels :: "'db env \<Rightarrow> 'db server \<Rightarrow> 'db server \<Rightarrow> bool" where
  "only_cancels E s s' \<longleftrightarrow> (sane E s \<longrightarrow> sane E s' \<and>
     (\<forall>k. jobs_of E (s_db s') k = jobs_of E (s_db s) k \<or> (\<exists>j. jobs_of E (s_db s') k = Some j \<and> j_State j = JOB_STATE_CANCELED)))"

lemma only_cancels_trans: "only_cancels E s t \<Longrightarrow> only_cancels E t u \<Longrightarrow> only_cancels E s u"
  unfolding only_cancels_def by metis

lemma only_cancels_cancel_one:
  assumes "store_laws E"
  shows "only_cancels E s (cancel_one E now r k s)"
proof (cases "sane E s")
  case s: True
  show ?thesis
  proof (cases "Store_GetJob E (s_db s) k")
    case (Inr job)
    let ?j = "job\<lparr>j_State := JOB_STATE_CANCELED, j_LastError := r, j_UpdatedAt := Some now\<rparr>"
    have "jobs_of E (s_db (snd (putJob E ?j s))) = jobs_of E (s_db s) \<or>
        jobs_of E (s_db (snd (putJob E ?j s))) = (jobs_of E (s_db s))(j_Id ?j \<mapsto> ?j)"
      using arg_cong [OF putJob_view(2) [OF assms s, of ?j], of mc_jobs] by (auto split: option.splits)
    then have "\<forall>i. jobs_of E (s_db (cancel_one E now r k s)) i = jobs_of E (s_db s) i \<or>
        (\<exists>j. jobs_of E (s_db (cancel_one E now r k s)) i = Some j \<and> j_State j = JOB_STATE_CANCELED)"
      using Inr by (auto simp: cancel_one_def Let_def)
    moreover have "sane E (cancel_one E now r k s)" using refines_cancel_one [OF assms] s unfolding refines_def by blast
    ultimately show ?thesis by (simp add: only_cancels_def)
  qed (simp add: cancel_one_def only_cancels_def)
qed (simp add: only_cancels_def)

lemma only_cancels_same: "s_db s' = s_db s \<Longrightarrow> s_queue s' = s_queue s \<Longrightarrow> only_cancels E s s'"
  by (simp add: only_cancels_def sane_def)

lemma only_cancels_cancelCascade:
  assumes laws: "store_laws E"
  shows "only_cancels E s (cancelCascade E k r s)"
proof -
  have "only_cancels E s (cancel_loop E now V work r s)" for now V work r s
  proof (induction V work r s rule: cancel_loop_induct [of _ E now])
    case (new V work r s ds s2)
    let ?s1 = "cancel_one E now r (last work) s"
    have "only_cancels E ?s1 (removeFromIndex (last work) s2)" using new(3) by (intro only_cancels_same) (auto simp: dependentsOf_def)
    then show ?case
      unfolding cancel_loop_new [OF new(1-3)]
      by (rule only_cancels_trans [OF only_cancels_cancel_one [OF laws] only_cancels_trans [OF _ new(4)]])
  qed (simp_all add: cancel_loop_seen only_cancels_same)
  note loop = this
  show ?thesis
    unfolding cancelCascade_def Let_def by (rule only_cancels_trans [OF only_cancels_same loop]) simp_all
qed

lemma cancelCascade_cancels:
  assumes E: "steady E" and p: "placed E {} W s" and d: "waits_on (jobs_of E (s_db s)) k d"
  shows "\<exists>i. jobs_of E (s_db (cancelCascade E k r s)) d = Some i \<and> j_State i = JOB_STATE_CANCELED"
proof -
  obtain j where "jobs_of E (s_db s) d = Some j" "j_State j = JOB_STATE_PENDING" using d by (cases) auto
  then show ?thesis
    using cancelCascade_finishes [OF E p d, of r] only_cancels_cancelCascade [OF steadyD(1) [OF E], of s k r] placedD(1) [OF p]
    unfolding only_cancels_def finished_def by (metis terminal.simps(5))
qed

lemma CancelJob_cascades:
  assumes E: "steady E" and p: "placed E {} {} s" and res: "CancelJob E k s = (Inr j, s')"
    and k: "jobs_of E (s_db s) k = Some jk" "\<not> terminal (j_State jk)"
  obtains s2 r where "placed E {} {} s2" "s' = cancelCascade E k r s2"
    "jobs_of E (s_db s2) = (jobs_of E (s_db s))(k \<mapsto> jk\<lparr>j_State := JOB_STATE_CANCELED, j_UpdatedAt := Some (time_Now E s)\<rparr>)"
proof -
  have "requireLeader s = None" "k \<noteq> []" using res by (auto simp: CancelJob_def loadJob_def split: option.splits)
  moreover from this have "loadJob E k s = Inr jk" using get_job_abs [OF E p, of k] k(1) by (simp add: loadJob_def)
  ultimately show thesis
    using that res job_key [OF E p k(1)] k(2) by - (rule CancelJob_shape [OF E p, of k jk], auto)
qed

text \<open>
  C13. Canceling a job settles everything that waits on it: when a leader accepts to cancel a job that
  has not finished, the job is CANCELED and so is every PENDING job that depends on it, directly or
  through other PENDING jobs; none of them is left waiting for a job that will never succeed.
\<close>

theorem cancel_reaches_all_dependents:
  assumes E: "steady E" and p: "placed E {} {} s" and res: "CancelJob E k s = (Inr j, s')"
    and k: "jobs_of E (s_db s) k = Some jk" "\<not> terminal (j_State jk)" and d: "d = k \<or> waits_on (jobs_of E (s_db s)) k d"
  shows "\<exists>i. jobs_of E (s_db s') d = Some i \<and> j_State i = JOB_STATE_CANCELED"
proof -
  note laws = steadyD(1) [OF E]
  obtain s2 r where s2: "placed E {} {} s2" "s' = cancelCascade E k r s2"
    "jobs_of E (s_db s2) = (jobs_of E (s_db s))(k \<mapsto> jk\<lparr>j_State := JOB_STATE_CANCELED, j_UpdatedAt := Some (time_Now E s)\<rparr>)"
    by (rule CancelJob_cascades [OF E p res k])
  show ?thesis
  proof (cases "d = k")
    case True
    have "jobs_of E (s_db s') k = jobs_of E (s_db s2) k \<or> (\<exists>i. jobs_of E (s_db s') k = Some i \<and> j_State i = JOB_STATE_CANCELED)"
      using only_cancels_cancelCascade [OF laws, of s2 k r] placedD(1) [OF s2(1)] s2(2) by (simp add: only_cancels_def)
    then show ?thesis using True s2(3) by auto
  next
    case False
    then have "waits_on (jobs_of E (s_db s2)) k d" using waits_on_update d unfolding s2(3) by blast
    then show ?thesis unfolding s2(2) by (rule cancelCascade_cancels [OF E s2(1)])
  qed
qed

definition chained_server :: "mem server" where
  "chained_server =
     (sample_server Leader [sample_job ''a'', (sample_job ''b'')\<lparr>j_State := JOB_STATE_PENDING, j_DependsOn := [''a'']\<rparr>] [])
     \<lparr>s_queue := snd (PQ_Push ''a'' 1 0 PQ_New), s_revIndex := [(''a'', [(''b'', ())])]\<rparr>"

lemma chained_server_jobs:
  "jobs_of sample_env (s_db chained_server) =
     [''a'' \<mapsto> sample_job ''a'', ''b'' \<mapsto> (sample_job ''b'')\<lparr>j_State := JOB_STATE_PENDING, j_DependsOn := [''a'']\<rparr>]"
  by (rule ext) (simp add: chained_server_def)

lemma placed_chained_server: "placed sample_env {} {} chained_server"
proof -
  have "sane sample_env chained_server"
    using sane_sample [of Leader "[sample_job ''a'', (sample_job ''b'')\<lparr>j_State := JOB_STATE_PENDING, j_DependsOn := [''a'']\<rparr>]" "[]"]
    by (simp add: chained_server_def sane_def pq_inv_ops pq_inv_New)
  moreover have "located sample_env chained_server k" for k
    unfolding located_def chained_server_jobs
    by (auto simp: chained_server_def pq_abs_Push pq_inv_New index_of_def split: if_splits)
  moreover have "waiting (jobs_of sample_env (s_db chained_server)) k" for k
    unfolding waiting_def chained_server_jobs deps_met_def by auto
  ultimately show ?thesis by (simp add: placed_def old_leases_def chained_server_def Node_IsLeader_def)
qed

theorem cancel_reaches_all_dependents_witness:
  "\<exists>j s' i. CancelJob sample_env ''a'' chained_server = (Inr j, s') \<and> jobs_of sample_env (s_db s') ''b'' = Some i \<and>
     j_State i = JOB_STATE_CANCELED"
proof -
  note E = steady_sample and p = placed_chained_server
  have a: "jobs_of sample_env (s_db chained_server) ''a'' = Some (sample_job ''a'')" "\<not> terminal (j_State (sample_job ''a''))"
    by (simp_all add: chained_server_jobs)
  have "requireLeader chained_server = None" by (simp add: requireLeader_def chained_server_def Node_IsLeader_def)
  moreover have "loadJob sample_env ''a'' chained_server = Inr (sample_job ''a'')"
    using get_job_abs [OF E p, of "''a''"] a(1) by (simp add: loadJob_def)
  ultimately obtain j s' where res: "CancelJob sample_env ''a'' chained_server = (Inr j, s')"
    by (auto simp: CancelJob_def putJob_def Let_def)
  have "waits_on (jobs_of sample_env (s_db chained_server)) ''a'' ''b''"
    by (rule waits_on.direct [where j = "(sample_job ''b'')\<lparr>j_State := JOB_STATE_PENDING, j_DependsOn := [''a'']\<rparr>"])
      (simp_all add: chained_server_jobs)
  from cancel_reaches_all_dependents [OF E p res a disjI2 [OF this]] res show ?thesis by blast
qed

end
