(* ===== verification/Handlers.thy ===== *)
theory Handlers
  imports Poll_Batch
begin

text \<open>
  Properties of single handlers: refusals of a node that does not lead, repeated reports, the sweep
  of the reaper, and the cycle check of a submission.
\<close>

section \<open>Not the leader\<close>

text \<open>
  C33. A node that does not lead accepts no write: every handler that changes jobs, workers or leases
  fails with the status \<open>FailedPrecondition\<close>, names the leader's address as far as the node knows it,
  and changes nothing.
\<close>

theorem follower_refuses_writes:
  assumes "\<not> Node_IsLeader (s_node s)"
  shows "SubmitJob E job s = (Inl (Err_NotLeader (leaderAddr s)), s) \<and> CancelJob E k s = (Inl (Err_NotLeader (leaderAddr s)), s) \<and>
    RegisterWorker E wi s = (Inl (Err_NotLeader (leaderAddr s)), s) \<and> Heartbeat E w ts s = (Inl (Err_NotLeader (leaderAddr s)), s) \<and>
    PollTask E w n s = (Inl (Err_NotLeader (leaderAddr s)), s) \<and> ReportTask E req s = (Inl (Err_NotLeader (leaderAddr s)), s) \<and>
    status_code (Err_NotLeader (leaderAddr s)) = FailedPrecondition"
  using assms
  by (simp add: requireLeader_def SubmitJob_def CancelJob_def RegisterWorker_def Heartbeat_def PollTask_def ReportTask_def)

theorem follower_refuses_writes_witness:
  "SubmitJob sample_env (Some (sample_job ''a'')) (sample_server Follower [] []) = (Inl (Err_NotLeader '':7070''), sample_server Follower [] [])"
  using follower_refuses_writes [of "sample_server Follower [] []" sample_env "Some (sample_job ''a'')"]
  by (simp add: Node_IsLeader_def leaderAddr_def Node_LeaderID_def sample_node_def)

section \<open>Repeated reports\<close>

lemma acked_lease_gone:
  assumes "ReportTask E req s = (Inr True, s')"
  shows "getLease (rt_TaskId req) s' = None"
proof (cases "getLease (rt_TaskId req) s")
  case None
  then show ?thesis using assms by (auto simp: ReportTask_def split: option.splits)
next
  case (Some l)
  let ?t = "rt_TaskId req" and ?now = "time_Now E s"
  have gone: "s_leases u = s_leases (removeLease ?t v) \<Longrightarrow> getLease ?t u = None" for u v :: "'a server"
    by (simp add: getLease_def removeLease_def delete_conv')
  have lead: "requireLeader s = None" using assms by (auto simp: ReportTask_def split: option.splits)
  show ?thesis
  proof (cases "\<exists>job. Store_GetJob E (s_db s) (ls_jobID l) = Inr job \<and> j_State job = JOB_STATE_RUNNING")
    case False
    then have "s' = removeLease ?t s" using assms Some lead by (auto simp: ReportTask_def split: sum.splits if_splits)
    then show ?thesis using gone [of s' s] by simp
  next
    case True
    then obtain job where job: "Store_GetJob E (s_db s) (ls_jobID l) = Inr job" "j_State job = JOB_STATE_RUNNING" by blast
    show ?thesis
    proof (cases "rt_Result req")
      case TASK_RESULT_FAILED
      obtain e job' s1 where res: "handleFailure E job (rt_Error req) ?now (asked s) = (e, job', s1)" by (metis prod_cases3)
      have "s' = removeLease ?t s1"
        using assms lead Some job TASK_RESULT_FAILED res by (cases e) (simp_all add: ReportTask_def Let_def)
      then show ?thesis using gone [of s' s1] by simp
    next
      case TASK_RESULT_SUCCEEDED
      let ?s = "removeLease ?t (asked s)"
      obtain b job' s1 where res: "maybeRescheduleCron E job ?now ?s = (b, job', s1)" by (metis prod_cases3)
      obtain e s2 where put: "putJob E (succeeded job' ?now) s1 = (e, s2)" by force
      have "s_leases s2 = s_leases s1" using putJob_frame(7) [of E "succeeded job' ?now" s1] put by simp
      moreover have "s' = s1 \<or> s' = promoteDependents E (j_Id (succeeded job' ?now)) (removeFromIndex (j_Id (succeeded job' ?now)) (Inc JobsSucceeded s2))"
        using assms lead Some job TASK_RESULT_SUCCEEDED res put by (cases b; cases e) (simp_all add: ReportTask_def Let_def)
      ultimately have "s_leases s' = s_leases ?s" using maybeRescheduleCron_leases [OF res] by (auto simp: promoteDependents_leases)
      then show ?thesis by (rule gone)
    qed (use assms lead Some job in \<open>auto simp: ReportTask_def Let_def\<close>)
  qed
qed

text \<open>
  C31. Reports are idempotent: once a leader has acknowledged the report of a task, every further report
  of that task, whatever result it carries, is acknowledged and changes nothing.
\<close>

theorem repeated_report_is_ignored:
  assumes "ReportTask E req s = (Inr True, s')" "rt_TaskId req' = rt_TaskId req" "requireLeader s' = None"
  shows "ReportTask E req' s' = (Inr True, s')"
  using acked_lease_gone [OF assms(1)] assms(2,3) by (simp add: ReportTask_def)

section \<open>Expired leases\<close>

lemma handleFailure_leases': "s_leases (snd (snd (handleFailure E job msg now s))) = s_leases s"
  by (cases "handleFailure E job msg now s") (auto dest: handleFailure_leases)

lemma getLease_requeue:
  assumes "getLease i (requeueLease E r t s) = Some l"
  shows "getLease i s = Some l \<and> i \<noteq> t"
proof (cases "getLease t s")
  case None
  then show ?thesis using assms by (auto simp: requeueLease_def)
next
  case (Some l0)
  have "s_leases (requeueLease E r t s) = s_leases (removeLease t s)"
    using Some by (simp add: requeueLease_def handleFailure_leases' Let_def split: sum.split)
  then show ?thesis using assms by (simp add: getLease_def removeLease_def delete_conv' split: if_splits)
qed

lemma getLease_requeues: "getLease i (fold (requeueLease E r) ts s) = Some l \<Longrightarrow> getLease i s = Some l \<and> i \<notin> set ts"
  by (induction ts arbitrary: s) (auto dest: getLease_requeue)

lemma leases_where_iff: "t \<in> set (leases_where E P s) \<longleftrightarrow> (\<exists>l. getLease t s = Some l \<and> P l)"
  by (force simp: leases_where_def getLease_def dest: map_of_SomeD split: option.splits)

lemma in_map_filter: "x \<in> set xs \<Longrightarrow> f x = Some y \<Longrightarrow> y \<in> set (List.map_filter f xs)"
  by (induction xs) (auto simp: map_filter_simps split: option.splits)

lemma getLease_dead_worker:
  assumes "getLease i (requeueLeasesForWorker E r w s) = Some l"
  shows "getLease i s = Some l \<and> ls_workerID l \<noteq> w"
proof -
  have "getLease i (asked s) = Some l" "i \<notin> set (leases_where E (\<lambda>l. ls_workerID l = w) s)"
    using assms getLease_requeues unfolding requeueLeasesForWorker_def by blast+
  then show ?thesis using leases_where_iff [of i E "\<lambda>l. ls_workerID l = w" s] by (auto simp: getLease_def)
qed

lemma getLease_dead_workers:
  "getLease i (fold (requeueLeasesForWorker E r) ws s) = Some l \<Longrightarrow> getLease i s = Some l \<and> ls_workerID l \<notin> set ws"
  by (induction ws arbitrary: s) (auto dest: getLease_dead_worker)

text \<open>
  C32. A sweep of the reaper takes back what is overdue: no lease that is left after it had its deadline
  before the sweep began, none is held by a worker the sweep declared DEAD, and the sweep grants no
  lease.
\<close>

theorem reaper_reclaims_overdue_leases:
  assumes "getLease t (reapOnce E s) = Some l"
  shows "getLease t s = Some l \<and> \<not> ls_deadline l < time_Now E s \<and>
    (\<forall>k cur. map_of (s_workers s) k = Some cur \<longrightarrow> w_State cur \<noteq> WORKER_STATE_DEAD \<longrightarrow>
       liveness (cfg_HeartbeatTimeout (s_cfg s)) (time_sub (time_Now E s) (AsTime (w_LastHeartbeat cur))) = WORKER_STATE_DEAD \<longrightarrow>
       ls_workerID l \<noteq> k)"
proof -
  let ?now = "time_Now E s" and ?ch = "reap_changes E (time_Now E s) (asked s)"
  let ?dead = "map fst (filter (\<lambda>(_, w). w_State w = WORKER_STATE_DEAD) ?ch)"
  let ?s1 = "fold (\<lambda>(_, w) s. snd (putWorker E w s)) ?ch (asked (asked s))"
  let ?s2 = "fold (requeueLeasesForWorker E ''worker missed heartbeats'') ?dead ?s1"
  have ws: "s_leases (fold (\<lambda>(_, w) s. snd (putWorker E w s)) cs u) = s_leases u" for cs :: "(string \<times> WorkerInfo) list" and u
    by (induction cs arbitrary: u) auto
  have "getLease t (fold (requeueLease E ''lease deadline exceeded'') (leases_where E (\<lambda>l. ls_deadline l < ?now) ?s2) (asked ?s2)) = Some l"
    using assms by (simp add: reapOnce_def Let_def)
  then have "getLease t (asked ?s2) = Some l \<and> t \<notin> set (leases_where E (\<lambda>l. ls_deadline l < ?now) ?s2)"
    by (rule getLease_requeues)
  then have s2: "getLease t ?s2 = Some l" "\<not> ls_deadline l < ?now"
    using leases_where_iff [of t E "\<lambda>l. ls_deadline l < ?now" ?s2] by (auto simp: getLease_def)
  have s1: "getLease t ?s1 = Some l" "ls_workerID l \<notin> set ?dead" using getLease_dead_workers [OF s2(1)] by auto
  have "k \<in> set ?dead" if "map_of (s_workers s) k = Some cur" "w_State cur \<noteq> WORKER_STATE_DEAD"
    "liveness (cfg_HeartbeatTimeout (s_cfg s)) (time_sub ?now (AsTime (w_LastHeartbeat cur))) = WORKER_STATE_DEAD" for k cur
  proof -
    have "changed_worker (cfg_HeartbeatTimeout (s_cfg s)) ?now cur = Some (cur\<lparr>w_State := WORKER_STATE_DEAD\<rparr>)"
      using that by (simp add: changed_worker_def Let_def)
    moreover have "k \<in> set (range_keys (env_order E) (s_tick (asked s)) (s_workers (asked s)))"
      using map_of_SomeD [OF that(1)] by force
    ultimately have "(k, cur\<lparr>w_State := WORKER_STATE_DEAD\<rparr>) \<in> set ?ch"
      unfolding reap_changes_def by (intro in_map_filter [of k]) (simp_all add: that(1))
    then show ?thesis by force
  qed
  then show ?thesis using s1 s2(2) ws [of ?ch "asked (asked s)"] by (auto simp: getLease_def)
qed

text \<open>A leader with an overdue lease, one that is not, and a worker that was never heard of again.\<close>

definition overdue_server :: "mem server" where
  "overdue_server = (sample_server Leader [(sample_job ''a'')\<lparr>j_State := JOB_STATE_RUNNING\<rparr>, (sample_job ''b'')\<lparr>j_State := JOB_STATE_RUNNING\<rparr>] [])
     \<lparr>s_leases := [(''t1'', \<lparr>ls_taskID = ''t1'', ls_jobID = ''a'', ls_workerID = ''w'', ls_attempt = 1, ls_deadline = 900\<rparr>),
                   (''t2'', \<lparr>ls_taskID = ''t2'', ls_jobID = ''b'', ls_workerID = ''w'', ls_attempt = 1, ls_deadline = 9000\<rparr>)]\<rparr>"

theorem reaper_reclaims_overdue_leases_witness: "getLease ''t1'' (reapOnce sample_env overdue_server) = None"
proof (rule ccontr)
  assume "getLease ''t1'' (reapOnce sample_env overdue_server) \<noteq> None"
  then obtain l where "getLease ''t1'' (reapOnce sample_env overdue_server) = Some l" by blast
  from reaper_reclaims_overdue_leases [OF this] show False
    by (auto simp: overdue_server_def getLease_def time_Now_def)
qed

theorem repeated_report_is_ignored_witness:
  "\<exists>s'. ReportTask sample_env \<lparr>rt_WorkerId = ''w'', rt_TaskId = ''t1'', rt_Result = TASK_RESULT_SUCCEEDED, rt_Output = [], rt_Error = []\<rparr>
       overdue_server = (Inr True, s') \<and>
     ReportTask sample_env \<lparr>rt_WorkerId = ''w'', rt_TaskId = ''t1'', rt_Result = TASK_RESULT_FAILED, rt_Output = [], rt_Error = ''late''\<rparr>
       s' = (Inr True, s')"
proof -
  let ?ok = "\<lparr>rt_WorkerId = ''w'', rt_TaskId = ''t1'', rt_Result = TASK_RESULT_SUCCEEDED, rt_Output = [], rt_Error = []\<rparr>"
  let ?late = "\<lparr>rt_WorkerId = ''w'', rt_TaskId = ''t1'', rt_Result = TASK_RESULT_FAILED, rt_Output = [], rt_Error = ''late''\<rparr>"
  have lead: "requireLeader overdue_server = None" by (simp add: overdue_server_def requireLeader_def Node_IsLeader_def)
  have s: "sane sample_env overdue_server"
    using sane_sample [of Leader "[(sample_job ''a'')\<lparr>j_State := JOB_STATE_RUNNING\<rparr>, (sample_job ''b'')\<lparr>j_State := JOB_STATE_RUNNING\<rparr>]" "[]"]
    by (simp add: overdue_server_def sane_def)
  have "jobs_of sample_env (s_db overdue_server) ''a'' = Some ((sample_job ''a'')\<lparr>j_State := JOB_STATE_RUNNING\<rparr>)"
    by (simp add: overdue_server_def)
  then have job: "Store_GetJob sample_env (s_db overdue_server) ''a'' = Inr ((sample_job ''a'')\<lparr>j_State := JOB_STATE_RUNNING\<rparr>)"
    using jobs.get_spec [OF store_laws_sample, of "s_db overdue_server" "''a''"] s by (simp add: sane_def)
  have "getLease ''t1'' overdue_server = Some \<lparr>ls_taskID = ''t1'', ls_jobID = ''a'', ls_workerID = ''w'', ls_attempt = 1, ls_deadline = 900\<rparr>"
    by (simp add: overdue_server_def getLease_def)
  then obtain s' where first: "ReportTask sample_env ?ok overdue_server = (Inr True, s')"
    using lead job by (auto simp: ReportTask_def maybeRescheduleCron_def Schedule_GetCronExpr_def putJob_def Let_def)
  have "same_life overdue_server s'"
    using refines_ReportTask [OF store_laws_sample, of overdue_server ?ok] s first by (simp add: refines_def)
  then have "requireLeader s' = None" using lead by (simp add: requireLeader_def split: if_splits)
  from repeated_report_is_ignored [OF first _ this, of ?late] first show ?thesis by auto
qed

section \<open>The cycle check\<close>

text \<open>
  C29. The cycle check of a submission is exact: it refuses a job exactly when the dependencies stored
  so far, together with those of the new job, have a cycle that the new job reaches; a job is not
  refused because of a cycle elsewhere, nor accepted into one.
\<close>

theorem cycle_check_exact:
  assumes "store_laws E" "sane E s"
  shows "wouldCreateCycle E (j_Id j) (j_DependsOn j) s \<longleftrightarrow>
    (\<exists>c. (j_Id j, c) \<in> (dep_edges ((jobs_of E (s_db s))(j_Id j \<mapsto> j)))\<^sup>* \<and>
         (c, c) \<in> (dep_edges ((jobs_of E (s_db s))(j_Id j \<mapsto> j)))\<^sup>+)"
  by (rule wouldCreateCycle_correct [OF assms refl refl])

theorem cycle_check_exact_witness:
  "wouldCreateCycle sample_env ''a'' [''a''] (sample_server Leader [] [])"
proof -
  let ?j = "(sample_job ''a'')\<lparr>j_DependsOn := [''a'']\<rparr>"
  have "(''a'', ''a'') \<in> dep_edges ((jobs_of sample_env (s_db (sample_server Leader [] [])))(j_Id ?j \<mapsto> ?j))"
    by (simp add: dep_edges_def)
  then show ?thesis using cycle_check_exact [OF store_laws_sample sane_sample, of ?j Leader "[]" "[]"] by (auto dest: r_into_trancl)
qed

section \<open>Two weak spots\<close>

text \<open>
  A report of success whose write fails loses its lease all the same: the worker gets an error, and
  when it reports again it is told that all is well, though the job is still as it was.
\<close>

lemma failed_success_report_loses_lease:
  assumes "requireLeader s = None" "getLease (rt_TaskId req) s = Some l" "Store_GetJob E (s_db s) (ls_jobID l) = Inr job"
    and "j_State job = JOB_STATE_RUNNING" "Schedule_GetCronExpr (j_Schedule job) = ''''" "rt_Result req = TASK_RESULT_SUCCEEDED"
    and put: "putJob E (succeeded job (time_Now E s)) (removeLease (rt_TaskId req) (asked s)) = (Some e, s')"
  shows "ReportTask E req s = (Inl (Err_PersistSuccess e), s') \<and> (requireLeader s' = None \<longrightarrow> ReportTask E req s' = (Inr True, s'))"
proof -
  have "s_leases s' = s_leases (removeLease (rt_TaskId req) (asked s))"
    using putJob_frame [of E "succeeded job (time_Now E s)" "removeLease (rt_TaskId req) (asked s)"] put by auto
  then have "getLease (rt_TaskId req) s' = None" by (simp add: getLease_def removeLease_def)
  then have "requireLeader s' = None \<longrightarrow> ReportTask E req s' = (Inr True, s')" by (simp add: ReportTask_def)
  moreover have "ReportTask E req s = (Inl (Err_PersistSuccess e), s')"
    using assms by (simp add: ReportTask_def maybeRescheduleCron_def Let_def)
  ultimately show ?thesis by blast
qed

text \<open>
  A job that is refused because of a failed dependency is stored as CANCELED, but unlike
  \<open>CancelJob\<close> this does not reach the jobs that already wait on it: nothing else in the store changes.
\<close>

lemma refused_job_does_not_cascade:
  assumes "store_laws E" "sane E s" "depsSatisfied E job s = (ready, d)" "d \<noteq> []" "k \<noteq> j_Id job"
  shows "jobs_of E (s_db (placeNewJob E job now s)) k = jobs_of E (s_db s) k"
proof -
  let ?job = "job\<lparr>j_State := JOB_STATE_CANCELED, j_LastError := upstream_failed d, j_UpdatedAt := Some now\<rparr>"
  have "placeNewJob E job now s = Inc JobsCanceled (snd (putJob E ?job s))" using assms(3,4) by (simp add: placeNewJob_def)
  then show ?thesis
    using arg_cong [OF putJob_view(2) [OF assms(1,2), of ?job], of mc_jobs] assms(5) by (auto simp: view_def split: option.splits)
qed

end
