(* ===== verification/Rpc_Net.thy ===== *)
theory Rpc_Net
  imports Messages
begin

text \<open>
  What a client process sees of the outside: gRPC connections and calls, the clock, waiting, and the
  processes it starts. The library code behind it is a parameter, the record \<open>host\<close> over a world
  \<open>'w\<close>, which every call may change; theory \<open>Cluster_Net\<close> instantiates it with scheduler nodes.

  A call takes the address its connection was dialled to. It fails with a status, of which the
  clients read the code.
\<close>

type_synonym grpc_error = "Code \<times> string"

type_synonym ('w, 'r) call = "'w \<Rightarrow> (grpc_error + 'r) \<times> 'w"

record 'w net =
  net_NewClient :: "string \<Rightarrow> goerr option"
  net_GetClusterStatus :: "string \<Rightarrow> ('w, GetClusterStatusResponse) call"
  net_RegisterWorker :: "string \<Rightarrow> WorkerInfo option \<Rightarrow> ('w, string \<times> string) call"
  net_Heartbeat :: "string \<Rightarrow> string \<Rightarrow> string list \<Rightarrow> ('w, bool \<times> string) call"
  net_PollTask :: "string \<Rightarrow> string \<Rightarrow> int \<Rightarrow> ('w, TaskAssignment list) call"
  net_ReportTask :: "string \<Rightarrow> ReportTaskRequest \<Rightarrow> ('w, bool) call"
  net_SubmitJob :: "string \<Rightarrow> Job option \<Rightarrow> ('w, string) call"
  net_GetJob :: "string \<Rightarrow> string \<Rightarrow> ('w, Job) call"
  net_ListJobs :: "string \<Rightarrow> JobState \<Rightarrow> int \<Rightarrow> ('w, Job list) call"
  net_CancelJob :: "string \<Rightarrow> string \<Rightarrow> ('w, Job) call"

text \<open>
  \<open>host_Wait\<close> waits for a duration or until the process is told to stop, and answers whether it was;
  \<open>host_Run\<close> runs a command with its arguments, its environment (\<^const>\<open>None\<close>: inherited) and its
  time limit, and answers the error of \<open>cmd.Run\<close> and the combined output.
\<close>

record 'w host = "'w net" +
  host_Wait :: "duration \<Rightarrow> 'w \<Rightarrow> bool \<times> 'w"
  host_Sleep :: "duration \<Rightarrow> 'w \<Rightarrow> 'w"
  host_Now :: "'w \<Rightarrow> time \<times> 'w"
  host_Order :: "'w \<Rightarrow> string list \<Rightarrow> string list"
  host_Environ :: "string list"
  host_Run :: "string \<Rightarrow> string list \<Rightarrow> string list option \<Rightarrow> duration option \<Rightarrow> 'w \<Rightarrow> (goerr option \<times> string) \<times> 'w"

end
