(* ===== verification/Agent.thy ===== *)
theory Agent
  imports Rpc_Net
begin

text \<open>
  The worker agent (\<open>internal/worker/agent.go\<close>, \<open>internal/worker/executor.go\<close>): it finds the leader,
  registers, sends heartbeats, polls for tasks within its capacity, runs each as a subprocess and
  reports the result.

  An operation answers \<^const>\<open>None\<close> when it does not return: \<open>bootstrap\<close> may look for a leader for
  ever, and a call on the \<open>nil\<close> client of an agent that never connected panics. The goroutines
  \<open>go a.run(task)\<close> that have not finished are kept in \<open>ag_tasks\<close>; each runs in one step, \<open>run_task\<close>.
  Log lines are left out.
\<close>

section \<open>Subprocesses\<close>

definition maxOutputBytes :: nat where "maxOutputBytes = 8192"

definition executor_truncate :: "string \<Rightarrow> string" where
  "executor_truncate s = (if maxOutputBytes < length s then take maxOutputBytes s @ ''...(truncated)'' else s)"

definition cmd_env :: "('w, 'z) host_scheme \<Rightarrow> (string \<times> string) list \<Rightarrow> 'w \<Rightarrow> string list option" where
  "cmd_env H env w =
     (if env = [] then None
      else Some (host_Environ H @ map (\<lambda>k. k @ ''='' @ the (map_of env k)) (range_keys (\<lambda>_. host_Order H w) 0 env)))"

definition execute ::
  "('w, 'z) host_scheme \<Rightarrow> TaskSpec option \<Rightarrow> 'w \<Rightarrow> (TaskResult \<times> string \<times> string) \<times> 'w" where
  "execute H spec w =
     (if TaskSpec_GetCommand spec = '''' then ((TASK_RESULT_FAILED, '''', ''empty command''), w)
      else let timeout = AsDuration (TaskSpec_GetTimeout spec);
               limit = (if 0 < timeout then Some timeout else None)
           in (case host_Run H (TaskSpec_GetCommand spec) (TaskSpec_GetArgs spec) (cmd_env H (TaskSpec_GetEnv spec) w) limit w of
                 ((Some e, buf), w) \<Rightarrow> ((TASK_RESULT_FAILED, executor_truncate buf, e), w)
               | ((None, buf), w) \<Rightarrow> ((TASK_RESULT_SUCCEEDED, executor_truncate buf, ''''), w)))"

section \<open>State\<close>

record agent_config =
  ac_Schedulers :: "string list"
  ac_Advertise :: string
  ac_Capacity :: int
  ac_Labels :: "(string \<times> string) list"
  ac_HeartbeatInterval :: duration
  ac_PollInterval :: duration

definition agent_withDefaults :: "agent_config \<Rightarrow> agent_config" where
  "agent_withDefaults c =
     (let c = (if ac_Capacity c \<le> 0 then c\<lparr>ac_Capacity := 4\<rparr> else c);
          c = (if ac_HeartbeatInterval c = 0 then c\<lparr>ac_HeartbeatInterval := 5 * second\<rparr> else c)
      in if ac_PollInterval c = 0 then c\<lparr>ac_PollInterval := second\<rparr> else c)"

text \<open>A connection and a client are the address they were dialled to.\<close>

record agent =
  ag_cfg :: agent_config
  ag_conn :: "string option"
  ag_client :: "string option"
  ag_leaderAddr :: string
  ag_workerID :: string
  ag_running :: "(string \<times> unit) list"
  ag_done :: "(string \<times> time) list"
  ag_wg :: int
  ag_tasks :: "TaskAssignment list"

definition agent_New :: "agent_config \<Rightarrow> agent" where
  "agent_New cfg =
     \<lparr>ag_cfg = agent_withDefaults cfg, ag_conn = None, ag_client = None, ag_leaderAddr = '''', ag_workerID = '''',
      ag_running = [], ag_done = [], ag_wg = 0, ag_tasks = []\<rparr>"

section \<open>Slots\<close>

definition freeCapacity :: "agent \<Rightarrow> int" where
  "freeCapacity a = ac_Capacity (ag_cfg a) - int (length (ag_running a))"

definition inflight :: "agent \<Rightarrow> nat" where
  "inflight a = length (ag_running a)"

definition runningTaskIDs :: "('w, 'z) host_scheme \<Rightarrow> agent \<Rightarrow> 'w \<Rightarrow> string list" where
  "runningTaskIDs H a w = range_keys (\<lambda>_. host_Order H w) 0 (ag_running a)"

definition tryStart :: "string \<Rightarrow> agent \<Rightarrow> bool \<times> agent" where
  "tryStart taskID a =
     (if map_of (ag_running a) taskID \<noteq> None then (False, a)
      else if map_of (ag_done a) taskID \<noteq> None then (False, a)
      else if ac_Capacity (ag_cfg a) \<le> int (length (ag_running a)) then (False, a)
      else (True, a\<lparr>ag_running := AList.update taskID () (ag_running a)\<rparr>))"

definition doneRetention :: duration where "doneRetention = 10 * minute"

definition finish :: "('w, 'z) host_scheme \<Rightarrow> string \<Rightarrow> agent \<Rightarrow> 'w \<Rightarrow> agent \<times> 'w" where
  "finish H taskID a w =
     (let (now, w) = host_Now H w;
          finished = AList.update taskID now (ag_done a)
      in (a\<lparr>ag_running := AList.delete taskID (ag_running a),
            ag_done := filter (\<lambda>(k, t). \<not> doneRetention < time_sub now t) finished\<rparr>, w))"

section \<open>Finding the leader\<close>

datatype discover_error = Disc_Dial goerr | Disc_Rpc grpc_error | Disc_NoLeader "string list"

fun discover_loop ::
  "('w, 'z) host_scheme \<Rightarrow> string list \<Rightarrow> discover_error option \<Rightarrow> 'w \<Rightarrow> (discover_error option + string) \<times> 'w" where
  "discover_loop H [] lastErr w = (Inl lastErr, w)"
| "discover_loop H (seed # seeds) lastErr w =
     (case net_NewClient H seed of
        Some e \<Rightarrow> discover_loop H seeds (Some (Disc_Dial e)) w
      | None \<Rightarrow>
          (case net_GetClusterStatus H seed w of
             (Inl e, w) \<Rightarrow> discover_loop H seeds (Some (Disc_Rpc e)) w
           | (Inr resp, w) \<Rightarrow>
               let holder = LeaseInfo_GetHolderId (cs_Lease resp) in
               if holder = '''' then discover_loop H seeds lastErr w
               else (case find (\<lambda>n. sn_Id n = holder) (cs_Schedulers resp) of
                       Some n \<Rightarrow> (Inr (sn_Address n), w)
                     | None \<Rightarrow> discover_loop H seeds lastErr w)))"

definition discoverLeader :: "('w, 'z) host_scheme \<Rightarrow> agent \<Rightarrow> 'w \<Rightarrow> (discover_error + string) \<times> 'w" where
  "discoverLeader H a w =
     (case discover_loop H (ac_Schedulers (ag_cfg a)) None w of
        (Inr addr, w) \<Rightarrow> (Inr addr, w)
      | (Inl (Some e), w) \<Rightarrow> (Inl e, w)
      | (Inl None, w) \<Rightarrow> (Inl (Disc_NoLeader (ac_Schedulers (ag_cfg a))), w))"

definition connectLeader :: "('w, 'z) host_scheme \<Rightarrow> agent \<Rightarrow> 'w \<Rightarrow> discover_error option \<times> agent \<times> 'w" where
  "connectLeader H a w =
     (case discoverLeader H a w of
        (Inl e, w) \<Rightarrow> (Some e, a, w)
      | (Inr addr, w) \<Rightarrow>
          (case net_NewClient H addr of
             Some e \<Rightarrow> (Some (Disc_Dial e), a, w)
           | None \<Rightarrow> (None, a\<lparr>ag_conn := Some addr, ag_client := Some addr, ag_leaderAddr := addr\<rparr>, w)))"

definition closeConn :: "agent \<Rightarrow> agent" where
  "closeConn a = a\<lparr>ag_conn := None\<rparr>"

definition register :: "('w, 'z) host_scheme \<Rightarrow> agent \<Rightarrow> 'w \<Rightarrow> (grpc_error option \<times> agent \<times> 'w) option" where
  "register H a w =
     (case ag_client a of
        None \<Rightarrow> None
      | Some c \<Rightarrow>
          Some (case net_RegisterWorker H c
                       (Some \<lparr>w_Id = ag_workerID a, w_Address = ac_Advertise (ag_cfg a), w_Capacity = ac_Capacity (ag_cfg a),
                              w_Labels = ac_Labels (ag_cfg a), w_State = WORKER_STATE_UNSPECIFIED, w_LastHeartbeat = None,
                              w_RunningTasks = 0\<rparr>) w of
                  (Inl e, w) \<Rightarrow> (Some e, a, w)
                | (Inr (workerID, leaderAddress), w) \<Rightarrow> (None, a\<lparr>ag_workerID := workerID\<rparr>, w)))"

text \<open>
  One turn of the loop of \<open>bootstrap\<close> up to the wait, and the growth of the wait. \<open>cancellable\<close> says
  whether the context can be cancelled; the report of a task uses \<open>context.Background()\<close>.
\<close>

definition try_leader :: "('w, 'z) host_scheme \<Rightarrow> agent \<Rightarrow> 'w \<Rightarrow> (bool \<times> agent \<times> 'w) option" where
  "try_leader H a w =
     (case connectLeader H a w of
        (Some _, a, w) \<Rightarrow> Some (False, a, w)
      | (None, a, w) \<Rightarrow> map_option (\<lambda>(e, a, w). (e = None, a, w)) (register H a w))"

definition next_backoff :: "duration \<Rightarrow> duration" where
  "next_backoff backoff = (if backoff < 5 * second then backoff * 2 else backoff)"

partial_function (option) bootstrap_loop ::
  "('w, 'z) host_scheme \<Rightarrow> bool \<Rightarrow> duration \<Rightarrow> agent \<Rightarrow> 'w \<Rightarrow> (bool \<times> agent \<times> 'w) option" where
  "bootstrap_loop H cancellable backoff a w =
     Option.bind (try_leader H a w) (\<lambda>(ok, a, w).
       if ok then Some (True, a, w)
       else if cancellable \<and> fst (host_Wait H backoff w) then Some (False, a, snd (host_Wait H backoff w))
       else bootstrap_loop H cancellable (next_backoff backoff) a (snd (host_Wait H backoff w)))"

definition bootstrap :: "('w, 'z) host_scheme \<Rightarrow> bool \<Rightarrow> agent \<Rightarrow> 'w \<Rightarrow> (bool \<times> agent \<times> 'w) option" where
  "bootstrap H cancellable a w = bootstrap_loop H cancellable (300 * millisecond) a w"

definition onLeadershipError ::
  "('w, 'z) host_scheme \<Rightarrow> bool \<Rightarrow> grpc_error \<Rightarrow> agent \<Rightarrow> 'w \<Rightarrow> (bool \<times> agent \<times> 'w) option" where
  "onLeadershipError H cancellable err a w =
     (if fst err \<noteq> FailedPrecondition \<and> fst err \<noteq> Unavailable then Some (False, a, w)
      else map_option (\<lambda>(_, a, w). (True, a, w)) (bootstrap H cancellable a w))"

section \<open>Heartbeats and polls\<close>

definition heartbeat :: "('w, 'z) host_scheme \<Rightarrow> agent \<Rightarrow> 'w \<Rightarrow> (agent \<times> 'w) option" where
  "heartbeat H a w =
     (case ag_client a of
        None \<Rightarrow> None
      | Some c \<Rightarrow>
          (case net_Heartbeat H c (ag_workerID a) (runningTaskIDs H a w) w of
             (Inl e, w) \<Rightarrow> map_option snd (onLeadershipError H True e a w)
           | (Inr (ok, _), w) \<Rightarrow> if ok then Some (a, w) else map_option snd (register H a w)))"

definition launch :: "TaskAssignment \<Rightarrow> agent \<Rightarrow> agent" where
  "launch task a =
     (case tryStart (ta_TaskId task) a of
        (False, a) \<Rightarrow> a
      | (True, a) \<Rightarrow> a\<lparr>ag_wg := ag_wg a + 1, ag_tasks := ag_tasks a @ [task]\<rparr>)"

definition poll :: "('w, 'z) host_scheme \<Rightarrow> agent \<Rightarrow> 'w \<Rightarrow> (agent \<times> 'w) option" where
  "poll H a w =
     (if freeCapacity a \<le> 0 then Some (a, w)
      else case ag_client a of
             None \<Rightarrow> None
           | Some c \<Rightarrow>
               (case net_PollTask H c (ag_workerID a) (i32 (freeCapacity a)) w of
                  (Inl e, w) \<Rightarrow> map_option snd (onLeadershipError H True e a w)
                | (Inr tasks, w) \<Rightarrow> Some (fold launch tasks a, w)))"

section \<open>Running a task\<close>

text \<open>
  The loop of \<open>report\<close> with \<open>n\<close> of its five attempts left. The flag of the answer, whether the report
  was acknowledged, is what the code logs.
\<close>

primrec report_loop ::
  "('w, 'z) host_scheme \<Rightarrow> string \<Rightarrow> TaskResult \<Rightarrow> string \<Rightarrow> string \<Rightarrow> nat \<Rightarrow> agent \<Rightarrow> 'w \<Rightarrow> (bool \<times> agent \<times> 'w) option"
  where
  "report_loop H taskID result output err 0 a w = Some (False, a, w)"
| "report_loop H taskID result output err (Suc n) a w =
     (case ag_client a of
        None \<Rightarrow> None
      | Some c \<Rightarrow>
          (case net_ReportTask H c \<lparr>rt_WorkerId = ag_workerID a, rt_TaskId = taskID, rt_Result = result,
                  rt_Output = output, rt_Error = err\<rparr> w of
             (Inr _, w) \<Rightarrow> Some (True, a, w)
           | (Inl e, w) \<Rightarrow>
               Option.bind (onLeadershipError H False e a w) (\<lambda>(handled, a, w).
                 report_loop H taskID result output err n a
                   (if handled then w else host_Sleep H (int (5 - n) * (500 * millisecond)) w))))"

definition report ::
  "('w, 'z) host_scheme \<Rightarrow> string \<Rightarrow> TaskResult \<Rightarrow> string \<Rightarrow> string \<Rightarrow> agent \<Rightarrow> 'w \<Rightarrow> (bool \<times> agent \<times> 'w) option" where
  "report H taskID result output err a w = report_loop H taskID result output err 5 a w"

definition run_task :: "('w, 'z) host_scheme \<Rightarrow> TaskAssignment \<Rightarrow> agent \<Rightarrow> 'w \<Rightarrow> (agent \<times> 'w) option" where
  "run_task H task a w =
     (case execute H (ta_Spec task) w of
        ((result, output, err), w) \<Rightarrow>
          map_option (\<lambda>(_, a, w).
            case finish H (ta_TaskId task) a w of
              (a, w) \<Rightarrow> (a\<lparr>ag_wg := ag_wg a - 1, ag_tasks := remove1 task (ag_tasks a)\<rparr>, w))
            (report H (ta_TaskId task) result output err a w))"

text \<open>\<open>drain\<close> ends when the wait group is empty or the time is up; it answers which.\<close>

definition drainTimeout :: duration where "drainTimeout = 30 * second"

definition drained :: "agent \<Rightarrow> bool" where
  "drained a \<longleftrightarrow> ag_wg a = 0"

section \<open>The life of an agent\<close>

text \<open>
  What \<open>Run\<close> reacts to, in the order it happens: a tick of either ticker, the execution of one of the
  task goroutines, and what the rest of the world does in between. Tasks go on while \<open>drain\<close> waits,
  the tickers do not. \<open>agent_Run\<close> takes the events before and after the context is done; it answers
  whether it came to drain, whether all tasks had finished by then, and the agent that is left.
\<close>

datatype 'w agent_event = Ev_Heartbeat | Ev_Poll | Ev_Task TaskAssignment | Ev_World 'w

fun run_loop :: "('w, 'z) host_scheme \<Rightarrow> 'w agent_event list \<Rightarrow> agent \<Rightarrow> 'w \<Rightarrow> (agent \<times> 'w) option" where
  "run_loop H [] a w = Some (a, w)"
| "run_loop H (Ev_Heartbeat # es) a w = Option.bind (heartbeat H a w) (\<lambda>(a, w). run_loop H es a w)"
| "run_loop H (Ev_Poll # es) a w = Option.bind (poll H a w) (\<lambda>(a, w). run_loop H es a w)"
| "run_loop H (Ev_Task task # es) a w =
     (if task \<in> set (ag_tasks a) then Option.bind (run_task H task a w) (\<lambda>(a, w). run_loop H es a w) else run_loop H es a w)"
| "run_loop H (Ev_World w' # es) a w = run_loop H es a w'"

definition ticks :: "'w agent_event \<Rightarrow> bool" where
  "ticks e \<longleftrightarrow> (case e of Ev_Heartbeat \<Rightarrow> True | Ev_Poll \<Rightarrow> True | _ \<Rightarrow> False)"

definition agent_drain :: "('w, 'z) host_scheme \<Rightarrow> 'w agent_event list \<Rightarrow> agent \<Rightarrow> 'w \<Rightarrow> (bool \<times> agent \<times> 'w) option" where
  "agent_drain H es a w = map_option (\<lambda>(a, w). (drained a, a, w)) (run_loop H (filter (\<lambda>e. \<not> ticks e) es) a w)"

definition agent_Run ::
  "('w, 'z) host_scheme \<Rightarrow> 'w agent_event list \<Rightarrow> 'w agent_event list \<Rightarrow> agent \<Rightarrow> 'w \<Rightarrow> (bool \<times> bool \<times> agent \<times> 'w) option" where
  "agent_Run H es drainEvents a w =
     Option.bind (bootstrap H True a w) (\<lambda>(ok, a, w).
       if \<not> ok then Some (False, False, a, w)
       else Option.bind (run_loop H es a w) (\<lambda>(a, w).
         map_option (\<lambda>(clean, a, w). (True, clean, closeConn a, w)) (agent_drain H drainEvents a w)))"

end
