(* ===== verification/Agent_Run.thy ===== *)
theory Agent_Run
  imports Agent
begin

text \<open>
  Runs of a worker agent. Between any two steps of the agent the rest of the world may do anything.
  The slots of the agent stay consistent with the tasks it runs, whatever the schedulers answer.
\<close>

section \<open>What finding a leader leaves alone\<close>

definition same_work :: "agent \<Rightarrow> agent \<Rightarrow> bool" where
  "same_work a a' \<longleftrightarrow> ag_cfg a' = ag_cfg a \<and> ag_running a' = ag_running a \<and> ag_done a' = ag_done a \<and>
     ag_wg a' = ag_wg a \<and> ag_tasks a' = ag_tasks a"

lemma same_work_refl [simp, intro]: "same_work a a"
  by (simp add: same_work_def)

lemma same_work_trans: "same_work a b \<Longrightarrow> same_work b c \<Longrightarrow> same_work a c"
  by (simp add: same_work_def)

lemma connectLeader_same: "connectLeader H a w = (e, a', w') \<Longrightarrow> same_work a a'"
  by (auto simp: connectLeader_def same_work_def split: prod.splits sum.splits option.splits)

lemma connectLeader_client:
  "connectLeader H a w = (e, a', w') \<Longrightarrow> e = None \<or> ag_client a \<noteq> None \<Longrightarrow> ag_client a' \<noteq> None"
  by (auto simp: connectLeader_def split: prod.splits sum.splits option.splits)

lemma register_same: "register H a w = Some (e, a', w') \<Longrightarrow> same_work a a' \<and> ag_client a' = ag_client a"
  by (auto simp: register_def same_work_def split: prod.splits sum.splits option.splits)

lemma register_returns: "ag_client a \<noteq> None \<Longrightarrow> \<exists>e a' w'. register H a w = Some (e, a', w')"
  by (auto simp: register_def split: prod.splits sum.splits)

lemma try_leader_same:
  assumes "try_leader H a w = Some (ok, a', w')"
  shows "same_work a a'" "ok \<or> ag_client a \<noteq> None \<Longrightarrow> ag_client a' \<noteq> None"
proof -
  obtain e a1 w1 where c: "connectLeader H a w = (e, a1, w1)" by (metis prod_cases3)
  have "same_work a a' \<and> (ok \<or> ag_client a \<noteq> None \<longrightarrow> ag_client a' \<noteq> None)"
  proof (cases e)
    case None
    then obtain e' where "register H a1 w1 = Some (e', a', w')" using assms c by (auto simp: try_leader_def)
    then show ?thesis
      using register_same same_work_trans connectLeader_same [OF c] connectLeader_client [OF c] None by metis
  next
    case (Some x)
    then show ?thesis using assms c connectLeader_same [OF c] connectLeader_client [OF c] by (auto simp: try_leader_def)
  qed
  then show "same_work a a'" "ok \<or> ag_client a \<noteq> None \<Longrightarrow> ag_client a' \<noteq> None" by blast+
qed

text \<open>A turn of the loop never panics: the client is set before it is used.\<close>

lemma try_leader_returns: "\<exists>ok a' w'. try_leader H a w = Some (ok, a', w')"
proof -
  obtain e a1 w1 where c: "connectLeader H a w = (e, a1, w1)" by (metis prod_cases3)
  show ?thesis
  proof (cases e)
    case None
    then show ?thesis
      using c connectLeader_client [OF c] register_returns [of a1 H w1] by (force simp: try_leader_def)
  qed (use c in \<open>auto simp: try_leader_def\<close>)
qed

text \<open>The loop with at most \<open>n\<close> turns; it agrees with the loop whenever that returns.\<close>

primrec bootstrap_turns ::
  "nat \<Rightarrow> ('w, 'z) host_scheme \<Rightarrow> bool \<Rightarrow> duration \<Rightarrow> agent \<Rightarrow> 'w \<Rightarrow> (bool \<times> agent \<times> 'w) option" where
  "bootstrap_turns 0 H c d a w = None"
| "bootstrap_turns (Suc n) H c d a w =
     Option.bind (try_leader H a w) (\<lambda>(ok, a, w).
       if ok then Some (True, a, w)
       else if c \<and> fst (host_Wait H d w) then Some (False, a, snd (host_Wait H d w))
       else bootstrap_turns n H c (next_backoff d) a (snd (host_Wait H d w)))"

lemma bootstrap_turns_loop: "bootstrap_turns n H c d a w = Some y \<Longrightarrow> bootstrap_loop H c d a w = Some y"
proof (induction n arbitrary: d a w)
  case (Suc n)
  then show ?case
    by (subst bootstrap_loop.simps) (auto split: bind_splits if_splits)
qed simp

lemma bootstrap_loop_turns:
  assumes "bootstrap_loop H c d a w = Some y"
  shows "\<exists>n. bootstrap_turns n H c d a w = Some y"
proof (rule bootstrap_loop.raw_induct [where P = "\<lambda>H c d a w y. \<exists>n. bootstrap_turns n H c d a w = Some y", OF _ assms])
  fix loop H c d a w y
  assume IH: "\<And>H c d a w y. loop H c d a w = Some y \<Longrightarrow> \<exists>n. bootstrap_turns n H c d a w = Some y"
    and eq: "Option.bind (try_leader H a w) (\<lambda>(ok, a, w).
       if ok then Some (True, a, w)
       else if c \<and> fst (host_Wait H d w) then Some (False, a, snd (host_Wait H d w))
       else loop H c (next_backoff d) a (snd (host_Wait H d w))) = Some y"
  obtain ok a1 w1 where t: "try_leader H a w = Some (ok, a1, w1)" using try_leader_returns [of H a w] by blast
  show "\<exists>n. bootstrap_turns n H c d a w = Some y"
  proof (cases "ok \<or> c \<and> fst (host_Wait H d w1)")
    case True
    then show ?thesis using eq t by (intro exI [of _ "Suc 0"]) auto
  next
    case False
    then have "loop H c (next_backoff d) a1 (snd (host_Wait H d w1)) = Some y" using eq t by (auto split: if_splits)
    then obtain n where "bootstrap_turns n H c (next_backoff d) a1 (snd (host_Wait H d w1)) = Some y" using IH by blast
    then show ?thesis using False t by (intro exI [of _ "Suc n"]) auto
  qed
qed

lemma bootstrap_loop_iff: "bootstrap_loop H c d a w = Some y \<longleftrightarrow> (\<exists>n. bootstrap_turns n H c d a w = Some y)"
  by (auto intro: bootstrap_turns_loop dest: bootstrap_loop_turns)

lemma bootstrap_same:
  assumes "bootstrap_loop H c d a w = Some (ok, a', w')"
  shows "same_work a a' \<and> (ok \<or> ag_client a \<noteq> None \<longrightarrow> ag_client a' \<noteq> None)"
proof -
  have "same_work a a' \<and> (ok \<or> ag_client a \<noteq> None \<longrightarrow> ag_client a' \<noteq> None)"
    if "bootstrap_turns n H c d a w = Some (ok, a', w')" for n d a w
    using that
  proof (induction n arbitrary: d a w)
    case (Suc n)
    obtain b a1 w1 where t: "try_leader H a w = Some (b, a1, w1)" using try_leader_returns [of H a w] by blast
    note s = try_leader_same [OF t]
    show ?case
    proof (cases "b \<or> c \<and> fst (host_Wait H d w1)")
      case True
      then show ?thesis using Suc.prems t s by (auto split: if_splits)
    next
      case False
      then show ?thesis using Suc.IH [of "next_backoff d" a1 "snd (host_Wait H d w1)"] Suc.prems t s same_work_trans by auto
    qed
  qed simp
  then show ?thesis using bootstrap_loop_turns [OF assms] by blast
qed

lemma onLeadershipError_same:
  assumes "onLeadershipError H c e a w = Some (handled, a', w')" "ag_client a \<noteq> None"
  shows "same_work a a' \<and> ag_client a' \<noteq> None"
  using assms by (auto simp: onLeadershipError_def bootstrap_def split: if_splits dest!: bootstrap_same)

section \<open>Slots\<close>

definition agent_inv :: "agent \<Rightarrow> bool" where
  "agent_inv a \<longleftrightarrow>
     map fst (ag_running a) = map ta_TaskId (ag_tasks a) \<and> distinct (map ta_TaskId (ag_tasks a)) \<and>
     ag_wg a = int (length (ag_tasks a)) \<and> int (length (ag_running a)) \<le> ac_Capacity (ag_cfg a) \<and>
     fst ` set (ag_running a) \<inter> fst ` set (ag_done a) = {}"

lemma agent_inv_ids: "agent_inv a \<Longrightarrow> fst ` set (ag_running a) = ta_TaskId ` set (ag_tasks a)"
  by (metis agent_inv_def set_map)

lemma agent_inv_same: "agent_inv a \<Longrightarrow> same_work a a' \<Longrightarrow> agent_inv a'"
  by (simp add: agent_inv_def same_work_def)

lemma agent_inv_New: "agent_inv (agent_New cfg)"
  by (auto simp: agent_inv_def agent_New_def agent_withDefaults_def Let_def)

lemma tryStart_cases:
  obtains "tryStart k a = (False, a)"
  | "k \<notin> fst ` set (ag_running a)" "k \<notin> fst ` set (ag_done a)" "int (length (ag_running a)) < ac_Capacity (ag_cfg a)"
    "tryStart k a = (True, a\<lparr>ag_running := ag_running a @ [(k, ())]\<rparr>)"
proof -
  have "AList.update k () m = m @ [(k, ())]" if "k \<notin> fst ` set m" for m
    using that by (induction m) auto
  then have "tryStart k a = (if k \<in> fst ` set (ag_running a) \<or> k \<in> fst ` set (ag_done a) \<or>
      ac_Capacity (ag_cfg a) \<le> int (length (ag_running a)) then (False, a)
      else (True, a\<lparr>ag_running := ag_running a @ [(k, ())]\<rparr>))"
    by (simp add: tryStart_def map_of_eq_None_iff)
  then show thesis using that by (metis not_le_imp_less)
qed

lemma agent_inv_launch: "agent_inv a \<Longrightarrow> agent_inv (launch task a)"
  by (rule tryStart_cases [of "ta_TaskId task" a]) (auto simp: launch_def agent_inv_def simp flip: set_map)

lemma agent_inv_finish:
  assumes inv: "agent_inv a" and task: "task \<in> set (ag_tasks a)" and fin: "finish H (ta_TaskId task) a w = (a', w')"
  shows "agent_inv (a'\<lparr>ag_wg := ag_wg a' - 1, ag_tasks := remove1 task (ag_tasks a')\<rparr>)"
proof -
  let ?k = "ta_TaskId task" and ?ids = "map ta_TaskId (ag_tasks a)"
  have a': "ag_running a' = AList.delete ?k (ag_running a)" "ag_tasks a' = ag_tasks a" "ag_wg a' = ag_wg a"
    "ag_cfg a' = ag_cfg a" "\<exists>now. set (ag_done a') \<subseteq> set (AList.update ?k now (ag_done a))"
    using fin by (auto simp: finish_def Let_def split: prod.splits)
  have finished: "fst ` set (ag_done a') \<subseteq> insert ?k (fst ` set (ag_done a))"
    using a'(5) set_keys_update [of ?k _ "ag_done a"] by (metis image_mono)
  have ids: "map fst (ag_running a) = ?ids" "distinct ?ids" using inv by (simp_all add: agent_inv_def)
  have "map ta_TaskId (remove1 task ts) = filter (\<lambda>x. x \<noteq> ?k) (map ta_TaskId ts)"
    if "task \<in> set ts" "distinct (map ta_TaskId ts)" for ts
    using that by (induction ts) (auto simp: image_iff intro!: filter_True [symmetric])
  from this [OF task ids(2)] have rem: "map ta_TaskId (remove1 task (ag_tasks a)) = filter (\<lambda>x. x \<noteq> ?k) ?ids" .
  have "int (length (remove1 task (ag_tasks a))) = int (length (ag_tasks a)) - 1"
    using task by (cases "length (ag_tasks a)") (auto simp: length_remove1)
  moreover have "length (ag_running a') \<le> length (ag_running a)" by (simp add: a' length_delete_le)
  moreover have "fst ` set (ag_running a') = fst ` set (ag_running a) - {?k}" by (simp add: a' set_keys_delete)
  ultimately show ?thesis
    using inv ids rem a'(1-4) finished by (auto simp: agent_inv_def)
qed

section \<open>Runs\<close>

inductive agent_step :: "('w, 'z) host_scheme \<Rightarrow> agent \<times> 'w \<Rightarrow> agent \<times> 'w \<Rightarrow> bool" for H :: "('w, 'z) host_scheme" where
  beat: "heartbeat H a w = Some (a', w') \<Longrightarrow> agent_step H (a, w) (a', w')"
| poll: "poll H a w = Some (a', w') \<Longrightarrow> agent_step H (a, w) (a', w')"
| task: "task \<in> set (ag_tasks a) \<Longrightarrow> run_task H task a w = Some (a', w') \<Longrightarrow> agent_step H (a, w) (a', w')"
| world: "agent_step H (a, w) (a, w')"

inductive_cases agent_stepE: "agent_step H (a, w) (a', w')"

abbreviation agent_run :: "('w, 'z) host_scheme \<Rightarrow> agent \<times> 'w \<Rightarrow> agent \<times> 'w \<Rightarrow> bool" where
  "agent_run H \<equiv> (agent_step H)\<^sup>*\<^sup>*"

lemma report_loop_same:
  "report_loop H k r out err n a w = Some (ok, a', w') \<Longrightarrow> same_work a a' \<and> (ag_client a \<noteq> None \<longrightarrow> ag_client a' \<noteq> None)"
proof (induction n arbitrary: a w)
  case (Suc n)
  then obtain c where c: "ag_client a = Some c" by (auto split: option.splits)
  show ?case
  proof (cases "net_ReportTask H c \<lparr>rt_WorkerId = ag_workerID a, rt_TaskId = k, rt_Result = r, rt_Output = out, rt_Error = err\<rparr> w")
    case (Pair x w1)
    show ?thesis
    proof (cases x)
      case (Inr y)
      then show ?thesis using Suc.prems c Pair by simp
    next
      case (Inl e)
      then obtain h a2 w2 where e: "onLeadershipError H False e a w1 = Some (h, a2, w2)"
        "report_loop H k r out err n a2 (if h then w2 else host_Sleep H (int (5 - n) * (500 * millisecond)) w2) = Some (ok, a', w')"
        using Suc.prems c Pair by (auto split: bind_splits)
      then show ?thesis using Suc.IH onLeadershipError_same [OF e(1)] c same_work_trans by blast
    qed
  qed
qed simp

lemma heartbeat_same: "heartbeat H a w = Some (a', w') \<Longrightarrow> same_work a a'"
  by (auto simp: heartbeat_def split: option.splits prod.splits sum.splits if_splits
      dest!: onLeadershipError_same register_same)

lemma poll_cases [consumes 1, case_names same launched]:
  assumes "poll H a w = Some (a', w')"
  obtains "same_work a a'" | tasks where "a' = fold launch tasks a"
proof (cases "freeCapacity a \<le> 0")
  case True
  then show thesis using assms that(1) by (simp add: poll_def)
next
  case False
  then show thesis
    using assms that by (auto simp: poll_def split: option.splits prod.splits sum.splits dest!: onLeadershipError_same)
qed

lemma agent_step_inv:
  assumes "agent_step H (a, w) (a', w')" "agent_inv a"
  shows "agent_inv a' \<and> ag_cfg a' = ag_cfg a"
  using assms(1)
proof cases
  case beat
  then show ?thesis using agent_inv_same assms(2) heartbeat_same by (fastforce simp: same_work_def)
next
  case poll
  then show ?thesis
  proof (cases rule: poll_cases)
    case same
    then show ?thesis using agent_inv_same assms(2) by (auto simp: same_work_def)
  next
    case (launched tasks)
    have "agent_inv (fold launch tasks a) \<and> ag_cfg (fold launch tasks a) = ag_cfg a"
      using assms(2)
    proof (induction tasks arbitrary: a)
      case (Cons t ts)
      have "ag_cfg (launch t a) = ag_cfg a" by (rule tryStart_cases [of "ta_TaskId t" a]) (auto simp: launch_def)
      then show ?case using Cons.IH [OF agent_inv_launch [OF Cons.prems]] by simp
    qed simp
    then show ?thesis using launched by simp
  qed
next
  case (task task)
  obtain res out err w1 where ex: "execute H (ta_Spec task) w = ((res, out, err), w1)"
    by (cases "execute H (ta_Spec task) w") (metis prod_cases3)
  then obtain ok a1 w2 where r1: "report H (ta_TaskId task) res out err a w1 = Some (ok, a1, w2)"
    using task(2) by (auto simp: run_task_def)
  obtain a2 w3 where r2: "finish H (ta_TaskId task) a1 w2 = (a2, w3)" by force
  have r: "report H (ta_TaskId task) res out err a w1 = Some (ok, a1, w2)" "finish H (ta_TaskId task) a1 w2 = (a2, w3)"
    "a' = a2\<lparr>ag_wg := ag_wg a2 - 1, ag_tasks := remove1 task (ag_tasks a2)\<rparr>"
    using task(2) ex r1 r2 by (simp_all add: run_task_def)
  have s: "same_work a a1" using r(1) by (auto simp: report_def dest: report_loop_same)
  then have "agent_inv a1" "task \<in> set (ag_tasks a1)" using agent_inv_same assms(2) task(1) by (auto simp: same_work_def)
  then show ?thesis
    using agent_inv_finish [OF _ _ r(2)] r(2,3) s by (auto simp: finish_def same_work_def Let_def split: prod.splits)
next
  case world
  then show ?thesis using assms(2) by simp
qed

lemma agent_run_inv:
  "agent_run H x y \<Longrightarrow> agent_inv (fst x) \<Longrightarrow> agent_inv (fst y) \<and> ag_cfg (fst y) = ag_cfg (fst x)"
  by (induction rule: rtranclp_induct) (auto, (metis agent_step_inv prod.collapse)+)

section \<open>Waiting for a leader\<close>

text \<open>
  The waits of \<open>bootstrap\<close> stay between 0.3 s and 9.6 s: it behaves the same over any two hosts that
  agree on waits of such a length.
\<close>

definition wait_ok :: "duration \<Rightarrow> bool" where
  "wait_ok d \<longleftrightarrow> 300 * millisecond \<le> d \<and> d \<le> 9600 * millisecond"

definition backoffs :: "duration set" where
  "backoffs = (\<lambda>n. 300 * millisecond * 2 ^ n) ` {0..5}"

lemma next_backoff_backoffs: "d \<in> backoffs \<Longrightarrow> next_backoff d \<in> backoffs"
proof -
  assume "d \<in> backoffs"
  then obtain n where n: "n \<le> 5" "d = 300 * millisecond * 2 ^ n" by (auto simp: backoffs_def)
  show ?thesis
  proof (cases "n = 5")
    case True
    then show ?thesis using n by (auto simp: next_backoff_def backoffs_def intro!: image_eqI [of _ _ 5])
  next
    case False
    then show ?thesis
      using n by (auto simp: next_backoff_def backoffs_def intro!: image_eqI [of _ _ "Suc n"])
  qed
qed

lemma backoffs_ok: "d \<in> backoffs \<Longrightarrow> wait_ok d"
proof -
  assume "d \<in> backoffs"
  then obtain n :: nat where n: "n \<le> 5" "d = 300 * millisecond * 2 ^ n" by (auto simp: backoffs_def)
  have "(1::int) \<le> 2 ^ n" "(2::int) ^ n \<le> 2 ^ 5" using power_increasing [OF n(1), of "2 :: int"] by simp_all
  then show ?thesis using n(2) by (simp add: wait_ok_def)
qed

lemma bootstrap_turns_cong:
  assumes "\<And>d w. wait_ok d \<Longrightarrow> wait' d w = host_Wait H d w"
  shows "d \<in> backoffs \<Longrightarrow> bootstrap_turns n (H\<lparr>host_Wait := wait'\<rparr>) c d a w = bootstrap_turns n H c d a w"
proof (induction n arbitrary: d a w)
  case (Suc n)
  have seeds: "discover_loop (H\<lparr>host_Wait := wait'\<rparr>) ss e w = discover_loop H ss e w" for ss e w
    by (induction ss arbitrary: e w) (simp_all split: option.splits sum.splits prod.splits add: Let_def)
  have sel: "net_NewClient (H\<lparr>host_Wait := wait'\<rparr>) = net_NewClient H"
    "net_RegisterWorker (H\<lparr>host_Wait := wait'\<rparr>) = net_RegisterWorker H" by simp_all
  have "try_leader (H\<lparr>host_Wait := wait'\<rparr>) a w = try_leader H a w"
    unfolding try_leader_def connectLeader_def discoverLeader_def register_def seeds sel by (rule refl)
  then show ?case
    using Suc assms [OF backoffs_ok [OF Suc.prems]] next_backoff_backoffs [OF Suc.prems]
    by (cases "try_leader H a w") auto
qed simp

section \<open>Properties\<close>

text \<open>A host for the witnesses: one scheduler, which registers the worker and hands out one task.\<close>

definition sample_task :: TaskAssignment where
  "sample_task = \<lparr>ta_TaskId = ''t1'', ta_JobId = ''j1'', ta_Attempt = 1,
     ta_Spec = Some \<lparr>ts_Command = ''true'', ts_Args = [], ts_Env = [], ts_Timeout = None, ts_Payload = ''''\<rparr>,
     ta_LeaseDeadline = None\<rparr>"

definition sample_host :: "unit host" where
  "sample_host =
     \<lparr>net_NewClient = (\<lambda>_. None),
      net_GetClusterStatus = (\<lambda>_ w. (Inr \<lparr>cs_Lease = Some \<lparr>li_HolderId = ''n1'', li_Term = 1, li_AcquiredAt = None, li_ExpiresAt = None\<rparr>,
        cs_Schedulers = [\<lparr>sn_Id = ''n1'', sn_Address = '':7070'', sn_Role = SCHEDULER_ROLE_LEADER, sn_LastSeen = None\<rparr>],
        cs_Workers = []\<rparr>, w)),
      net_RegisterWorker = (\<lambda>_ _ w. (Inr (''w1'', '':7070''), w)), net_Heartbeat = (\<lambda>_ _ _ w. (Inr (True, ''''), w)),
      net_PollTask = (\<lambda>_ _ _ w. (Inr [sample_task], w)), net_ReportTask = (\<lambda>_ _ w. (Inr True, w)),
      net_SubmitJob = (\<lambda>_ _ w. (Inl (Unavailable, ''''), w)), net_GetJob = (\<lambda>_ _ w. (Inl (Unavailable, ''''), w)),
      net_ListJobs = (\<lambda>_ _ _ w. (Inr [], w)), net_CancelJob = (\<lambda>_ _ w. (Inl (Unavailable, ''''), w)),
      host_Wait = (\<lambda>_ w. (False, w)), host_Sleep = (\<lambda>_ w. w), host_Now = (\<lambda>w. (1000, w)), host_Order = (\<lambda>_ ks. ks),
      host_Environ = [], host_Run = (\<lambda>_ _ _ _ w. ((None, ''ok''), w))\<rparr>"

definition sample_agent_cfg :: agent_config where
  "sample_agent_cfg = \<lparr>ac_Schedulers = [''s1''], ac_Advertise = '''', ac_Capacity = 1, ac_Labels = [],
     ac_HeartbeatInterval = 0, ac_PollInterval = 0\<rparr>"

definition sample_agent :: agent where
  "sample_agent = (agent_New sample_agent_cfg)\<lparr>ag_conn := Some '':7070'', ag_client := Some '':7070'',
     ag_leaderAddr := '':7070'', ag_workerID := ''w1''\<rparr>"

lemmas sample_agent_defs = sample_host_def sample_agent_def sample_agent_cfg_def agent_New_def agent_withDefaults_def

lemma sample_bootstrap: "bootstrap sample_host c (agent_New sample_agent_cfg) () = Some (True, sample_agent, ())"
  unfolding bootstrap_def
  by (rule bootstrap_turns_loop [of "Suc 0"])
    (simp add: try_leader_def connectLeader_def discoverLeader_def register_def sample_agent_defs Let_def)

lemma sample_poll:
  "poll sample_host sample_agent () =
     Some (sample_agent\<lparr>ag_running := [(''t1'', ())], ag_wg := 1, ag_tasks := [sample_task]\<rparr>, ())"
  by (simp add: poll_def sample_agent_defs freeCapacity_def launch_def tryStart_def sample_task_def Let_def)

text \<open>
  C25. A worker agent never exceeds its capacity, whatever the schedulers answer and however its tasks,
  heartbeats and polls interleave: at most \<open>Capacity\<close> tasks run, no two of them with the same task ID,
  the set of running IDs is exactly the set of the tasks being run, and the wait group counts them, so
  that \<open>drain\<close> waits for exactly these.
\<close>

theorem agent_within_capacity:
  assumes "bootstrap H True (agent_New cfg) w0 = Some (True, a0, w1)" "agent_run H (a0, w1) (a, w)"
  shows "int (inflight a) \<le> ac_Capacity (agent_withDefaults cfg) \<and> distinct (map ta_TaskId (ag_tasks a)) \<and>
    fst ` set (ag_running a) = ta_TaskId ` set (ag_tasks a) \<and> inflight a = length (ag_tasks a) \<and>
    (drained a \<longleftrightarrow> ag_tasks a = [])"
proof -
  have s: "same_work (agent_New cfg) a0" using assms(1) by (auto simp: bootstrap_def dest: bootstrap_same)
  then have "agent_inv a0" by (rule agent_inv_same [OF agent_inv_New])
  then have inv: "agent_inv a" and cfg: "ag_cfg a = agent_withDefaults cfg"
    using agent_run_inv [OF assms(2)] s by (auto simp: same_work_def agent_New_def)
  have "map fst (ag_running a) = map ta_TaskId (ag_tasks a)" using inv by (simp add: agent_inv_def)
  from arg_cong [OF this, of set] arg_cong [OF this, of length] show ?thesis
    using inv cfg by (simp add: agent_inv_def inflight_def drained_def)
qed

theorem agent_within_capacity_witness:
  "\<exists>a. agent_run sample_host (sample_agent, ()) (a, ()) \<and> inflight a = length (ag_tasks a) \<and> ag_tasks a = [sample_task]"
proof -
  let ?a = "sample_agent\<lparr>ag_running := [(''t1'', ())], ag_wg := 1, ag_tasks := [sample_task]\<rparr>"
  have run: "agent_run sample_host (sample_agent, ()) (?a, ())"
    using agent_step.poll [OF sample_poll] by (rule r_into_rtranclp)
  have "inflight ?a = length (ag_tasks ?a)" using agent_within_capacity [OF sample_bootstrap run] by blast
  then show ?thesis using run by (intro exI [of _ ?a]) simp
qed

lemma map_of_filter_keep: "map_of m k = Some t \<Longrightarrow> P (k, t) \<Longrightarrow> map_of (filter P m) k = Some t"
  by (induction m) (auto split: if_splits)

lemma launch_done: "ag_done (launch t a) = ag_done a"
  by (rule tryStart_cases [of "ta_TaskId t" a]) (auto simp: launch_def)

lemma finish_done:
  assumes "map_of (ag_done a) k = Some t" "taskID \<noteq> k" "fst (host_Now H w) \<le> t + doneRetention"
    "finish H taskID a w = (a', w')"
  shows "map_of (ag_done a') k = Some t"
proof -
  have "\<not> doneRetention < time_sub (fst (host_Now H w)) t"
    using assms(3) by (auto simp: time_sub_def doneRetention_def min_int64_def)
  then have "map_of (filter (\<lambda>(k, t). \<not> doneRetention < time_sub (fst (host_Now H w)) t)
      (AList.update taskID (fst (host_Now H w)) (ag_done a))) k = Some t"
    using assms(1,2) by (intro map_of_filter_keep) auto
  then show ?thesis using assms(4) by (auto simp: finish_def Let_def split: prod.splits)
qed

lemma run_taskE:
  assumes "run_task H task a w = Some (a', w')"
  obtains a1 w1 a2 w2 where "same_work a a1" "finish H (ta_TaskId task) a1 w1 = (a2, w2)"
    "a' = a2\<lparr>ag_wg := ag_wg a2 - 1, ag_tasks := remove1 task (ag_tasks a2)\<rparr>"
proof -
  obtain res out err w0 where ex: "execute H (ta_Spec task) w = ((res, out, err), w0)"
    by (cases "execute H (ta_Spec task) w") (metis prod_cases3)
  then obtain ok a1 w1 where r: "report H (ta_TaskId task) res out err a w0 = Some (ok, a1, w1)"
    using assms by (auto simp: run_task_def)
  obtain a2 w2 where f: "finish H (ta_TaskId task) a1 w1 = (a2, w2)" by force
  show thesis
    using that [of a1 w1 a2 w2] ex r f assms by (auto simp: run_task_def report_def dest: report_loop_same)
qed

lemma agent_step_done:
  assumes "agent_step H (a, w) (a', w')" "agent_inv a" "map_of (ag_done a) k = Some t"
    and "\<And>w. fst (host_Now H w) \<le> t + doneRetention"
  shows "map_of (ag_done a') k = Some t"
  using assms(1)
proof cases
  case beat
  then show ?thesis using heartbeat_same assms(3) by (fastforce simp: same_work_def)
next
  case poll
  then show ?thesis
  proof (cases rule: poll_cases)
    case (launched tasks)
    have "ag_done (fold launch tasks a) = ag_done a" by (rule fold_keeps) (rule launch_done)
    then show ?thesis using launched assms(3) by simp
  qed (use assms(3) in \<open>auto simp: same_work_def\<close>)
next
  case (task task)
  obtain a1 w1 a2 w2 where r: "same_work a a1" "finish H (ta_TaskId task) a1 w1 = (a2, w2)"
    "a' = a2\<lparr>ag_wg := ag_wg a2 - 1, ag_tasks := remove1 task (ag_tasks a2)\<rparr>"
    by (rule run_taskE [OF task(2)])
  have "ta_TaskId task \<in> set (map fst (ag_running a))" using assms(2) task(1) by (simp add: agent_inv_def)
  moreover have "k \<in> fst ` set (ag_done a)" using assms(3) by (metis domI dom_map_of_conv_image_fst)
  ultimately have "ta_TaskId task \<noteq> k" using assms(2) by (auto simp: agent_inv_def)
  then have "map_of (ag_done a2) k = Some t"
    using finish_done [OF _ _ assms(4) r(2), of k] r(1) assms(3) by (simp add: same_work_def)
  then show ?thesis using r(3) by simp
next
  case world
  then show ?thesis using assms(3) by simp
qed





text \<open>The state after \<open>n\<close> turns and waits.\<close>

primrec failed_turns :: "nat \<Rightarrow> ('w, 'z) host_scheme \<Rightarrow> duration \<Rightarrow> agent \<Rightarrow> 'w \<Rightarrow> duration \<times> agent \<times> 'w" where
  "failed_turns 0 H d a w = (d, a, w)"
| "failed_turns (Suc n) H d a w =
     (case try_leader H a w of
        None \<Rightarrow> (d, a, w)
      | Some (_, a, w) \<Rightarrow> failed_turns n H (next_backoff d) a (snd (host_Wait H d w)))"

lemma bootstrap_turns_iff:
  "(\<exists>y. bootstrap_turns n H False d a w = Some y) \<longleftrightarrow>
   (\<exists>m < n. \<exists>a' w'. try_leader H (fst (snd (failed_turns m H d a w))) (snd (snd (failed_turns m H d a w))) = Some (True, a', w'))"
proof (induction n arbitrary: d a w)
  case (Suc n)
  obtain ok a1 w1 where t: "try_leader H a w = Some (ok, a1, w1)" using try_leader_returns [of H a w] by blast
  show ?case
  proof (cases ok)
    case True
    then show ?thesis using t by (auto intro!: exI [of _ 0])
  next
    case False
    then show ?thesis
      using t Suc.IH [of "next_backoff d" a1 "snd (host_Wait H d w1)"] by (auto simp: less_Suc_eq_0_disj)
  qed
qed simp

lemma bootstrap_True:
  "bootstrap_turns n H False d a w = Some (ok, a', w') \<Longrightarrow> ok"
  by (induction n arbitrary: d a w) (auto split: bind_splits if_splits)



text \<open>
  The waits between two attempts to find the leader grow from 0.3 s to at most 9.6 s: over any two
  hosts that agree on waits of such a length, \<open>bootstrap\<close> does the same.
\<close>

lemma bootstrap_waits_bounded:
  assumes "\<And>d w. 300 * millisecond \<le> d \<Longrightarrow> d \<le> 9600 * millisecond \<Longrightarrow> wait' d w = host_Wait H d w"
  shows "bootstrap (H\<lparr>host_Wait := wait'\<rparr>) c a w = bootstrap H c a w"
proof -
  have "300 * millisecond \<in> backoffs" by (auto simp: backoffs_def intro!: image_eqI [of _ _ 0])
  then have turns: "bootstrap_turns n (H\<lparr>host_Wait := wait'\<rparr>) c (300 * millisecond) a w = bootstrap_turns n H c (300 * millisecond) a w" for n
    using assms by (intro bootstrap_turns_cong) (simp_all add: wait_ok_def)
  have iff: "bootstrap G c a w = Some y \<longleftrightarrow> (\<exists>n. bootstrap_turns n G c (300 * millisecond) a w = Some y)" for G :: "('a, 'b) host_scheme" and y
    unfolding bootstrap_def by (rule bootstrap_loop_iff)
  have "(bootstrap (H\<lparr>host_Wait := wait'\<rparr>) c a w = Some y) = (bootstrap H c a w = Some y)" for y
    unfolding iff turns by (rule refl)
  then show ?thesis by (metis option.exhaust)
qed

lemma bootstrap_waits_bounded_example:
  "bootstrap (sample_host\<lparr>host_Wait := \<lambda>d w. (10 * second < d, w)\<rparr>) False (agent_New sample_agent_cfg) () =
     Some (True, sample_agent, ())"
  using bootstrap_waits_bounded [of "\<lambda>d w. (10 * second < d, w)" sample_host False "agent_New sample_agent_cfg" "()"]
    sample_bootstrap [of False] by (simp add: sample_host_def)

section \<open>Run\<close>

lemma run_loop_run: "run_loop H es a w = Some (a', w') \<Longrightarrow> agent_run H (a, w) (a', w')"
proof (induction H es a w rule: run_loop.induct)
  case (2 H es a w)
  then show ?case by (auto simp: bind_eq_Some_conv intro: converse_rtranclp_into_rtranclp agent_step.beat)
next
  case (3 H es a w)
  then show ?case by (auto simp: bind_eq_Some_conv intro: converse_rtranclp_into_rtranclp agent_step.poll)
next
  case (4 H task es a w)
  then show ?case by (auto simp: bind_eq_Some_conv split: if_splits intro: converse_rtranclp_into_rtranclp agent_step.task)
next
  case (5 H w' es a w)
  then show ?case by (auto intro: converse_rtranclp_into_rtranclp agent_step.world)
qed simp

text \<open>
  From its start to its end an agent keeps its slots consistent; if it stopped cleanly no task goroutine
  and no slot is left.
\<close>

lemma agent_Run_inv:
  assumes "agent_Run H es ds (agent_New cfg) w = Some (up, clean, a', w')"
  shows "agent_inv a'" "up \<Longrightarrow> clean \<Longrightarrow> ag_tasks a' = [] \<and> ag_running a' = []"
proof -
  obtain ok a1 w1 where boot: "bootstrap H True (agent_New cfg) w = Some (ok, a1, w1)"
    using assms by (auto simp: agent_Run_def bind_eq_Some_conv)
  have inv1: "agent_inv a1" by (rule agent_inv_same [OF agent_inv_New]) (use bootstrap_same [OF boot [unfolded bootstrap_def]] in blast)
  have "agent_inv a' \<and> (up \<longrightarrow> clean \<longrightarrow> ag_tasks a' = [] \<and> ag_running a' = [])"
  proof (cases ok)
    case True
    then obtain a2 w2 a3 where loop: "run_loop H es a1 w1 = Some (a2, w2)"
      "run_loop H (filter (\<lambda>e. \<not> ticks e) ds) a2 w2 = Some (a3, w')" "clean = drained a3" "a' = closeConn a3"
      using assms boot by (auto simp: agent_Run_def agent_drain_def bind_eq_Some_conv)
    have "agent_inv a3"
      using agent_run_inv [OF run_loop_run [OF loop(2)]] agent_run_inv [OF run_loop_run [OF loop(1)]] inv1 by auto
    then show ?thesis using loop(3,4) by (auto simp: agent_inv_def closeConn_def drained_def)
  qed (use assms boot inv1 in \<open>auto simp: agent_Run_def\<close>)
  then show "agent_inv a'" "up \<Longrightarrow> clean \<Longrightarrow> ag_tasks a' = [] \<and> ag_running a' = []" by blast+
qed

end
