(* ===== verification/Go_Strings.thy ===== *)
theory Go_Strings
  imports Messages
begin

text \<open>
  What the command-line tools use of Go's packages \<open>strings\<close> and \<open>fmt\<close>: \<open>Split\<close>, \<open>Join\<close>,
  \<open>TrimSpace\<close>, \<open>TrimPrefix\<close>, \<open>Cut\<close>, \<open>ToLower\<close> and the verb \<open>%d\<close>. A string is a list of bytes in
  UTF-8, as in Go.
\<close>

section \<open>Splitting and joining\<close>

fun Split :: "string \<Rightarrow> char \<Rightarrow> string list" where
  "Split [] c = [[]]"
| "Split (x # xs) c =
     (if x = c then [] # Split xs c else case Split xs c of [] \<Rightarrow> [[x]] | e # es \<Rightarrow> (x # e) # es)"

fun Join :: "string list \<Rightarrow> string \<Rightarrow> string" where
  "Join [] sep = []"
| "Join [x] sep = x"
| "Join (x # xs) sep = x @ sep @ Join xs sep"

definition Cut :: "string \<Rightarrow> char \<Rightarrow> string \<times> string \<times> bool" where
  "Cut s c = (takeWhile (\<lambda>x. x \<noteq> c) s, tl (dropWhile (\<lambda>x. x \<noteq> c) s), c \<in> set s)"

definition TrimPrefix :: "string \<Rightarrow> string \<Rightarrow> string" where
  "TrimPrefix s p = (if take (length p) s = p then drop (length p) s else s)"

lemma Split_not_Nil [simp]: "Split s c \<noteq> []"
  by (cases s) (auto split: list.splits)

lemma Split_single: "c \<notin> set s \<Longrightarrow> Split s c = [s]"
  by (induction s) auto

lemma Split_append: "c \<notin> set s \<Longrightarrow> Split (s @ c # t) c = s # Split t c"
  by (induction s) auto

lemma Split_Join: "xs \<noteq> [] \<Longrightarrow> \<forall>x \<in> set xs. c \<notin> set x \<Longrightarrow> Split (Join xs [c]) c = xs"
  by (induction xs "[c]" rule: Join.induct) (auto simp: Split_single Split_append)

lemma Split_no_sep: "x \<in> set (Split s c) \<Longrightarrow> c \<notin> set x"
  by (induction s arbitrary: x) (auto split: if_splits list.splits)

lemma Join_Split: "Join (Split s c) [c] = s"
proof (induction s)
  case (Cons x s)
  obtain e es where "Split s c = e # es" by (cases "Split s c") auto
  then show ?case using Cons by (cases es) auto
qed simp

lemma Cut_append: "c \<notin> set s \<Longrightarrow> Cut (s @ c # t) c = (s, t, True)"
  by (induction s) (auto simp: Cut_def)

lemma Cut_found: "Cut s c = (x, y, True) \<Longrightarrow> s = x @ c # y \<and> c \<notin> set x"
  by (induction s arbitrary: x) (auto simp: Cut_def split: if_splits)

section \<open>White space\<close>

text \<open>
  The white space of \<open>unicode.IsSpace\<close>, encoded: the ASCII characters, U+0085, U+00A0, U+1680,
  U+2000 to U+200A, U+2028, U+2029, U+202F, U+205F and U+3000.
\<close>

definition space_runes :: "string list" where
  "space_runes =
     [[CHR 0x09], [CHR 0x0A], [CHR 0x0B], [CHR 0x0C], [CHR 0x0D], [CHR 0x20], [CHR 0xC2, CHR 0x85], [CHR 0xC2, CHR 0xA0],
      [CHR 0xE1, CHR 0x9A, CHR 0x80],
      [CHR 0xE2, CHR 0x80, CHR 0x80], [CHR 0xE2, CHR 0x80, CHR 0x81], [CHR 0xE2, CHR 0x80, CHR 0x82],
      [CHR 0xE2, CHR 0x80, CHR 0x83], [CHR 0xE2, CHR 0x80, CHR 0x84], [CHR 0xE2, CHR 0x80, CHR 0x85],
      [CHR 0xE2, CHR 0x80, CHR 0x86], [CHR 0xE2, CHR 0x80, CHR 0x87], [CHR 0xE2, CHR 0x80, CHR 0x88],
      [CHR 0xE2, CHR 0x80, CHR 0x89], [CHR 0xE2, CHR 0x80, CHR 0x8A], [CHR 0xE2, CHR 0x80, CHR 0xA8],
      [CHR 0xE2, CHR 0x80, CHR 0xA9], [CHR 0xE2, CHR 0x80, CHR 0xAF], [CHR 0xE2, CHR 0x81, CHR 0x9F],
      [CHR 0xE3, CHR 0x80, CHR 0x80]]"

text \<open>The length of the rune of \<open>runes\<close> that \<open>s\<close> starts with, 0 if there is none.\<close>

definition lead :: "string list \<Rightarrow> string \<Rightarrow> nat" where
  "lead runes s = (case find (\<lambda>p. take (length p) s = p) runes of None \<Rightarrow> 0 | Some p \<Rightarrow> length p)"

lemma lead_length: "lead runes s \<le> length s"
  by (auto simp: lead_def find_Some_iff split: option.splits dest!: arg_cong [of "take _ s" _ length])

function trim_left :: "string list \<Rightarrow> string \<Rightarrow> string" where
  "trim_left runes s = (if lead runes s = 0 then s else trim_left runes (drop (lead runes s) s))"
  by pat_completeness auto
termination
proof (relation "measure (\<lambda>(runes, s). length s)", goal_cases)
  case (2 runes s)
  then show ?case using lead_length [of runes s] by auto
qed simp

declare trim_left.simps [simp del]

definition TrimSpace :: "string \<Rightarrow> string" where
  "TrimSpace s = rev (trim_left (map rev space_runes) (rev (trim_left space_runes s)))"

text \<open>A string that neither starts nor ends with white space.\<close>

definition trimmed :: "string \<Rightarrow> bool" where
  "trimmed s \<longleftrightarrow> lead space_runes s = 0 \<and> lead (map rev space_runes) (rev s) = 0"

lemma TrimSpace_trimmed: "trimmed s \<Longrightarrow> TrimSpace s = s"
  by (simp add: trimmed_def TrimSpace_def trim_left.simps)

lemma lead_trim_left: "lead runes (trim_left runes s) = 0"
  by (induction runes s rule: trim_left.induct) (subst trim_left.simps, simp)

lemma lead_zero:
  assumes "[] \<notin> set runes"
  shows "lead runes s = 0 \<longleftrightarrow> (\<forall>p \<in> set runes. take (length p) s \<noteq> p)"
proof (cases "find (\<lambda>p. take (length p) s = p) runes")
  case None
  then have "lead runes s = 0" by (simp add: lead_def)
  moreover have "\<forall>p \<in> set runes. take (length p) s \<noteq> p" using None by (auto simp: find_None_iff)
  ultimately show ?thesis by blast
next
  case (Some p)
  then have "p \<in> set runes" "take (length p) s = p" by (auto simp: find_Some_iff)
  then show ?thesis using assms Some by (auto simp: lead_def)
qed

lemma trim_left_suffix: "\<exists>t. s = t @ trim_left runes s"
proof (induction runes s rule: trim_left.induct)
  case (1 runes s)
  show ?case
  proof (cases "lead runes s = 0")
    case True
    then show ?thesis by (simp add: trim_left.simps)
  next
    case False
    then obtain t where "drop (lead runes s) s = t @ trim_left runes (drop (lead runes s) s)" using 1 by blast
    then have "s = (take (lead runes s) s @ t) @ trim_left runes (drop (lead runes s) s)"
      by (metis append.assoc append_take_drop_id)
    moreover have "trim_left runes s = trim_left runes (drop (lead runes s) s)" using False by (subst trim_left.simps) simp
    ultimately show ?thesis by metis
  qed
qed

lemma space_runes_facts:
  "[] \<notin> set space_runes" "[] \<notin> set (map rev space_runes)"
  "p \<in> set space_runes \<Longrightarrow> CHR ''='' \<notin> set p" "p \<in> set (map rev space_runes) \<Longrightarrow> CHR ''='' \<notin> set p"
  "p \<in> set space_runes \<Longrightarrow> CHR '','' \<notin> set p" "p \<in> set (map rev space_runes) \<Longrightarrow> CHR '','' \<notin> set p"
  by (auto simp: space_runes_def)

lemma take_before:
  assumes "c \<notin> set p" "take (length p) (x @ c # y) = p"
  shows "take (length p) x = p"
proof (cases "length p \<le> length x")
  case False
  then obtain n where "length p - length x = Suc n" by (metis diff_is_0_eq not0_implies_Suc)
  then have "c \<in> set (take (length p) (x @ c # y))" by simp
  then show ?thesis using assms(1) unfolding assms(2) by simp
qed (use assms in simp)

lemma lead_before:
  assumes "[] \<notin> set runes" "\<forall>p \<in> set runes. c \<notin> set p" "lead runes x = 0"
  shows "lead runes (x @ c # y) = 0"
  using assms take_before unfolding lead_zero [OF assms(1)] by metis

lemma trimmed_pair: "c \<in> {CHR ''='', CHR '',''} \<Longrightarrow> trimmed x \<Longrightarrow> trimmed y \<Longrightarrow> trimmed (x @ c # y)"
  by (auto simp: trimmed_def space_runes_facts intro!: lead_before)

lemma trimmed_Nil [simp]: "trimmed []"
  by (auto simp: trimmed_def lead_def find_Some_iff split: option.splits)

lemma trimmed_Join: "\<forall>x \<in> set xs. trimmed x \<Longrightarrow> trimmed (Join xs '','')"
proof (induction xs)
  case (Cons x xs)
  then show ?case by (cases xs) (auto intro!: trimmed_pair)
qed simp

lemma take_prefix: "take n (x @ y) \<noteq> p \<Longrightarrow> length p = n \<Longrightarrow> take n x \<noteq> p"
  by (metis append_Nil2 diff_is_0_eq length_take linorder_not_less min.absorb_iff1 min.absorb_iff2 nle_le take0 take_append)

lemma lead_of_prefix:
  assumes "[] \<notin> set runes" "lead runes (x @ y) = 0"
  shows "lead runes x = 0"
  using assms(2) take_prefix unfolding lead_zero [OF assms(1)] by metis

lemma TrimSpace_prefix: "\<exists>t. trim_left space_runes s = TrimSpace s @ t"
proof -
  obtain t where "rev (trim_left space_runes s) = t @ trim_left (map rev space_runes) (rev (trim_left space_runes s))"
    using trim_left_suffix by blast
  then show ?thesis by (metis TrimSpace_def rev_append rev_rev_ident)
qed

lemma trimmed_TrimSpace: "trimmed (TrimSpace s)"
proof -
  obtain t where "trim_left space_runes s = TrimSpace s @ t" using TrimSpace_prefix by blast
  then have "lead space_runes (TrimSpace s) = 0"
    using lead_of_prefix [OF space_runes_facts(1)] lead_trim_left [of space_runes s] by metis
  then show ?thesis by (simp add: trimmed_def TrimSpace_def lead_trim_left)
qed

lemma set_TrimSpace: "set (TrimSpace s) \<subseteq> set s"
proof -
  obtain t u where "s = t @ trim_left space_runes s" "trim_left space_runes s = TrimSpace s @ u"
    using TrimSpace_prefix trim_left_suffix by blast
  then have "s = t @ TrimSpace s @ u" by simp
  then show ?thesis by (metis Un_upper1 Un_upper2 order_trans set_append)
qed

text \<open>A string that is all white space starts with some, and ends with some.\<close>

lemma trim_left_all: "trim_left runes s = [] \<Longrightarrow> s \<noteq> [] \<Longrightarrow> \<exists>q \<in> set runes. \<exists>t. s = t @ q \<and> q \<noteq> []"
proof (induction runes s rule: trim_left.induct)
  case (1 runes s)
  have lead: "lead runes s \<noteq> 0" using 1(2,3) by (subst (asm) trim_left.simps) (auto split: if_splits)
  then obtain q where q: "q \<in> set runes" "take (length q) s = q" "lead runes s = length q"
    by (auto simp: lead_def find_Some_iff dest: nth_mem split: option.splits)
  show ?case
  proof (cases "drop (lead runes s) s = []")
    case True
    then have "s = q" using q by simp
    then show ?thesis using q 1(3) by blast
  next
    case False
    then obtain p t where "p \<in> set runes" "drop (lead runes s) s = t @ p" "p \<noteq> []"
      using 1 lead by (metis trim_left.simps)
    then show ?thesis by (metis append.assoc append_take_drop_id)
  qed
qed

lemma TrimSpace_not_Nil:
  assumes "s \<noteq> []" "lead space_runes s = 0 \<or> lead (map rev space_runes) (rev s) = 0"
  shows "TrimSpace s \<noteq> []"
proof
  assume nil: "TrimSpace s = []"
  show False
  proof (cases "lead space_runes s = 0")
    case True
    then have "trim_left (map rev space_runes) (rev s) = []" using nil by (simp add: TrimSpace_def trim_left.simps)
    then obtain q t where q: "q \<in> set (map rev space_runes)" "rev s = t @ q" "q \<noteq> []"
      using trim_left_all assms(1) by (metis rev_is_Nil_conv)
    then have "rev q \<in> set space_runes" "s = rev q @ rev t" by (auto simp: rev_swap)
    then show False using True by (auto simp: lead_zero space_runes_facts)
  next
    case False
    then have r: "lead (map rev space_runes) (rev s) = 0" using assms(2) by simp
    obtain t where t: "s = t @ trim_left space_runes s" using trim_left_suffix by blast
    have "lead (map rev space_runes) (rev (trim_left space_runes s)) = 0"
      by (rule lead_of_prefix [where y = "rev t", OF space_runes_facts(2)]) (use r t in \<open>simp flip: rev_append\<close>)
    then have "trim_left space_runes s = []" using nil by (simp add: TrimSpace_def trim_left.simps)
    then obtain q u where q: "q \<in> set space_runes" "s = u @ q" using trim_left_all assms(1) by metis
    then have "rev q \<in> set (map rev space_runes)" "take (length (rev q)) (rev s) = rev q" by simp_all
    then show False using r unfolding lead_zero [OF space_runes_facts(2)] by blast
  qed
qed

section \<open>Case and numbers\<close>

text \<open>
  \<open>strings.ToLower\<close>, as far as the result is ASCII: besides \<open>A\<close> to \<open>Z\<close> only U+0130 and U+212A have a
  lower case in ASCII, the letters \<open>i\<close> and \<open>k\<close>; the bytes of every other rune stay outside ASCII.
\<close>

definition lower_char :: "char \<Rightarrow> char" where
  "lower_char c = (if CHR ''A'' \<le> c \<and> c \<le> CHR ''Z'' then char_of (of_char c + 32 :: nat) else c)"

fun ToLower :: "string \<Rightarrow> string" where
  "ToLower (a # b # s) =
     (if a = CHR 0xC4 \<and> b = CHR 0xB0 then CHR ''i'' # ToLower s
      else case s of
             c # s' \<Rightarrow> if a = CHR 0xE2 \<and> b = CHR 0x84 \<and> c = CHR 0xAA then CHR ''k'' # ToLower s' else lower_char a # ToLower (b # s)
           | [] \<Rightarrow> lower_char a # ToLower (b # s))"
| "ToLower [a] = [lower_char a]"
| "ToLower [] = []"

fun digits :: "nat \<Rightarrow> string" where
  "digits n = (if n < 10 then [char_of (48 + n)] else digits (n div 10) @ [char_of (48 + n mod 10)])"

declare digits.simps [simp del]

definition FormatInt :: "int \<Rightarrow> string" where
  "FormatInt i = (if i < 0 then ''-'' @ digits (nat (- i)) else digits (nat i))"

end
