(* ===== verification/Ctl.thy ===== *)
theory Ctl
  imports Rpc_Net Go_Strings
begin

text \<open>
  The client library (\<open>internal/ctl/ctl.go\<close>): find the leader through the first seed that answers,
  and call it. The network is the parameter of theory \<open>Rpc_Net\<close>.
\<close>

section \<open>Client library\<close>

datatype ctl_error = Ctl_Dial goerr | Ctl_Rpc grpc_error | Ctl_Unreachable "string list" | Ctl_NoLeader

fun status_loop ::
  "('w, 'z) net_scheme \<Rightarrow> string list \<Rightarrow> ctl_error option \<Rightarrow> 'w \<Rightarrow> (ctl_error option + GetClusterStatusResponse) \<times> 'w" where
  "status_loop H [] lastErr w = (Inl lastErr, w)"
| "status_loop H (seed # seeds) lastErr w =
     (case net_NewClient H seed of
        Some e \<Rightarrow> status_loop H seeds (Some (Ctl_Dial e)) w
      | None \<Rightarrow>
          (case net_GetClusterStatus H seed w of
             (Inl e, w) \<Rightarrow> status_loop H seeds (Some (Ctl_Rpc e)) w
           | (Inr resp, w) \<Rightarrow> (Inr resp, w)))"

definition ctl_Status :: "('w, 'z) net_scheme \<Rightarrow> string list \<Rightarrow> 'w \<Rightarrow> (ctl_error + GetClusterStatusResponse) \<times> 'w" where
  "ctl_Status H seeds w =
     (case status_loop H seeds None w of
        (Inr resp, w) \<Rightarrow> (Inr resp, w)
      | (Inl (Some e), w) \<Rightarrow> (Inl e, w)
      | (Inl None, w) \<Rightarrow> (Inl (Ctl_Unreachable seeds), w))"

text \<open>A connection is the address it was dialled to.\<close>

definition leaderConn :: "('w, 'z) net_scheme \<Rightarrow> string list \<Rightarrow> 'w \<Rightarrow> (ctl_error + string) \<times> 'w" where
  "leaderConn H seeds w =
     (case ctl_Status H seeds w of
        (Inl e, w) \<Rightarrow> (Inl e, w)
      | (Inr st, w) \<Rightarrow>
          (case find (\<lambda>n. sn_Id n = LeaseInfo_GetHolderId (cs_Lease st)) (cs_Schedulers st) of
             None \<Rightarrow> (Inl Ctl_NoLeader, w)
           | Some n \<Rightarrow>
               (case net_NewClient H (sn_Address n) of
                  Some e \<Rightarrow> (Inl (Ctl_Dial e), w)
                | None \<Rightarrow> (Inr (sn_Address n), w))))"

record SubmitParams =
  sp_ID :: string
  sp_Name :: string
  sp_Command :: string
  sp_Args :: "string list"
  sp_Priority :: int
  sp_DependsOn :: "string list"
  sp_Cron :: string
  sp_After :: duration
  sp_MaxAttempts :: int

text \<open>The job \<open>Submit\<close> builds; \<open>now\<close> is read only for a delayed job.\<close>

definition submit_schedule :: "SubmitParams \<Rightarrow> time \<Rightarrow> Schedule option" where
  "submit_schedule p now =
     (if sp_Cron p \<noteq> '''' then Some \<lparr>sc_Kind = Some (Schedule_CronExpr (sp_Cron p)), sc_Timezone = ''''\<rparr>
      else if 0 < sp_After p then Some \<lparr>sc_Kind = Some (Schedule_RunAt (now + sp_After p)), sc_Timezone = ''''\<rparr>
      else None)"

definition submit_job :: "SubmitParams \<Rightarrow> time \<Rightarrow> Job" where
  "submit_job p now =
     \<lparr>j_Id = sp_ID p, j_Name = sp_Name p, j_Priority = sp_Priority p,
      j_Spec = Some \<lparr>ts_Command = sp_Command p, ts_Args = sp_Args p, ts_Env = [], ts_Timeout = None, ts_Payload = ''''\<rparr>,
      j_DependsOn = sp_DependsOn p, j_Schedule = submit_schedule p now,
      j_RetryPolicy =
        (if 0 < sp_MaxAttempts p
         then Some \<lparr>rp_MaxAttempts = sp_MaxAttempts p, rp_InitialBackoff = None, rp_MaxBackoff = None,
                    rp_BackoffMultiplier = Fin 0, rp_Jitter = Fin 0\<rparr>
         else None),
      j_State = JOB_STATE_UNSPECIFIED, j_Attempt = 0, j_AssignedWorkerId = '''', j_LastError = '''',
      j_CreatedAt = None, j_UpdatedAt = None, j_ScheduledAt = None, j_StartedAt = None, j_FinishedAt = None\<rparr>"

definition ctl_Submit :: "('w, 'z) host_scheme \<Rightarrow> string list \<Rightarrow> SubmitParams \<Rightarrow> 'w \<Rightarrow> (ctl_error + string) \<times> 'w" where
  "ctl_Submit H seeds p w =
     (case leaderConn H seeds w of
        (Inl e, w) \<Rightarrow> (Inl e, w)
      | (Inr conn, w) \<Rightarrow>
          let (now, w) = (if sp_Cron p = '''' \<and> 0 < sp_After p then host_Now H w else (0, w))
          in map_prod (map_sum Ctl_Rpc id) id (net_SubmitJob H conn (Some (submit_job p now)) w))"

definition ctl_Get :: "('w, 'z) net_scheme \<Rightarrow> string list \<Rightarrow> string \<Rightarrow> 'w \<Rightarrow> (ctl_error + Job) \<times> 'w" where
  "ctl_Get H seeds k w =
     (case leaderConn H seeds w of
        (Inl e, w) \<Rightarrow> (Inl e, w)
      | (Inr conn, w) \<Rightarrow> map_prod (map_sum Ctl_Rpc id) id (net_GetJob H conn k w))"

definition ctl_List :: "('w, 'z) net_scheme \<Rightarrow> string list \<Rightarrow> JobState \<Rightarrow> 'w \<Rightarrow> (ctl_error + Job list) \<times> 'w" where
  "ctl_List H seeds st w =
     (case leaderConn H seeds w of
        (Inl e, w) \<Rightarrow> (Inl e, w)
      | (Inr conn, w) \<Rightarrow> map_prod (map_sum Ctl_Rpc id) id (net_ListJobs H conn st 0 w))"

definition ctl_Cancel :: "('w, 'z) net_scheme \<Rightarrow> string list \<Rightarrow> string \<Rightarrow> 'w \<Rightarrow> (ctl_error + Job) \<times> 'w" where
  "ctl_Cancel H seeds k w =
     (case leaderConn H seeds w of
        (Inl e, w) \<Rightarrow> (Inl e, w)
      | (Inr conn, w) \<Rightarrow> map_prod (map_sum Ctl_Rpc id) id (net_CancelJob H conn k w))"

end
