(* ===== verification/Discovery.thy ===== *)
theory Discovery
  imports Agent_Run Ctl
begin

text \<open>
  How clients find the leader. The client library and the worker agent rely on the same promise of
  the schedulers about \<open>GetClusterStatus\<close>, the locale \<open>status_service\<close>; theory \<open>Cluster_Net\<close> shows that
  the modelled schedulers keep it.
\<close>

definition names_leader :: "GetClusterStatusResponse \<Rightarrow> string \<Rightarrow> bool" where
  "names_leader resp addr \<longleftrightarrow> LeaseInfo_GetHolderId (cs_Lease resp) \<noteq> '''' \<and>
     map_option sn_Address (find (\<lambda>n. sn_Id n = LeaseInfo_GetHolderId (cs_Lease resp)) (cs_Schedulers resp)) = Some addr"

text \<open>
  \<open>leads w seed addr w'\<close>: asked in the world \<open>w\<close>, the node at \<open>seed\<close> names the leader at \<open>addr\<close> and the
  world becomes \<open>w'\<close>. \<open>gone w seed\<close>: nobody answers at \<open>seed\<close>.
\<close>

locale status_service =
  fixes H :: "'w host" and leads :: "'w \<Rightarrow> string \<Rightarrow> string \<Rightarrow> 'w \<Rightarrow> bool" and gone :: "'w \<Rightarrow> string \<Rightarrow> bool"
  assumes dials: "net_NewClient H addr = None"
    and named: "leads w seed addr w' \<Longrightarrow> \<exists>resp. net_GetClusterStatus H seed w = (Inr resp, w') \<and> names_leader resp addr"
    and silent: "gone w seed \<Longrightarrow> \<exists>e. net_GetClusterStatus H seed w = (Inl e, w)"
begin

lemma status_loop_named:
  assumes "leads w seed addr w'" "\<forall>d \<in> set dead. gone w d"
  shows "\<exists>resp. status_loop H (dead @ seed # seeds) err w = (Inr resp, w') \<and> names_leader resp addr"
  using assms(2)
proof (induction dead arbitrary: err)
  case Nil
  show ?case using named [OF assms(1)] dials by auto
next
  case (Cons d dead)
  then show ?case using silent [of w d] dials by auto
qed

lemma leaderConn_named:
  assumes "leads w seed addr w'" "\<forall>d \<in> set dead. gone w d"
  shows "leaderConn H (dead @ seed # seeds) w = (Inr addr, w')"
  using status_loop_named [OF assms, of seeds None] dials
  by (auto simp: leaderConn_def ctl_Status_def names_leader_def)

lemma discover_loop_named:
  assumes "leads w seed addr w'" "\<forall>d \<in> set dead. gone w d"
  shows "discover_loop H (dead @ seed # seeds) err w = (Inr addr, w')"
  using assms(2)
proof (induction dead arbitrary: err)
  case Nil
  show ?case using named [OF assms(1)] dials by (auto simp: names_leader_def Let_def)
next
  case (Cons d dead)
  then show ?case using silent [of w d] dials by auto
qed

lemma connectLeader_named:
  assumes "ac_Schedulers (ag_cfg a) = dead @ seed # seeds" "leads w seed addr w'" "\<forall>d \<in> set dead. gone w d"
  shows "connectLeader H a w = (None, a\<lparr>ag_conn := Some addr, ag_client := Some addr, ag_leaderAddr := addr\<rparr>, w')"
  using discover_loop_named [OF assms(2,3)] dials by (simp add: connectLeader_def discoverLeader_def assms(1))

text \<open>The client and an agent with the same seeds find the same leader.\<close>

lemma same_leader:
  assumes "leads w seed addr w'" "\<forall>d \<in> set dead. gone w d" "ac_Schedulers (ag_cfg a) = dead @ seed # seeds"
  shows "fst (leaderConn H (dead @ seed # seeds) w) = Inr addr \<and> ag_client (fst (snd (connectLeader H a w))) = Some addr"
  using leaderConn_named [OF assms(1,2)] connectLeader_named [OF assms(3,1,2)] by simp

end

end
