(* ===== verification/Cluster_Net.thy ===== *)
theory Cluster_Net
  imports Discovery Poll_Batch
begin

text \<open>
  The clients of theories \<open>Ctl\<close> and \<open>Agent\<close> on a network of scheduler nodes: the world of their calls
  is the servers by address, and a call runs the handler of the server at that address. A node that
  is not there, or shut down, is unavailable; what the rest of the host does stays a parameter.
\<close>

type_synonym 'db nodes = "(string \<times> 'db server) list"

definition on_node :: "string \<Rightarrow> ('db server \<Rightarrow> (rpc_error + 'r) \<times> 'db server) \<Rightarrow> ('db nodes, 'r) call" where
  "on_node addr f w =
     (case map_of w addr of
        None \<Rightarrow> (Inl (Unavailable, ''''), w)
      | Some s \<Rightarrow>
          if s_closed s then (Inl (Unavailable, ''''), w)
          else case f s of (r, s) \<Rightarrow> (map_sum (\<lambda>e. (status_code e, '''')) id r, AList.update addr s w))"

definition cluster_host :: "'db env \<Rightarrow> 'db nodes host \<Rightarrow> 'db nodes host" where
  "cluster_host E h =
     h\<lparr>net_NewClient := (\<lambda>_. None),
       net_GetClusterStatus := (\<lambda>a. on_node a (GetClusterStatus E)),
       net_RegisterWorker := (\<lambda>a w. on_node a (RegisterWorker E w)),
       net_Heartbeat := (\<lambda>a w ts. on_node a (Heartbeat E w ts)),
       net_PollTask := (\<lambda>a w n. on_node a (PollTask E w n)),
       net_ReportTask := (\<lambda>a r. on_node a (ReportTask E r)),
       net_SubmitJob := (\<lambda>a j. on_node a (SubmitJob E j)),
       net_GetJob := (\<lambda>a k. on_node a (\<lambda>s. (GetJob E k s, s))),
       net_ListJobs := (\<lambda>a st n. on_node a (\<lambda>s. (ListJobs E st n s, s))),
       net_CancelJob := (\<lambda>a k. on_node a (CancelJob E k))\<rparr>"

lemma cluster_host_simps [simp]:
  "net_NewClient (cluster_host E h) a = None"
  "net_GetClusterStatus (cluster_host E h) a = on_node a (GetClusterStatus E)"
  "net_RegisterWorker (cluster_host E h) a wi = on_node a (RegisterWorker E wi)"
  "net_Heartbeat (cluster_host E h) a k ts = on_node a (Heartbeat E k ts)"
  "net_PollTask (cluster_host E h) a k n = on_node a (PollTask E k n)"
  "net_ReportTask (cluster_host E h) a r = on_node a (ReportTask E r)"
  "net_SubmitJob (cluster_host E h) a j = on_node a (SubmitJob E j)"
  "net_GetJob (cluster_host E h) a k = on_node a (\<lambda>s. (GetJob E k s, s))"
  "net_ListJobs (cluster_host E h) a st n = on_node a (\<lambda>s. (ListJobs E st n s, s))"
  "net_CancelJob (cluster_host E h) a k = on_node a (CancelJob E k)"
  "host_Now (cluster_host E h) = host_Now h" "host_Run (cluster_host E h) = host_Run h"
  "host_Wait (cluster_host E h) = host_Wait h" "host_Sleep (cluster_host E h) = host_Sleep h"
  by (simp_all add: cluster_host_def)

text \<open>A node that answers.\<close>

definition up :: "'db nodes \<Rightarrow> string \<Rightarrow> 'db server \<Rightarrow> bool" where
  "up w a s \<longleftrightarrow> map_of w a = Some s \<and> \<not> s_closed s"

lemma on_node_up: "up w a s \<Longrightarrow> on_node a f w = (case f s of (r, s) \<Rightarrow> (map_sum (\<lambda>e. (status_code e, '''')) id r, AList.update a s w))"
  by (simp add: on_node_def up_def)

lemma on_node_down: "\<nexists>s. up w a s \<Longrightarrow> on_node a f w = (Inl (Unavailable, ''''), w)"
  by (auto simp: on_node_def up_def split: option.splits)

lemma up_update: "up (AList.update a s w) b t \<longleftrightarrow> (if b = a then t = s \<and> \<not> s_closed s else up w b t)"
  by (auto simp: up_def update_conv')

section \<open>Finding the leader\<close>

lemma sane_lists: "store_laws E \<Longrightarrow> sane E s \<Longrightarrow> \<exists>ws. Store_ListWorkers E (s_db s) = Inr ws"
  using wrks.list_spec [of E "s_db s"] by (auto simp: sane_def)

text \<open>A node that names a leader and its address.\<close>

definition knows :: "'db server \<Rightarrow> string \<Rightarrow> bool" where
  "knows s a \<longleftrightarrow> Node_LeaderID (s_node s) \<noteq> [] \<and> map_of (s_members s) (Node_LeaderID (s_node s)) = Some a"

lemma knows_life: "same_life s s' \<Longrightarrow> knows s' a = knows s a"
  by (simp add: knows_def)

lemma knows_asked [simp]: "knows (asked s) a = knows s a"
  by (simp add: knows_def)

lemma find_unique: "k \<in> set ks \<Longrightarrow> \<forall>x. f (g x) = x \<Longrightarrow> find (\<lambda>n. f n = k) (map g ks) = Some (g k)"
  by (induction ks) auto

lemma status_known:
  assumes "store_laws E" "sane E s" "knows s a"
  obtains resp where "GetClusterStatus E s = (Inr resp, asked s)" "names_leader resp a"
proof -
  obtain ws where ws: "Store_ListWorkers E (s_db s) = Inr ws" using sane_lists assms(1,2) by blast
  have "Node_LeaderID (s_node s) \<in> set (range_keys (env_order E) (s_tick s) (s_members s))"
    using assms(3) by (force simp: knows_def dest: map_of_SomeD)
  note found = find_unique [OF this, where f = sn_Id]
  define resp where "resp = projr (fst (GetClusterStatus E s))"
  show thesis
    by (rule that [of resp])
      (use assms(3) ws in \<open>simp_all add: resp_def names_leader_def GetClusterStatus_def LeaseInfo_GetHolderId_def knows_def found Let_def\<close>)
qed

definition leads :: "'db env \<Rightarrow> 'db nodes \<Rightarrow> string \<Rightarrow> string \<Rightarrow> 'db nodes \<Rightarrow> bool" where
  "leads E w seed a w' \<longleftrightarrow> store_laws E \<and> (\<exists>s. up w seed s \<and> sane E s \<and> knows s a \<and> w' = AList.update seed (asked s) w)"

definition gone :: "'db nodes \<Rightarrow> string \<Rightarrow> bool" where
  "gone w a \<longleftrightarrow> (\<nexists>s. up w a s)"

interpretation cn: status_service "cluster_host E h" "leads E" gone for E h
proof unfold_locales
  fix w seed a w'
  assume "leads E w seed a w'"
  then obtain s where s: "store_laws E" "sane E s" "knows s a" "up w seed s" "w' = AList.update seed (asked s) w"
    by (auto simp: leads_def)
  show "\<exists>resp. net_GetClusterStatus (cluster_host E h) seed w = (Inr resp, w') \<and> names_leader resp a"
    by (rule status_known [OF s(1-3)]) (simp add: on_node_up [OF s(4)] s(5))
qed (auto simp: gone_def on_node_down)

section \<open>Submitting and reading back\<close>

lemma placeNewJob_stored:
  assumes E: "steady E" and s: "sane E s"
  shows "\<exists>j'. jobs_of E (s_db (placeNewJob E j now s)) (j_Id j) = Some j' \<and> same_job j j'"
proof -
  obtain ready failed where deps: "depsSatisfied E j s = (ready, failed)" by force
  obtain j' delay s1 where j': "same_job j j'" and s1: "s1 = s \<or> s1 = asked s" and eq: "makeReady E j now s =
      (case putJob E j' s1 of (Some _, s) \<Rightarrow> s | (None, s) \<Rightarrow> armEnqueue E (j_Id j) delay s)"
    by (rule makeReady_shape [of j s E now])
  have "sane E s1" using s1 s by (auto simp: sane_def)
  note put = putJob_done [OF E this, of j'] putJob_done(2) [OF E s]
  have "jobs_of E (s_db (makeReady E j now s)) (j_Id j) = Some j'"
    using put j' unfolding eq by (auto simp: same_job_def split: prod.splits option.splits)
  then show ?thesis using deps j' put by (auto simp: placeNewJob_def Let_def same_job_def)
qed

lemma SubmitJob_stored:
  assumes E: "steady E" and s: "sane E s" and res: "SubmitJob E (Some job) s = (Inr k, s')"
  obtains j where "jobs_of E (s_db s') k = Some j" "same_job (job\<lparr>j_Id := k, j_CreatedAt := j_CreatedAt j\<rparr>) j"
    "j_Id job \<noteq> [] \<longrightarrow> k = j_Id job" "k \<noteq> []"
proof (rule SubmitJob_shape [OF res])
  fix j s1
  assume *: "refines E s s1" "j_Id j = k" "s' = Inc JobsSubmitted (placeNewJob E j (time_Now E s1) (asked s1))"
    "\<exists>job'. Some job = Some job' \<and> same_job (job'\<lparr>j_Id := k, j_CreatedAt := j_CreatedAt j\<rparr>) j \<and> (j_Id job' \<noteq> [] \<longrightarrow> k = j_Id job') \<and> k \<noteq> []"
    "s1 = s \<or> s1 = asked s \<or> s1 = asked (asked s)"
  have "sane E (asked s1)" using s *(5) by (auto simp: sane_def)
  then obtain j' where "jobs_of E (s_db (placeNewJob E j (time_Now E s1) (asked s1))) (j_Id j) = Some j'" "same_job j j'"
    using placeNewJob_stored [OF E] by blast
  then show thesis using * by (intro that [of j']) (auto simp: same_job_def)
qed

lemma SubmitJob_life:
  assumes "store_laws E" "sane E s" "SubmitJob E (Some job) s = (Inr k, s')"
  shows "sane E s'" "same_life s s'"
  using SubmitJob_accepted [OF assms(1,3)] assms(2) by (simp_all add: accepts_def)

text \<open>The world after the leader was found through \<open>seed\<close>, at the leader's address.\<close>

lemma up_leader:
  assumes "up w seed s" "up w a t" "sane E s" "sane E t"
  obtains t0 where "up (AList.update seed (asked s) w) a t0" "sane E t0" "t0 = (if a = seed then asked s else t)"
  using assms by (auto simp: up_update sane_def up_def split: if_splits)

lemma on_node_Inr:
  assumes "on_node a f w = (Inr r, w')" "up w a s"
  obtains s' where "f s = (Inr r, s')" "w' = AList.update a s' w"
  using assms by (cases "f s"; cases "fst (f s)") (auto simp: on_node_up)

lemma ctl_Submit_leader:
  assumes lead: "leads E w seed a w1" "\<forall>d \<in> set dead. gone w d" and clock: "\<And>w. snd (host_Now h w) = w"
    and submit: "ctl_Submit (cluster_host E h) (dead @ seed # seeds) p w = (Inr k, w')"
  obtains now where "on_node a (SubmitJob E (Some (submit_job p now))) w1 = (Inr k, w')"
proof -
  let ?now = "if sp_Cron p = '''' \<and> 0 < sp_After p then host_Now h w1 else (0, w1)"
  obtain now where now: "?now = (now, w1)" using clock [of w1] by (cases ?now) (auto split: if_splits)
  obtain r w2 where r: "on_node a (SubmitJob E (Some (submit_job p now))) w1 = (r, w2)" by force
  then have "map_prod (map_sum Ctl_Rpc id) id (r, w2) = (Inr k, w')"
    using submit now by (simp add: ctl_Submit_def cn.leaderConn_named [OF lead] cong: if_cong)
  then show thesis using that r by (cases r) auto
qed

lemma ctl_Get_leader:
  assumes laws: "store_laws E" and s: "sane E s" "knows s a" "up w seed s" and t: "up w a t" "sane E t"
    and dead: "\<forall>d \<in> set dead. gone w d" and k: "jobs_of E (s_db t) k = Some j" "k \<noteq> []"
  shows "\<exists>w'. ctl_Get (cluster_host E h) (dead @ seed # seeds) k w = (Inr j, w')"
proof -
  let ?w1 = "AList.update seed (asked s) w"
  obtain t1 where t1: "up ?w1 a t1" "sane E t1" "t1 = (if a = seed then asked s else t)"
    by (rule up_leader [OF s(3) t(1) s(1) t(2)])
  have "jobs_of E (s_db t1) k = Some j" using t1(3) k(1) s(3) t(1) by (auto simp: up_def)
  then have "Store_GetJob E (s_db t1) k = Inr j"
    using t1(2) jobs.get_spec [OF laws, of "s_db t1" k] by (simp add: sane_def)
  then have "on_node a (\<lambda>s. (GetJob E k s, s)) ?w1 = (Inr j, AList.update a t1 ?w1)"
    using k(2) by (simp add: on_node_up [OF t1(1)] GetJob_def loadJob_def)
  moreover have "leads E w seed a ?w1" using laws s by (auto simp: leads_def)
  ultimately show ?thesis by (simp add: ctl_Get_def cn.leaderConn_named [OF _ dead])
qed

text \<open>
  C24. A job that \<open>schedulerctl submit\<close> reports as accepted is there: while the store takes writes, \<open>get\<close>
  with the printed ID, asked right afterwards through the same seeds (those before the first node that
  answers are down), answers a job with that ID and the submitted name, priority, dependencies, command
  and arguments; and an ID the user chose is kept.
\<close>

theorem submitted_job_is_readable:
  assumes E: "steady E" and clock: "\<And>w. snd (host_Now h w) = w"
    and up: "up w seed s" "up w a t" "sane E s" "sane E t" and knows: "knows s a"
    and dead: "\<forall>d \<in> set dead. \<nexists>t. up w d t"
    and submit: "ctl_Submit (cluster_host E h) (dead @ seed # seeds) p w = (Inr k, w')"
  shows "\<exists>j w''. ctl_Get (cluster_host E h) (dead @ seed # seeds) k w' = (Inr j, w'') \<and> j_Id j = k \<and> j_Name j = sp_Name p \<and>
    j_Priority j = sp_Priority p \<and> j_DependsOn j = sp_DependsOn p \<and>
    TaskSpec_GetCommand (j_Spec j) = sp_Command p \<and> TaskSpec_GetArgs (j_Spec j) = sp_Args p \<and>
    (sp_ID p \<noteq> '''' \<longrightarrow> k = sp_ID p)"
proof -
  note laws = steadyD(1) [OF E]
  let ?w1 = "AList.update seed (asked s) w"
  obtain t0 where t0: "up ?w1 a t0" "sane E t0" "t0 = (if a = seed then asked s else t)"
    by (rule up_leader [OF up])
  have lead: "leads E w seed a ?w1" using laws up knows by (auto simp: leads_def)
  have gone: "\<forall>d \<in> set dead. gone w d" using dead by (simp add: gone_def)
  obtain now where "on_node a (SubmitJob E (Some (submit_job p now))) ?w1 = (Inr k, w')"
    by (rule ctl_Submit_leader [OF lead gone clock submit])
  then obtain t' where res: "SubmitJob E (Some (submit_job p now)) t0 = (Inr k, t')" and w': "w' = AList.update a t' ?w1"
    by (rule on_node_Inr [OF _ t0(1)])
  note life = SubmitJob_life [OF laws t0(2) res]
  obtain j where j: "jobs_of E (s_db t') k = Some j" "same_job ((submit_job p now)\<lparr>j_Id := k, j_CreatedAt := j_CreatedAt j\<rparr>) j"
      "j_Id (submit_job p now) \<noteq> [] \<longrightarrow> k = j_Id (submit_job p now)" "k \<noteq> []"
    by (rule SubmitJob_stored [OF E t0(2) res])
  let ?s = "if a = seed then t' else asked s"
  have s: "sane E ?s" "knows ?s a" "up w' seed ?s" "up w' a t'"
    using up t0(1,3) life knows w' by (auto simp: up_update up_def sane_def knows_def)
  have "\<forall>d \<in> set dead. gone w' d" using dead up(1,2) w' by (auto simp: gone_def up_update split: if_splits)
  then obtain w'' where "ctl_Get (cluster_host E h) (dead @ seed # seeds) k w' = (Inr j, w'')"
    using ctl_Get_leader [OF laws s life(1) _ j(1,4)] by blast
  then show ?thesis
    using j(2,3) by (simp add: same_job_def submit_job_def TaskSpec_GetCommand_def TaskSpec_GetArgs_def)
qed

text \<open>A cluster of one node, and a host whose commands always succeed.\<close>

definition sample_nodes :: "mem nodes" where
  "sample_nodes = [('':7070'', sample_server Leader [] [])]"

definition sample_nodes_host :: "mem nodes host" where
  "sample_nodes_host =
     \<lparr>net_NewClient = \<lambda>_. None, net_GetClusterStatus = \<lambda>_ w. (Inl (Unavailable, []), w),
      net_RegisterWorker = \<lambda>_ _ w. (Inl (Unavailable, []), w), net_Heartbeat = \<lambda>_ _ _ w. (Inl (Unavailable, []), w),
      net_PollTask = \<lambda>_ _ _ w. (Inl (Unavailable, []), w), net_ReportTask = \<lambda>_ _ w. (Inl (Unavailable, []), w),
      net_SubmitJob = \<lambda>_ _ w. (Inl (Unavailable, []), w), net_GetJob = \<lambda>_ _ w. (Inl (Unavailable, []), w),
      net_ListJobs = \<lambda>_ _ _ w. (Inl (Unavailable, []), w), net_CancelJob = \<lambda>_ _ w. (Inl (Unavailable, []), w),
      host_Wait = \<lambda>_ w. (False, w), host_Sleep = \<lambda>_ w. w, host_Now = \<lambda>w. (5000, w), host_Order = \<lambda>_ ks. ks,
      host_Environ = [], host_Run = \<lambda>_ _ _ _ w. ((None, ''done''), w)\<rparr>"

lemma sample_nodes_host_simps [simp]:
  "host_Now sample_nodes_host w = (5000, w)" "host_Run sample_nodes_host c as e d w = ((None, ''done''), w)"
  "host_Wait sample_nodes_host d' w = (False, w)" "host_Environ sample_nodes_host = []"
  by (simp_all add: sample_nodes_host_def)

lemma sample_nodes_up: "up sample_nodes '':7070'' (sample_server Leader [] [])" "knows (sample_server Leader js ws) '':7070''"
  by (simp_all add: up_def sample_nodes_def knows_def Node_LeaderID_def sample_node_def)

theorem submitted_job_is_readable_witness:
  "\<exists>k w' j w''. ctl_Submit (cluster_host sample_env sample_nodes_host) [''down:1'', '':7070'']
       \<lparr>sp_ID = ''build'', sp_Name = ''nightly'', sp_Command = ''make'', sp_Args = [''all''], sp_Priority = 3, sp_DependsOn = [],
        sp_Cron = [], sp_After = 0, sp_MaxAttempts = 0\<rparr> sample_nodes = (Inr k, w') \<and>
     ctl_Get (cluster_host sample_env sample_nodes_host) [''down:1'', '':7070''] k w' = (Inr j, w'') \<and> j_Id j = ''build'' \<and> j_Name j = ''nightly''"
proof -
  let ?H = "cluster_host sample_env sample_nodes_host" and ?s = "sample_server Leader [] []"
  let ?p = "\<lparr>sp_ID = ''build'', sp_Name = ''nightly'', sp_Command = ''make'', sp_Args = [''all''], sp_Priority = 3, sp_DependsOn = [],
        sp_Cron = [], sp_After = 0, sp_MaxAttempts = 0\<rparr>"
  have lead: "leads sample_env sample_nodes '':7070'' '':7070'' (AList.update '':7070'' (asked ?s) sample_nodes)"
    using store_laws_sample sane_sample sample_nodes_up unfolding leads_def by blast
  have down: "\<nexists>t. up sample_nodes ''down:1'' t" by (simp add: up_def sample_nodes_def)
  have conn: "leaderConn ?H [''down:1'', '':7070''] sample_nodes = (Inr '':7070'', AList.update '':7070'' (asked ?s) sample_nodes)"
    using cn.leaderConn_named [OF lead, of "[''down:1'']" sample_nodes_host "[]"] down by (simp add: gone_def)
  have "up (AList.update '':7070'' (asked ?s) sample_nodes) '':7070'' (asked ?s)" by (simp add: up_update)
  then have "\<exists>k w'. ctl_Submit ?H [''down:1'', '':7070''] ?p sample_nodes = (Inr k, w')"
    using conn by (auto simp: ctl_Submit_def on_node_up submit_job_def submit_schedule_def SubmitJob_def requireLeader_def Node_IsLeader_def
        TaskSpec_GetCommand_def Schedule_GetCronExpr_def Let_def split: prod.splits)
  then obtain k w' where sub: "ctl_Submit ?H [''down:1'', '':7070''] ?p sample_nodes = (Inr k, w')" by blast
  from submitted_job_is_readable [of sample_env sample_nodes_host sample_nodes "'':7070''" ?s "'':7070''" ?s "[''down:1'']" "[]" ?p k w']
    steady_sample sample_nodes_up sane_sample down sub
  show ?thesis by fastforce
qed

end
