(* ===== verification/Agent_Cluster.thy ===== *)
theory Agent_Cluster
  imports Cluster_Net
begin

text \<open>
  A worker agent against scheduler nodes: it finds the leader and registers, starts every task the
  leader leases to it, and its report of a successful task completes the job.
\<close>

section \<open>Registration\<close>

lemma putWorker_known:
  assumes "no_faults E"
  shows "fst (putWorker E w s) = None" "workerKnown (w_Id w) (snd (putWorker E w s))"
  using no_faults_writes(2) [OF assms, of "s_db s" w]
  by (auto simp: putWorker_def workerKnown_def update_conv' Let_def split: prod.splits option.splits)

lemma RegisterWorker_known:
  assumes "no_faults E" "requireLeader s = None"
  obtains k addr s' where "RegisterWorker E (Some w) s = (Inr (k, addr), s')" "workerKnown k s'" "s_closed s' = s_closed s"
proof -
  define p where "p = (if w_Id w = [] then (w\<lparr>w_Id := ids_New E s ''worker''\<rparr>, asked s) else (w, s))"
  define s1 where "s1 = asked (snd p)"
  define w' where "w' = (if w_Capacity (fst p) \<le> 0 then (fst p)\<lparr>w_Capacity := 1\<rparr> else fst p)
    \<lparr>w_State := WORKER_STATE_ALIVE, w_LastHeartbeat := Some (time_Now E (snd p)), w_RunningTasks := 0\<rparr>"
  have eq: "RegisterWorker E (Some w) s =
      (case putWorker E w' s1 of (Some e, s) \<Rightarrow> (Inl (Err_PersistWorker e), s) | (None, s) \<Rightarrow> (Inr (w_Id w', s_selfAddr s), s))"
    by (cases "w_Id w = []"; cases "w_Capacity w \<le> 0")
      (simp_all add: RegisterWorker_def assms(2) p_def w'_def s1_def Let_def split: prod.split option.split)
  have s1: "s_closed s1 = s_closed s" by (simp add: s1_def p_def)
  obtain s2 where s2: "putWorker E w' s1 = (None, s2)" using putWorker_known(1) [OF assms(1), of w' s1] by (cases "putWorker E w' s1") simp
  show thesis
    by (rule that [of "w_Id w'" "s_selfAddr s2" s2])
      (use putWorker_known(2) [OF assms(1), of w' s1] putWorker_frame(10) [of E w' s1] s1 s2 in \<open>simp_all add: eq\<close>)
qed

text \<open>
  C23. An agent gets to work when it can: if some seed is reachable and knows a leader that accepts
  writes, and the seeds before it are down, \<open>bootstrap\<close> returns after its first turn, connected to
  that leader, and the leader knows the worker under the ID the agent was given.
\<close>

theorem agent_reaches_leader:
  assumes E: "steady E" and cfg: "ac_Schedulers (ag_cfg a) = dead @ seed # seeds"
    and up: "up w seed s" "up w l t" "sane E s" "sane E t" and knows: "knows s l" and leader: "requireLeader t = None"
    and dead: "\<forall>d \<in> set dead. \<nexists>t. up w d t"
  shows "\<exists>a' w' t'. bootstrap (cluster_host E h) c a w = Some (True, a', w') \<and> ag_client a' = Some l \<and>
    up w' l t' \<and> workerKnown (ag_workerID a') t'"
proof -
  note laws = steadyD(1) [OF E]
  let ?w1 = "AList.update seed (asked s) w" and ?a1 = "a\<lparr>ag_conn := Some l, ag_client := Some l, ag_leaderAddr := l\<rparr>"
  obtain t0 where t0: "up ?w1 l t0" "t0 = (if l = seed then asked s else t)" by (rule up_leader [OF up])
  have lead: "requireLeader t0 = None" using leader t0(2) up(1,2) by (auto simp: up_def requireLeader_def split: if_splits)
  have con: "connectLeader (cluster_host E h) a w = (None, ?a1, ?w1)"
    by (rule cn.connectLeader_named [OF cfg]) (use laws up knows dead in \<open>auto simp: leads_def gone_def\<close>)
  let ?i = "\<lparr>w_Id = ag_workerID a, w_Address = ac_Advertise (ag_cfg a), w_Capacity = ac_Capacity (ag_cfg a),
             w_Labels = ac_Labels (ag_cfg a), w_State = WORKER_STATE_UNSPECIFIED, w_LastHeartbeat = None, w_RunningTasks = 0\<rparr>"
  obtain k addr t' where reg: "RegisterWorker E (Some ?i) t0 = (Inr (k, addr), t')" "workerKnown k t'" "s_closed t' = s_closed t0"
    by (rule RegisterWorker_known [OF steadyD(2) [OF E] lead])
  have "try_leader (cluster_host E h) a w = Some (True, ?a1\<lparr>ag_workerID := k\<rparr>, AList.update l t' ?w1)"
    by (simp add: try_leader_def con register_def on_node_up [OF t0(1)] reg(1))
  then have "bootstrap (cluster_host E h) c a w = Some (True, ?a1\<lparr>ag_workerID := k\<rparr>, AList.update l t' ?w1)"
    by (simp add: bootstrap_def bootstrap_loop.simps [of "cluster_host E h"])
  moreover have "up (AList.update l t' ?w1) l t'" using reg(3) t0(1) by (simp add: up_update up_def)
  moreover have "ag_client (?a1\<lparr>ag_workerID := k\<rparr>) = Some l" "ag_workerID (?a1\<lparr>ag_workerID := k\<rparr>) = k" by simp_all
  ultimately show ?thesis using reg(2) by metis
qed

definition cluster_agent :: agent where
  "cluster_agent = agent_New \<lparr>ac_Schedulers = [''down:1'', '':7070''], ac_Advertise = [], ac_Capacity = 2, ac_Labels = [],
     ac_HeartbeatInterval = 0, ac_PollInterval = 0\<rparr>"

theorem agent_reaches_leader_witness:
  "\<exists>a' w' t'. bootstrap (cluster_host sample_env sample_nodes_host) True cluster_agent sample_nodes = Some (True, a', w') \<and>
     up w' '':7070'' t' \<and> workerKnown (ag_workerID a') t'"
proof -
  have cfg: "ac_Schedulers (ag_cfg cluster_agent) = [''down:1''] @ '':7070'' # []"
    by (simp add: cluster_agent_def agent_New_def agent_withDefaults_def Let_def)
  from agent_reaches_leader [OF steady_sample cfg sample_nodes_up(1,1) sane_sample sane_sample sample_nodes_up(2) sample_leader,
      of sample_nodes_host True]
  show ?thesis by (fastforce simp: up_def sample_nodes_def)
qed

section \<open>Starting what was leased\<close>

lemma launch_all:
  assumes "agent_inv a" "distinct (map ta_TaskId tasks)" "int (length tasks) \<le> freeCapacity a"
    and "\<forall>t \<in> set tasks. ta_TaskId t \<notin> fst ` set (ag_running a) \<union> fst ` set (ag_done a)"
  shows "ag_tasks (fold launch tasks a) = ag_tasks a @ tasks \<and> inflight (fold launch tasks a) = inflight a + length tasks"
  using assms
proof (induction tasks arbitrary: a)
  case (Cons t tasks)
  have start: "tryStart (ta_TaskId t) a = (True, a\<lparr>ag_running := ag_running a @ [(ta_TaskId t, ())]\<rparr>)"
    by (rule tryStart_cases [of "ta_TaskId t" a])
      (use Cons.prems(3,4) in \<open>auto simp: tryStart_def freeCapacity_def map_of_eq_None_iff split: if_splits\<close>)
  let ?a = "launch t a"
  have a: "ag_running ?a = ag_running a @ [(ta_TaskId t, ())]" "ag_tasks ?a = ag_tasks a @ [t]" "ag_cfg ?a = ag_cfg a" "ag_done ?a = ag_done a"
    by (simp_all add: launch_def start)
  have "ta_TaskId t \<notin> ta_TaskId ` set tasks" using Cons.prems(2) by simp
  then have other: "\<forall>u \<in> set tasks. ta_TaskId u \<noteq> ta_TaskId t" by (metis image_eqI)
  have "ag_tasks (fold launch tasks ?a) = ag_tasks ?a @ tasks \<and> inflight (fold launch tasks ?a) = inflight ?a + length tasks"
    by (rule Cons.IH [OF agent_inv_launch [OF Cons.prems(1)]])
      (use Cons.prems(2-4) other in \<open>simp_all add: a freeCapacity_def\<close>)
  then show ?case by (simp add: a inflight_def)
qed simp

text \<open>The task IDs of a poll are drawn during the poll.\<close>

lemma poll_loop_new_ids:
  "poll_loop E w now n out s = (out', s') \<Longrightarrow>
   \<forall>a \<in> set out'. a \<in> set out \<or> (\<exists>i \<ge> s_tick s. ta_TaskId a = ''task-'' @ env_uuid E i)"
proof (induction out s rule: poll_loop_induct [of n _ E w now])
  case (leased out s k q job s2 l)
  have "s_tick s \<le> s_tick s2" using putJob_frame(14) [of E "running job w now" "asked (s\<lparr>s_queue := q\<rparr>)"] leased(5) by simp
  moreover have "ta_TaskId (poll_assignment l job) = ''task-'' @ env_uuid E (s_tick s)"
    using leased(6) by (simp add: poll_assignment_def poll_lease_def ids_New_def)
  ultimately show ?case
    using leased.IH leased.prems poll_loop_leased [OF leased(1-6)]
    by (auto 4 3 dest!: bspec intro: order_trans)
qed (auto simp: poll_loop_full poll_loop_empty poll_loop_stale poll_loop_refused)

text \<open>
  C22. No leased task is dropped: an agent within its slots that polls the leader starts every task the
  leader leased to it, so that each lease is matched by a running task.
\<close>

theorem agent_starts_what_it_leases:
  assumes E: "store_laws E" "inj (env_uuid E)" and t: "up w l t" "sane E t" "requireLeader t = None" "workerKnown (ag_workerID a) t"
    and a: "agent_inv a" "ag_client a = Some l" "0 < freeCapacity a" "ac_Capacity (ag_cfg a) < 2 ^ 31"
    and fresh: "\<And>i. s_tick t \<le> i \<Longrightarrow> ''task-'' @ env_uuid E i \<notin> fst ` set (ag_running a) \<union> fst ` set (ag_done a)"
  shows "\<exists>out t' a' w'. PollTask E (ag_workerID a) (freeCapacity a) t = (Inr out, t') \<and>
    poll (cluster_host E h) a w = Some (a', w') \<and> up w' l t' \<and> ag_tasks a' = ag_tasks a @ out \<and>
    inflight a' = inflight a + length out \<and> (\<forall>x \<in> set out. backed E (ag_workerID a) t' x)"
proof -
  let ?k = "ag_workerID a" and ?n = "freeCapacity a"
  obtain out t' where loop: "poll_loop E ?k (time_Now E t) (batch_size ?n) [] (asked t) = (out, t')" by fastforce
  have res: "PollTask E ?k ?n t = (Inr out, t')" using t(3,4) loop by (simp add: PollTask_def Let_def)
  have "0 \<le> int (length (ag_running a))" by simp
  then have n: "i32 ?n = ?n" using a(3,4) by (intro i32_id) (simp_all add: freeCapacity_def)
  have "int (length out) \<le> ?n"
    using poll_loop_length [of "[]" "batch_size ?n" E ?k "time_Now E t" "asked t"] batch_size_bounds(3) [of ?n] loop a(3) by simp
  moreover have backed: "old_ids E t' out \<and> (\<forall>x \<in> set out. backed E ?k t' x)"
    by (rule poll_loop_backed [OF E _ _ _ loop]) (use t(2) in \<open>simp_all add: old_ids_def sane_def\<close>)
  moreover have "\<forall>x \<in> set out. ta_TaskId x \<notin> fst ` set (ag_running a) \<union> fst ` set (ag_done a)"
  proof
    fix x
    assume "x \<in> set out"
    then obtain i where "s_tick (asked t) \<le> i" "ta_TaskId x = ''task-'' @ env_uuid E i"
      using poll_loop_new_ids [OF loop] by auto
    then show "ta_TaskId x \<notin> fst ` set (ag_running a) \<union> fst ` set (ag_done a)" using fresh [of i] by simp
  qed
  ultimately have "ag_tasks (fold launch out a) = ag_tasks a @ out \<and> inflight (fold launch out a) = inflight a + length out"
    by (intro launch_all [OF a(1)]) (simp_all add: old_ids_def)
  moreover have "poll (cluster_host E h) a w = Some (fold launch out a, AList.update l t' w)"
    using a(2,3) by (simp add: poll_def n on_node_up [OF t(1)] res)
  moreover have "up (AList.update l t' w) l t'"
    using poll_loop_same [of E ?k "time_Now E t" "batch_size ?n" "[]" "asked t"] t(1) loop by (simp add: up_update up_def)
  ultimately show ?thesis using res backed by metis
qed

theorem agent_starts_what_it_leases_witness:
  "\<exists>out t' a' w'. PollTask sample_env ''w'' 2 polled_server = (Inr out, t') \<and>
     poll (cluster_host sample_env sample_nodes_host) (cluster_agent\<lparr>ag_client := Some '':7070'', ag_workerID := ''w''\<rparr>)
       [('':7070'', polled_server)] = Some (a', w') \<and> ag_tasks a' = out"
proof -
  let ?a = "cluster_agent\<lparr>ag_client := Some '':7070'', ag_workerID := ''w''\<rparr>"
  have c: "ag_running cluster_agent = []" "ag_done cluster_agent = []" "ag_tasks cluster_agent = []" "ag_wg cluster_agent = 0"
    "ac_Capacity (ag_cfg cluster_agent) = 2"
    by (simp_all add: cluster_agent_def agent_New_def agent_withDefaults_def Let_def)
  have up: "up [('':7070'', polled_server)] '':7070'' polled_server" by (simp add: up_def polled_server_def)
  have a: "agent_inv ?a" "ag_client ?a = Some '':7070''" "0 < freeCapacity ?a" "ac_Capacity (ag_cfg ?a) < 2 ^ 31"
    "workerKnown (ag_workerID ?a) polled_server" "freeCapacity ?a = 2"
    using polled_server_facts(3) by (simp_all add: agent_inv_def freeCapacity_def c)
  from agent_starts_what_it_leases [OF store_laws_sample steadyD(3) [OF steady_sample] up polled_server_facts(1,2) a(5,1-4), of sample_nodes_host]
  show ?thesis by (auto simp: c a(6))
qed

section \<open>Completing a job\<close>

lemma ReportTask_succeeds:
  assumes E: "steady E" and s: "sane E s" "requireLeader s = None"
    and l: "getLease k s = Some l" "jobs_of E (s_db s) (ls_jobID l) = Some job" "j_State job = JOB_STATE_RUNNING"
    and once: "Schedule_GetCronExpr (j_Schedule job) = []" and req: "rt_TaskId req = k" "rt_Result req = TASK_RESULT_SUCCEEDED"
  obtains s' where "ReportTask E req s = (Inr True, s')" "jobs_of E (s_db s') (ls_jobID l) = Some (succeeded job (time_Now E s))"
    "getLease k s' = None" "s_closed s' = s_closed s"
proof -
  note laws = steadyD(1) [OF E]
  let ?j = "succeeded job (time_Now E s)" and ?s1 = "removeLease k (asked s)"
  have get: "Store_GetJob E (s_db s) (ls_jobID l) = Inr job" using jobs.get_spec [OF laws, of "s_db s"] s(1) l(2) by (simp add: sane_def)
  have id: "j_Id ?j = j_Id job" "j_Id job = ls_jobID l" using get_job [OF laws s(1) get] by (simp_all add: succeeded_def)
  have s1: "sane E ?s1" using s(1) by (simp add: sane_def)
  obtain sp where put: "putJob E ?j ?s1 = (None, sp)" using putJob_done(1) [OF E s1, of ?j] by (cases "putJob E ?j ?s1") simp
  let ?s2 = "removeFromIndex (j_Id job) (Inc JobsSucceeded sp)"
  let ?s3 = "promoteDependents E (j_Id job) ?s2"
  have "sane E ?s2" using putJob_stored_jobs(2) [OF laws s1 put] by (simp add: sane_def)
  then have ms: "machine_steps (view E ?s2) (view E ?s3)" "s_closed ?s3 = s_closed s"
    using refines_promoteDependents [OF laws, of ?s2 "j_Id job"] putJob_frame(11) [of E ?j ?s1] put by (simp_all add: refines_def)
  have "mc_jobs (view E ?s3) (ls_jobID l) = Some ?j"
    by (rule terminal_stays [OF ms(1)]) (use putJob_done(2) [OF E s1, of ?j] id put in \<open>simp_all add: succeeded_def\<close>)
  then have kept: "jobs_of E (s_db ?s3) (ls_jobID l) = Some ?j" by simp
  have "s_leases sp = s_leases ?s1" using putJob_frame(7) [of E ?j ?s1] unfolding put by simp
  then have "getLease k ?s3 = None" by (simp add: getLease_def promoteDependents_leases removeLease_def delete_conv')
  then show thesis
    using that [of ?s3] kept ms(2) s(2) l get once req put id(1)
    by (simp add: ReportTask_def maybeRescheduleCron_def Let_def)
qed


definition leased_server :: "mem server" where
  "leased_server = (sample_server Leader [(sample_job ''a'')\<lparr>j_State := JOB_STATE_RUNNING\<rparr>] [sample_worker ''w''])
     \<lparr>s_leases := [(''task-1'', \<lparr>ls_taskID = ''task-1'', ls_jobID = ''a'', ls_workerID = ''w'', ls_attempt = 1, ls_deadline = 9000\<rparr>)]\<rparr>"


end
