(* ===== verification/Peer_Transport.thy ===== *)
theory Peer_Transport
  imports Cluster_Net
begin

text \<open>
  The connections between scheduler nodes (\<open>peerTransport\<close> of \<open>internal/scheduler/cluster.go\<close>): one
  cached client connection per peer, over which a node asks for votes and ships replication entries.
  gRPC is the parameter \<open>peer_net\<close>; a call takes the address its connection was dialled to, and its
  time limit.
\<close>

definition voteTimeout :: duration where "voteTimeout = 300 * millisecond"

definition replicateTimeout :: duration where "replicateTimeout = 500 * millisecond"

record 'w peer_net =
  pn_NewClient :: "string \<Rightarrow> goerr option"
  pn_RequestVote :: "string \<Rightarrow> duration \<Rightarrow> string \<Rightarrow> int \<Rightarrow> ('w, bool \<times> int) call"
  pn_Replicate :: "string \<Rightarrow> duration \<Rightarrow> string \<Rightarrow> int \<Rightarrow> ReplicationEntry list \<Rightarrow> ('w, ReplicateResponse) call"

record peerTransport =
  pt_self :: string
  pt_members :: "(string \<times> string) list"
  pt_conns :: "(string \<times> string) list"

datatype peer_error = Peer_Dial goerr | Peer_Rpc grpc_error

definition newPeerTransport :: "(string \<times> string) list \<Rightarrow> string \<Rightarrow> peerTransport" where
  "newPeerTransport members self = \<lparr>pt_self = self, pt_members = members, pt_conns = []\<rparr>"

text \<open>\<open>p.members[peerID]\<close>: Go's map lookup answers the empty string for a peer that is not a member.\<close>

definition member_addr :: "peerTransport \<Rightarrow> string \<Rightarrow> string" where
  "member_addr p k = (case map_of (pt_members p) k of None \<Rightarrow> [] | Some a \<Rightarrow> a)"

definition peer_client :: "'w peer_net \<Rightarrow> string \<Rightarrow> peerTransport \<Rightarrow> (peer_error + string) \<times> peerTransport" where
  "peer_client N peerID p =
     (case map_of (pt_conns p) peerID of
        Some c \<Rightarrow> (Inr c, p)
      | None \<Rightarrow>
          let addr = member_addr p peerID
          in (case pn_NewClient N addr of
                Some e \<Rightarrow> (Inl (Peer_Dial e), p)
              | None \<Rightarrow> (Inr addr, p\<lparr>pt_conns := AList.update peerID addr (pt_conns p)\<rparr>)))"

definition peer_close :: "peerTransport \<Rightarrow> peerTransport" where
  "peer_close p = p\<lparr>pt_conns := []\<rparr>"

definition SendVote ::
  "'w peer_net \<Rightarrow> string \<Rightarrow> int \<Rightarrow> string \<Rightarrow> peerTransport \<Rightarrow> 'w \<Rightarrow> (peer_error + bool \<times> int) \<times> peerTransport \<times> 'w" where
  "SendVote N peerID term candidateID p w =
     (case peer_client N peerID p of
        (Inl e, p) \<Rightarrow> (Inl e, p, w)
      | (Inr c, p) \<Rightarrow>
          (case pn_RequestVote N c voteTimeout candidateID term w of
             (Inl e, w) \<Rightarrow> (Inl (Peer_Rpc e), p, w)
           | (Inr r, w) \<Rightarrow> (Inr r, p, w)))"

definition sendReplicate ::
  "'w peer_net \<Rightarrow> string \<Rightarrow> int \<Rightarrow> string \<Rightarrow> ReplicationEntry list \<Rightarrow> peerTransport \<Rightarrow> 'w \<Rightarrow>
   (peer_error + ReplicateResponse) \<times> peerTransport \<times> 'w" where
  "sendReplicate N peerID term leaderID entries p w =
     (case peer_client N peerID p of
        (Inl e, p) \<Rightarrow> (Inl e, p, w)
      | (Inr c, p) \<Rightarrow>
          (case pn_Replicate N c replicateTimeout leaderID term entries w of
             (Inl e, w) \<Rightarrow> (Inl (Peer_Rpc e), p, w)
           | (Inr r, w) \<Rightarrow> (Inr r, p, w)))"

section \<open>Connections go to members\<close>

definition conns_ok :: "peerTransport \<Rightarrow> bool" where
  "conns_ok p \<longleftrightarrow> (\<forall>k c. map_of (pt_conns p) k = Some c \<longrightarrow> c = member_addr p k)"

lemma member_addr_conns [simp]: "member_addr (p\<lparr>pt_conns := cs\<rparr>) k = member_addr p k"
  by (simp add: member_addr_def)

lemma peer_client_ok:
  assumes "conns_ok p" "peer_client N k p = (r, p')"
  shows "conns_ok p'" "pt_members p' = pt_members p" "r = Inr c \<Longrightarrow> c = member_addr p k"
  using assms
  by (auto simp: conns_ok_def peer_client_def Let_def update_conv' split: option.splits if_splits)

text \<open>What a transport goes through: calls to peers, whatever they answer, and being closed.\<close>

inductive transport_step :: "'w peer_net \<Rightarrow> peerTransport \<Rightarrow> peerTransport \<Rightarrow> bool" for N :: "'w peer_net" where
  vote: "SendVote N k t c p w = (r, p', w') \<Longrightarrow> transport_step N p p'"
| replicate: "sendReplicate N k t l es p w = (r, p', w') \<Longrightarrow> transport_step N p p'"
| close: "transport_step N p (peer_close p)"

lemma transport_step_ok: "transport_step N p p' \<Longrightarrow> conns_ok p \<Longrightarrow> conns_ok p' \<and> pt_members p' = pt_members p"
proof (induction rule: transport_step.induct)
  case (vote k t c p w r p' w')
  then obtain x where "peer_client N k p = (x, p')"
    by (cases "peer_client N k p"; cases "fst (peer_client N k p)") (auto simp: SendVote_def split: prod.splits sum.splits)
  then show ?case using peer_client_ok [OF vote(2)] by blast
next
  case (replicate k t l es p w r p' w')
  then obtain x where "peer_client N k p = (x, p')"
    by (cases "peer_client N k p"; cases "fst (peer_client N k p)") (auto simp: sendReplicate_def split: prod.splits sum.splits)
  then show ?case using peer_client_ok [OF replicate(2)] by blast
qed (simp add: conns_ok_def peer_close_def)

lemma transport_run_ok: "(transport_step N)\<^sup>*\<^sup>* p p' \<Longrightarrow> conns_ok p \<Longrightarrow> conns_ok p' \<and> pt_members p' = pt_members p"
  by (induction rule: rtranclp_induct) (auto dest: transport_step_ok)

section \<open>Peers on a cluster\<close>

definition cluster_peers :: "'db env \<Rightarrow> 'db nodes peer_net" where
  "cluster_peers E =
     \<lparr>pn_NewClient = \<lambda>_. None,
      pn_RequestVote = \<lambda>a _ c t. on_node a (\<lambda>s. map_prod Inr id (RequestVote E t c s)),
      pn_Replicate = \<lambda>a _ l t es. on_node a (\<lambda>s. map_prod Inr id (Replicate E t l es s))\<rparr>"

lemma cluster_peers_simps:
  "up w a s \<Longrightarrow> pn_RequestVote (cluster_peers E) a d c t w =
     (Inr (fst (RequestVote E t c s)), AList.update a (snd (RequestVote E t c s)) w)"
  "up w a s \<Longrightarrow> pn_Replicate (cluster_peers E) a d l t es w =
     (Inr (fst (Replicate E t l es s)), AList.update a (snd (Replicate E t l es s)) w)"
  by (simp_all add: cluster_peers_def on_node_up map_prod_def split: prod.split)

lemma cluster_client:
  assumes "conns_ok p"
  obtains p' where "peer_client (cluster_peers E) k p = (Inr (member_addr p k), p')" "conns_ok p'"
proof -
  obtain r p' where res: "peer_client (cluster_peers E) k p = (r, p')" by force
  then obtain c where "r = Inr c"
    by (auto simp: peer_client_def cluster_peers_def Let_def split: option.splits)
  then show thesis using that peer_client_ok [OF assms res] res by metis
qed

text \<open>
  C37. Whatever calls a node has made to its peers before, and even after its transport was closed once,
  a call to a peer reaches the server at that member's address: a vote request and a replication
  request are answered by the election and replication handlers of that node, and no other node is
  touched.
\<close>

theorem peer_calls_reach_members:
  assumes "(transport_step (cluster_peers E))\<^sup>*\<^sup>* (newPeerTransport ms self) p" "map_of ms k = Some a" "up w a s"
  shows "\<exists>p1 p2.
    SendVote (cluster_peers E) k t c p w = (Inr (fst (RequestVote E t c s)), p1, AList.update a (snd (RequestVote E t c s)) w) \<and>
    sendReplicate (cluster_peers E) k t l es p w =
      (Inr (fst (Replicate E t l es s)), p2, AList.update a (snd (Replicate E t l es s)) w)"
proof -
  have p: "conns_ok p" "pt_members p = ms"
    using transport_run_ok [OF assms(1)] by (simp_all add: conns_ok_def newPeerTransport_def)
  have a: "member_addr p k = a" using assms(2) p(2) by (simp add: member_addr_def)
  obtain p' where c: "peer_client (cluster_peers E) k p = (Inr a, p')" using cluster_client [OF p(1)] a by metis
  show ?thesis
    by (intro exI [of _ p'])
      (simp add: SendVote_def sendReplicate_def c cluster_peers_simps [OF assms(3)])
qed

theorem peer_calls_reach_members_witness:
  "\<exists>p1. SendVote (cluster_peers sample_env) ''n1'' 7 ''n2'' (newPeerTransport [(''n1'', '':7070'')] ''n2'') sample_nodes =
     (Inr (fst (RequestVote sample_env 7 ''n2'' (sample_server Leader [] []))), p1,
      AList.update '':7070'' (snd (RequestVote sample_env 7 ''n2'' (sample_server Leader [] []))) sample_nodes)"
  using peer_calls_reach_members [OF rtranclp.rtrancl_refl _ sample_nodes_up(1),
      where ms = "[(''n1'', '':7070'')]" and self = "''n2''" and k = "''n1''" and E = sample_env and t = 7 and c = "''n2''"]
  by fastforce

end
