(* ===== verification/Go_Flags.thy ===== *)
theory Go_Flags
  imports Go_Strings
begin

text \<open>
  What the command-line tools use of Go's packages \<open>flag\<close>, \<open>strconv\<close> and \<open>time\<close>: \<open>FlagSet.Parse\<close>, and the
  values its flags accept (\<open>ParseBool\<close>, \<open>ParseInt\<close> with base 0 and 64 bits, \<open>ParseDuration\<close>). An error
  of a value parser is \<^const>\<open>None\<close>: a flag set only asks whether there is one.
\<close>

section \<open>Numbers\<close>

definition is_digit :: "char \<Rightarrow> bool" where
  "is_digit c \<longleftrightarrow> 48 \<le> (of_char c :: nat) \<and> (of_char c :: nat) \<le> 57"

definition digit_of :: "char \<Rightarrow> nat" where
  "digit_of c = of_char c - 48"

text \<open>A digit or a letter as a digit; \<open>lower_char\<close> as in \<open>strconv\<close>.\<close>

definition digit_val :: "char \<Rightarrow> nat option" where
  "digit_val c =
     (if is_digit c then Some (digit_of c)
      else let l = of_char (lower_char c) :: nat in if 97 \<le> l \<and> l \<le> 122 then Some (l - 97 + 10) else None)"

text \<open>The digits of a number below \<open>2\<^sup>6\<^sup>4\<close>; underscores are skipped.\<close>

fun uint_digits :: "nat \<Rightarrow> nat \<Rightarrow> string \<Rightarrow> nat option" where
  "uint_digits b n [] = Some n"
| "uint_digits b n (c # s) =
     (if c = CHR ''_'' then uint_digits b n s
      else case digit_val c of
             None \<Rightarrow> None
           | Some d \<Rightarrow> if b \<le> d \<or> 2 ^ 64 \<le> n * b + d then None else uint_digits b (n * b + d) s)"

definition base_prefix :: "string \<Rightarrow> nat \<times> string" where
  "base_prefix s =
     (case s of
        [] \<Rightarrow> (10, s)
      | z # r \<Rightarrow>
          if z \<noteq> CHR ''0'' then (10, s)
          else if 3 \<le> length s \<and> lower_char (hd r) = CHR ''b'' then (2, tl r)
          else if 3 \<le> length s \<and> lower_char (hd r) = CHR ''o'' then (8, tl r)
          else if 3 \<le> length s \<and> lower_char (hd r) = CHR ''x'' then (16, tl r)
          else (8, r))"

text \<open>Underscores must separate digits or the base prefix from a digit.\<close>

datatype saw = Saw_Start | Saw_Digit | Saw_Underscore | Saw_Other

fun underscores_ok :: "bool \<Rightarrow> saw \<Rightarrow> string \<Rightarrow> bool" where
  "underscores_ok hex p [] \<longleftrightarrow> p \<noteq> Saw_Underscore"
| "underscores_ok hex p (c # s) \<longleftrightarrow>
     (if is_digit c \<or> hex \<and> lower_char c \<in> set ''abcdef'' then underscores_ok hex Saw_Digit s
      else if c = CHR ''_'' then p = Saw_Digit \<and> underscores_ok hex Saw_Underscore s
      else p \<noteq> Saw_Underscore \<and> underscores_ok hex Saw_Other s)"

definition underscoreOK :: "string \<Rightarrow> bool" where
  "underscoreOK s =
     (let s = (case s of c # r \<Rightarrow> if c = CHR ''-'' \<or> c = CHR ''+'' then r else s | [] \<Rightarrow> s)
      in case s of
           z # x # r \<Rightarrow>
             if z = CHR ''0'' \<and> lower_char x \<in> set ''box'' then underscores_ok (lower_char x = CHR ''x'') Saw_Digit r
             else underscores_ok False Saw_Start s
         | _ \<Rightarrow> underscores_ok False Saw_Start s)"

definition ParseUint :: "string \<Rightarrow> nat option" where
  "ParseUint s =
     (if s = [] then None
      else case base_prefix s of
             (b, r) \<Rightarrow>
               (case uint_digits b 0 r of
                  None \<Rightarrow> None
                | Some n \<Rightarrow> if CHR ''_'' \<in> set r \<and> \<not> underscoreOK s then None else Some n))"

text \<open>A sign in front, as \<open>ParseInt\<close> and \<open>ParseDuration\<close> read it.\<close>

definition sign_of :: "string \<Rightarrow> bool \<times> string" where
  "sign_of s =
     (case s of
        c # r \<Rightarrow> if c = CHR ''-'' then (True, r) else if c = CHR ''+'' then (False, r) else (False, s)
      | [] \<Rightarrow> (False, s))"

definition ParseInt :: "string \<Rightarrow> int option" where
  "ParseInt s =
     (case sign_of s of
        (neg, r) \<Rightarrow>
          (case ParseUint r of
             None \<Rightarrow> None
           | Some n \<Rightarrow>
               if \<not> neg \<and> 2 ^ 63 \<le> n \<or> neg \<and> 2 ^ 63 < n then None
               else Some (if neg then - int n else int n)))"

definition ParseBool :: "string \<Rightarrow> bool option" where
  "ParseBool s =
     (if s \<in> set [''1'', ''t'', ''T'', ''true'', ''TRUE'', ''True''] then Some True
      else if s \<in> set [''0'', ''f'', ''F'', ''false'', ''FALSE'', ''False''] then Some False
      else None)"

section \<open>Durations\<close>

fun leadingInt :: "nat \<Rightarrow> string \<Rightarrow> (nat \<times> string) option" where
  "leadingInt x [] = Some (x, [])"
| "leadingInt x (c # s) =
     (if \<not> is_digit c then Some (x, c # s)
      else if 2 ^ 63 div 10 < x \<or> 2 ^ 63 < x * 10 + digit_of c then None
      else leadingInt (x * 10 + digit_of c) s)"

text \<open>
  The digits after the point as an integer and the power of ten to divide by; digits that do not fit
  any more are dropped. \<open>full\<close> is the local variable \<open>overflow\<close>.
\<close>

fun leadingFraction :: "nat \<Rightarrow> f64 \<Rightarrow> bool \<Rightarrow> string \<Rightarrow> nat \<times> f64 \<times> string" where
  "leadingFraction x scale full [] = (x, scale, [])"
| "leadingFraction x scale full (c # s) =
     (if \<not> is_digit c then (x, scale, c # s)
      else if full \<or> (2 ^ 63 - 1) div 10 < x \<or> 2 ^ 63 < x * 10 + digit_of c then leadingFraction x scale True s
      else leadingFraction (x * 10 + digit_of c) (f_mul scale (Fin 10)) False s)"

text \<open>Microseconds are written with \<open>u\<close>, with U+00B5 or with U+03BC.\<close>

definition unitMap :: "(string \<times> nat) list" where
  "unitMap =
     [(''ns'', 1), (''us'', 10 ^ 3), ([CHR 0xC2, CHR 0xB5, CHR ''s''], 10 ^ 3), ([CHR 0xCE, CHR 0xBC, CHR ''s''], 10 ^ 3),
      (''ms'', 10 ^ 6), (''s'', 10 ^ 9), (''m'', 60 * 10 ^ 9), (''h'', 3600 * 10 ^ 9)]"

text \<open>
  \<open>uint64(float64(f) * (float64(unit) / scale))\<close>. The divisor is a power of ten and the product is at
  most about one hour, so both operations stay finite.
\<close>

definition fraction_ns :: "nat \<Rightarrow> nat \<Rightarrow> f64 \<Rightarrow> nat" where
  "fraction_ns f unit scale =
     (case scale of
        Fin d \<Rightarrow> (case f_of_int (int unit) of
                    Fin u \<Rightarrow> (case f_mul (f_of_int (int f)) (fl (u / d)) of Fin r \<Rightarrow> nat \<lfloor>r\<rfloor> | _ \<Rightarrow> 0)
                  | _ \<Rightarrow> 0)
      | _ \<Rightarrow> 0)"

text \<open>
  The parts of one turn of the loop of \<open>ParseDuration\<close>: what follows a point (with whether there were
  digits), the unit, and the whole turn: the nanoseconds of a number with its unit, and the rest.
\<close>

definition fraction_part :: "string \<Rightarrow> nat \<times> f64 \<times> bool \<times> string" where
  "fraction_part s =
     (case s of
        [] \<Rightarrow> (0, Fin 1, False, s)
      | c # r \<Rightarrow>
          if c = CHR ''.'' then (case leadingFraction 0 (Fin 1) False r of (f, scale, r') \<Rightarrow> (f, scale, length r' \<noteq> length r, r'))
          else (0, Fin 1, False, s))"

definition in_unit :: "char \<Rightarrow> bool" where
  "in_unit c \<longleftrightarrow> c \<noteq> CHR ''.'' \<and> \<not> is_digit c"

definition unit_ns :: "nat \<Rightarrow> nat \<Rightarrow> f64 \<Rightarrow> string \<Rightarrow> nat option" where
  "unit_ns v f scale u =
     (case map_of unitMap u of
        None \<Rightarrow> None
      | Some unit \<Rightarrow>
          if 2 ^ 63 div unit < v then None
          else let v = v * unit; v = (if 0 < f then v + fraction_ns f unit scale else v)
               in if 2 ^ 63 < v then None else Some v)"

definition duration_term :: "string \<Rightarrow> (nat \<times> string) option" where
  "duration_term s =
     (if in_unit (hd s) then None
      else case leadingInt 0 s of
             None \<Rightarrow> None
           | Some (v, s1) \<Rightarrow>
               (case fraction_part s1 of
                  (f, scale, post, s2) \<Rightarrow>
                    if length s1 = length s \<and> \<not> post then None
                    else if takeWhile in_unit s2 = [] then None
                    else map_option (\<lambda>v. (v, dropWhile in_unit s2)) (unit_ns v f scale (takeWhile in_unit s2))))"

lemma leadingInt_length: "leadingInt x s = Some (v, r) \<Longrightarrow> length r \<le> length s"
  by (induction x s rule: leadingInt.induct) (auto split: if_splits)

lemma leadingFraction_length: "leadingFraction x scale full s = (f, d, r) \<Longrightarrow> length r \<le> length s"
  by (induction x scale full s rule: leadingFraction.induct) (auto split: if_splits)


lemma fraction_part_length: "fraction_part s = (f, scale, post, r) \<Longrightarrow> length r \<le> length s"
  using leadingFraction_length by (fastforce simp: fraction_part_def split: list.splits if_splits prod.splits)

lemma duration_term_length:
  assumes "duration_term s = Some (v, r)"
  shows "length r < length s"
proof -
  obtain v1 s1 f scale post s2 where s: "leadingInt 0 s = Some (v1, s1)" "fraction_part s1 = (f, scale, post, s2)"
    "takeWhile in_unit s2 \<noteq> []" "r = dropWhile in_unit s2"
    using assms by (auto simp: duration_term_def split: if_splits option.splits prod.splits)
  have "length s2 = length (takeWhile in_unit s2) + length r" unfolding s(4) by (metis length_append takeWhile_dropWhile_id)
  then have "length r < length s2" using s(3) by simp
  then show ?thesis using leadingInt_length [OF s(1)] fraction_part_length [OF s(2)] by linarith
qed

text \<open>The sum is a \<open>uint64\<close> and may wrap around before it is compared.\<close>

function duration_loop :: "nat \<Rightarrow> string \<Rightarrow> nat option" where
  "duration_loop d s =
     (if s = [] then Some d
      else case duration_term s of
             None \<Rightarrow> None
           | Some (v, r) \<Rightarrow> if 2 ^ 63 < (d + v) mod 2 ^ 64 then None else duration_loop ((d + v) mod 2 ^ 64) r)"
  by pat_completeness auto
termination
  by (relation "measure (\<lambda>(d, s). length s)") (auto dest: duration_term_length)

declare duration_loop.simps [simp del]

definition ParseDuration :: "string \<Rightarrow> duration option" where
  "ParseDuration s =
     (case sign_of s of
        (neg, r) \<Rightarrow>
          if r = ''0'' then Some 0
          else if r = [] then None
          else case duration_loop 0 r of
                 None \<Rightarrow> None
               | Some d \<Rightarrow> if neg then Some (i64 (- i64 (int d))) else if 2 ^ 63 - 1 < d then None else Some (int d))"

section \<open>Flag sets\<close>

text \<open>
  A flag is its name, whether it is boolean (then it takes its value only after an equals sign), and its
  \<open>Set\<close>, which works on the variables \<open>'r\<close> of the program.
\<close>

type_synonym 'r formal = "(string \<times> bool \<times> (string \<Rightarrow> 'r \<Rightarrow> 'r option)) list"

definition flag_String :: "string \<Rightarrow> ((string \<Rightarrow> string) \<Rightarrow> 'r \<Rightarrow> 'r) \<Rightarrow> string \<times> bool \<times> (string \<Rightarrow> 'r \<Rightarrow> 'r option)" where
  "flag_String name upd = (name, False, \<lambda>v r. Some (upd (\<lambda>_. v) r))"

definition flag_Int :: "string \<Rightarrow> ((int \<Rightarrow> int) \<Rightarrow> 'r \<Rightarrow> 'r) \<Rightarrow> string \<times> bool \<times> (string \<Rightarrow> 'r \<Rightarrow> 'r option)" where
  "flag_Int name upd = (name, False, \<lambda>v r. map_option (\<lambda>n. upd (\<lambda>_. n) r) (ParseInt v))"

definition flag_Duration :: "string \<Rightarrow> ((duration \<Rightarrow> duration) \<Rightarrow> 'r \<Rightarrow> 'r) \<Rightarrow> string \<times> bool \<times> (string \<Rightarrow> 'r \<Rightarrow> 'r option)" where
  "flag_Duration name upd = (name, False, \<lambda>v r. map_option (\<lambda>n. upd (\<lambda>_. n) r) (ParseDuration v))"

definition flag_Bool :: "string \<Rightarrow> ((bool \<Rightarrow> bool) \<Rightarrow> 'r \<Rightarrow> 'r) \<Rightarrow> string \<times> bool \<times> (string \<Rightarrow> 'r \<Rightarrow> 'r option)" where
  "flag_Bool name upd = (name, True, \<lambda>v r. map_option (\<lambda>b. upd (\<lambda>_. b) r) (ParseBool v))"

definition flag_Var :: "string \<Rightarrow> (string \<Rightarrow> 'r \<Rightarrow> 'r) \<Rightarrow> string \<times> bool \<times> (string \<Rightarrow> 'r \<Rightarrow> 'r option)" where
  "flag_Var name set_var = (name, False, \<lambda>v r. Some (set_var v r))"

datatype flag_error =
    ErrHelp | Flag_BadSyntax string | Flag_NotDefined string | Flag_BadBool string string
  | Flag_NeedsArgument string | Flag_BadValue string string

text \<open>\<open>parseOne\<close>: the flags end, a flag was set, or an error; with the arguments that are left.\<close>

datatype 'r parse_one = Flags_End "string list" | Flag_Seen 'r "string list" | Flag_Failed flag_error

definition flag_set :: "flag_error \<Rightarrow> (string \<Rightarrow> 'r \<Rightarrow> 'r option) \<Rightarrow> string \<Rightarrow> string list \<Rightarrow> 'r \<Rightarrow> 'r parse_one" where
  "flag_set e setv v args r = (case setv v r of None \<Rightarrow> Flag_Failed e | Some r' \<Rightarrow> Flag_Seen r' args)"

text \<open>The name and, after the first equals sign behind the first character, the value.\<close>

definition split_flag :: "string \<Rightarrow> string \<times> string option" where
  "split_flag name =
     (case name of
        [] \<Rightarrow> ([], None)
      | c # r \<Rightarrow> (case Cut r (CHR ''='') of (k, v, ok) \<Rightarrow> (c # k, if ok then Some v else None)))"

definition parse_flag :: "'r formal \<Rightarrow> string \<Rightarrow> string option \<Rightarrow> string list \<Rightarrow> 'r \<Rightarrow> 'r parse_one" where
  "parse_flag fs name val args r =
     (case map_of fs name of
        None \<Rightarrow> Flag_Failed (if name = ''help'' \<or> name = ''h'' then ErrHelp else Flag_NotDefined name)
      | Some (True, setv) \<Rightarrow>
          (case val of Some v \<Rightarrow> flag_set (Flag_BadBool v name) setv v args r
                     | None \<Rightarrow> flag_set (Flag_BadBool ''true'' name) setv ''true'' args r)
      | Some (False, setv) \<Rightarrow>
          (case (val, args) of
             (Some v, _) \<Rightarrow> flag_set (Flag_BadValue v name) setv v args r
           | (None, v # args) \<Rightarrow> flag_set (Flag_BadValue v name) setv v args r
           | (None, []) \<Rightarrow> Flag_Failed (Flag_NeedsArgument name)))"

definition parseOne :: "'r formal \<Rightarrow> string list \<Rightarrow> 'r \<Rightarrow> 'r parse_one" where
  "parseOne fs args r =
     (case args of
        [] \<Rightarrow> Flags_End []
      | s # rest \<Rightarrow>
          if length s < 2 \<or> hd s \<noteq> CHR ''-'' then Flags_End args
          else if s = ''--'' then Flags_End rest
          else
            let name = (if s ! 1 = CHR ''-'' then drop 2 s else drop 1 s) in
            if hd name = CHR ''-'' \<or> hd name = CHR ''='' then Flag_Failed (Flag_BadSyntax s)
            else case split_flag name of (k, val) \<Rightarrow> parse_flag fs k val rest r)"

lemma parse_flag_length: "parse_flag fs k val args r = Flag_Seen r' args' \<Longrightarrow> length args' \<le> length args"
  by (auto simp: parse_flag_def flag_set_def split: option.splits prod.splits bool.splits list.splits)

lemma parseOne_length: "parseOne fs args r = Flag_Seen r' args' \<Longrightarrow> length args' < length args"
  by (auto simp: parseOne_def Let_def less_Suc_eq_le split: list.splits if_splits prod.splits dest!: parse_flag_length)

text \<open>\<open>Parse\<close> with \<open>ExitOnError\<close>: an error ends the program, with status 0 after a call for help, else 2.\<close>

function Parse :: "'r formal \<Rightarrow> string list \<Rightarrow> 'r \<Rightarrow> flag_error + 'r \<times> string list" where
  "Parse fs args r =
     (case parseOne fs args r of
        Flags_End rest \<Rightarrow> Inr (r, rest)
      | Flag_Failed e \<Rightarrow> Inl e
      | Flag_Seen r' args' \<Rightarrow> Parse fs args' r')"
  by pat_completeness auto
termination
  by (relation "measure (\<lambda>(fs, args, r). length args)") (auto dest: parseOne_length)

declare Parse.simps [simp del]

definition flag_exit :: "flag_error \<Rightarrow> nat" where
  "flag_exit e = (if e = ErrHelp then 0 else 2)"


section \<open>What is printed is read back\<close>

lemma digit_char:
  assumes "d < 10"
  shows "is_digit (char_of (48 + d :: nat))" "digit_of (char_of (48 + d :: nat)) = d"
    "digit_val (char_of (48 + d :: nat)) = Some d" "char_of (48 + d :: nat) \<noteq> CHR ''_''"
proof -
  have c: "of_char (char_of (48 + d :: nat) :: char) = 48 + d" using assms by simp
  show "is_digit (char_of (48 + d :: nat))" "digit_of (char_of (48 + d :: nat)) = d"
    using c assms by (simp_all add: is_digit_def digit_of_def)
  then show "digit_val (char_of (48 + d :: nat)) = Some d" by (simp add: digit_val_def)
  have "(of_char CHR ''_'' :: nat) \<noteq> 48 + d" using assms by simp
  then show "char_of (48 + d :: nat) \<noteq> CHR ''_''" using c by metis
qed

lemma leadingInt_digits: "n \<le> 2 ^ 63 \<Longrightarrow> leadingInt 0 (digits n @ s) = leadingInt n s"
proof (induction n arbitrary: s rule: digits.induct)
  case (1 n)
  show ?case
  proof (cases "n < 10")
    case False
    have "n div 10 \<le> 2 ^ 63 div 10" using 1(2) by (rule div_le_mono)
    then show ?thesis using 1 False by (subst digits.simps) (simp add: digit_char)
  qed (subst digits.simps, simp add: digit_char)
qed

lemma uint_digits_digits: "n < 2 ^ 64 \<Longrightarrow> uint_digits 10 0 (digits n @ s) = uint_digits 10 n s"
proof (induction n arbitrary: s rule: digits.induct)
  case (1 n)
  show ?case
  proof (cases "n < 10")
    case False
    have "\<not> 10 \<le> n mod 10" by (simp add: linorder_not_le)
    then show ?thesis using 1 False by (subst digits.simps) (simp add: digit_char)
  qed (subst digits.simps, simp add: digit_char)
qed

lemma digits_chars: "c \<in> set (digits n) \<Longrightarrow> is_digit c"
proof (induction n rule: digits.induct)
  case (1 n)
  then show ?case by (subst (asm) (2) digits.simps) (auto simp: digit_char split: if_splits)
qed

lemma digits_hd:
  "digits n \<noteq> []" "n \<noteq> 0 \<Longrightarrow> hd (digits n) \<noteq> CHR ''0''" "is_digit (hd (digits n))"
proof -
  show 1: "digits n \<noteq> []" for n by (subst digits.simps) simp
  show "is_digit (hd (digits n))" using digits_chars [OF hd_in_set [OF 1 [of n]]] .
  show "n \<noteq> 0 \<Longrightarrow> hd (digits n) \<noteq> CHR ''0''"
  proof (induction n rule: digits.induct)
    case (1 n)
    show ?case
    proof (cases "n < 10")
      case True
      then have "(of_char (char_of (48 + n :: nat) :: char) :: nat) \<noteq> of_char CHR ''0''" using 1(2) by simp
      then show ?thesis using True by (subst digits.simps) (metis list.sel(1))
    next
      case False
      then show ?thesis using 1 \<open>\<And>n. digits n \<noteq> []\<close> by (subst digits.simps) simp
    qed
  qed
qed

lemma sign_of_digits: "sign_of (digits n @ s) = (False, digits n @ s)"
proof -
  obtain c r where c: "digits n = c # r" "is_digit c" using digits_hd [of n] by (cases "digits n") auto
  then have "c \<noteq> CHR ''-''" "c \<noteq> CHR ''+''" by (auto simp: is_digit_def)
  then show ?thesis using c by (simp add: sign_of_def)
qed

lemma ParseUint_digits:
  assumes "n < 2 ^ 64"
  shows "ParseUint (digits n) = Some n"
proof (cases "n = 0")
  case True
  have "ParseUint ''0'' = Some 0" by code_simp
  moreover have "digits 0 = ''0''" by code_simp
  ultimately show ?thesis using True by simp
next
  case False
  have "base_prefix (digits n) = (10, digits n)"
    using digits_hd(1) [of n] digits_hd(2) [OF False] by (cases "digits n") (simp_all add: base_prefix_def)
  moreover have "CHR ''_'' \<notin> set (digits n)" using digits_chars [of "CHR ''_''" n] by (auto simp: is_digit_def)
  ultimately show ?thesis using uint_digits_digits [OF assms, of "[]"] digits_hd(1) by (simp add: ParseUint_def)
qed

lemma ParseInt_FormatInt:
  assumes "min_int64 \<le> i" "i \<le> max_int64"
  shows "ParseInt (FormatInt i) = Some i"
proof (cases "i < 0")
  case True
  then have "nat (- i) \<le> 2 ^ 63" using assms(1) by (simp add: min_int64_def)
  then show ?thesis using True ParseUint_digits [of "nat (- i)"] by (simp add: ParseInt_def FormatInt_def sign_of_def)
next
  case False
  then have "nat i < 2 ^ 63" using assms(2) by (simp add: max_int64_def)
  then show ?thesis using False ParseUint_digits [of "nat i"] sign_of_digits [of "nat i" "[]"] by (simp add: ParseInt_def FormatInt_def)
qed

lemma duration_term_digits:
  assumes "n \<le> 2 ^ 63"
  shows "duration_term (digits n @ ''ns'') = Some (n, [])"
proof -
  have u: "in_unit CHR ''n''" "in_unit CHR ''s''" "\<not> is_digit CHR ''n''" by (simp_all add: in_unit_def is_digit_def)
  have "leadingInt 0 (digits n @ ''ns'') = Some (n, ''ns'')" using leadingInt_digits [OF assms, of "''ns''"] u(3) by simp
  moreover have "\<not> in_unit (hd (digits n @ ''ns''))" using digits_hd [of n] by (simp add: in_unit_def)
  ultimately show ?thesis using u assms digits_hd(1) [of n]
    by (simp add: duration_term_def fraction_part_def unit_ns_def unitMap_def)
qed

lemma ParseDuration_ns:
  assumes "min_int64 \<le> i" "i \<le> max_int64"
  shows "ParseDuration (FormatInt i @ ''ns'') = Some i"
proof -
  have loop: "duration_loop 0 (digits n @ ''ns'') = Some n" if "n \<le> 2 ^ 63" for n
    using duration_term_digits [OF that] that by (simp add: duration_loop.simps)
  have ne: "digits n @ ''ns'' \<noteq> ''0''" for n by (cases "digits n") simp_all
  show ?thesis
  proof (cases "i < 0")
    case True
    then have n: "nat (- i) \<le> 2 ^ 63" using assms(1) by (simp add: min_int64_def)
    have "i64 (- i64 (- i)) = i"
    proof (cases "i = min_int64")
      case True
      then show ?thesis by (simp add: min_int64_def i64_def)
    qed (use assms \<open>i < 0\<close> in \<open>simp add: i64_id min_int64_def\<close>)
    then show ?thesis using True loop [OF n] ne [of "nat (- i)"] by (simp add: ParseDuration_def FormatInt_def sign_of_def)
  next
    case False
    then have n: "nat i < 2 ^ 63" using assms(2) by (simp add: max_int64_def)
    then show ?thesis using False loop [of "nat i"] ne [of "nat i"] sign_of_digits [of "nat i" "''ns''"]
      by (simp add: ParseDuration_def FormatInt_def)
  qed
qed

text \<open>A flag with its value in the next argument, and a flag with its value after an equals sign.\<close>

definition flag_name :: "string \<Rightarrow> bool" where
  "flag_name k \<longleftrightarrow> k \<noteq> [] \<and> hd k \<noteq> CHR ''-'' \<and> CHR ''='' \<notin> set k"

lemma parseOne_flag:
  assumes "flag_name k"
  shows "parseOne fs ((''--'' @ k) # args) r = parse_flag fs k None args r"
    and "parseOne fs ((''--'' @ k @ CHR ''='' # v) # args) r = parse_flag fs k (Some v) args r"
proof -
  obtain c k' where k: "k = c # k'" "c \<noteq> CHR ''-''" "c \<noteq> CHR ''=''" "CHR ''='' \<notin> set k'"
    using assms by (cases k) (auto simp: flag_name_def)
  have "Cut k' (CHR ''='') = (k', [], False)" using k(4) by (induction k') (auto simp: Cut_def)
  then show "parseOne fs ((''--'' @ k) # args) r = parse_flag fs k None args r"
    using k by (simp add: parseOne_def split_flag_def)
  show "parseOne fs ((''--'' @ k @ CHR ''='' # v) # args) r = parse_flag fs k (Some v) args r"
    using k Cut_append [OF k(4), of v] by (simp add: parseOne_def split_flag_def)
qed

lemma Parse_flag:
  assumes "flag_name k" "map_of fs k = Some (False, setv)" "setv v r = Some r'"
  shows "Parse fs ((''--'' @ k) # v # args) r = Parse fs args r'"
    and "Parse fs ((''--'' @ k @ CHR ''='' # v) # args) r = Parse fs args r'"
  using assms(2,3) parseOne_flag [OF assms(1), of fs]
  by (subst Parse.simps, simp add: parse_flag_def flag_set_def)+

lemma Parse_end: "Parse fs [] r = Inr (r, [])" "hd s \<noteq> CHR ''-'' \<Longrightarrow> Parse fs (s # args) r = Inr (r, s # args)"
  by (subst Parse.simps, simp add: parseOne_def)+

end
