(* ===== verification/Go_Tabwriter.thy ===== *)
theory Go_Tabwriter
  imports Go_Strings
begin

text \<open>
  Go's package \<open>text/tabwriter\<close> as \<open>schedulerctl\<close> uses it, \<open>NewWriter(out, 0, 2, 2, ' ', 0)\<close>: cells end
  with a tab, columns are padded with blanks to their widest cell plus two, and the last cell of a line
  is not padded. A column is a run of lines that have a cell in it; a form feed ends all columns. The
  escape byte 0xFF is left out: it does not occur in UTF-8, which every string of a message is.
\<close>

section \<open>Formatting\<close>

text \<open>The runes of a text in UTF-8: the bytes that do not continue a rune.\<close>

definition RuneCount :: "string \<Rightarrow> nat" where
  "RuneCount s = length (filter (\<lambda>c. \<not> (128 \<le> (of_char c :: nat) \<and> (of_char c :: nat) < 192)) s)"

definition padding :: nat where
  "padding = 2"

definition pad_cell :: "nat \<Rightarrow> string \<Rightarrow> string" where
  "pad_cell w c = c @ replicate (w - RuneCount c) (CHR '' '')"

text \<open>\<open>writeLines\<close> for one line: the first cells have a width, the others are written as they are.\<close>

definition write_line :: "nat list \<Rightarrow> string list \<Rightarrow> string" where
  "write_line ws l = concat (map2 pad_cell ws l) @ concat (drop (length ws) l)"

definition has_cell :: "nat \<Rightarrow> string list \<Rightarrow> bool" where
  "has_cell col l \<longleftrightarrow> col < length l - 1"

text \<open>The measure: how many columns the lines still have to the right.\<close>

definition columns_left :: "nat \<Rightarrow> string list list \<Rightarrow> nat" where
  "columns_left col ls = sum_list (map (\<lambda>l. Suc (length l - col)) ls)"

lemma columns_left_simps [simp]:
  "columns_left col [] = 0" "columns_left col (l # ls) = Suc (length l - col) + columns_left col ls"
  "columns_left col (ls @ ls') = columns_left col ls + columns_left col ls'"
  by (simp_all add: columns_left_def)

lemma columns_left_block: "\<forall>l \<in> set ls. has_cell col l \<Longrightarrow> ls \<noteq> [] \<Longrightarrow> columns_left (Suc col) ls < columns_left col ls"
proof (induction ls)
  case (Cons l ls)
  then show ?case by (cases "ls = []") (auto simp: has_cell_def)
qed simp

function tab_format :: "nat list \<Rightarrow> string list list \<Rightarrow> string list" where
  "tab_format ws [] = []"
| "tab_format ws (l # ls) =
     (let col = length ws in
      if \<not> has_cell col l then write_line ws l # tab_format ws ls
      else
        let block = l # takeWhile (has_cell col) ls;
            width = fold (\<lambda>l w. max w (RuneCount (l ! col) + padding)) block 0
        in tab_format (ws @ [width]) block @ tab_format ws (dropWhile (has_cell col) ls))"
  by pat_completeness auto
termination
proof (relation "measure (\<lambda>(ws, ls). columns_left (length ws) ls)", goal_cases)
  case (3 ws l ls col block width)
  then have "columns_left (Suc (length ws)) block < columns_left (length ws) block"
    by (intro columns_left_block) (auto dest: set_takeWhileD)
  also have "\<dots> \<le> columns_left (length ws) (l # takeWhile (has_cell col) ls @ dropWhile (has_cell col) ls)"
    using 3 by (simp del: takeWhile_dropWhile_id)
  finally show ?case using 3 by simp
next
  case (4 ws l ls col block width)
  have "columns_left (length ws) (dropWhile (has_cell col) ls) \<le> columns_left (length ws) (takeWhile (has_cell col) ls @ dropWhile (has_cell col) ls)"
    by (simp del: takeWhile_dropWhile_id)
  then show ?case by simp
qed simp_all

declare tab_format.simps(2) [simp del]

text \<open>The whole writer: text in, text out.\<close>

definition cells_of :: "string \<Rightarrow> string list" where
  "cells_of l = Split (map (\<lambda>c. if c = CHR 0x0B then CHR 0x09 else c) l) (CHR 0x09)"

definition tabwriter :: "string \<Rightarrow> string" where
  "tabwriter text =
     Join (concat (map (\<lambda>part. tab_format [] (map cells_of (Split part (CHR 0x0A)))) (Split text (CHR 0x0C)))) [CHR 0x0A]"

section \<open>Tables\<close>

text \<open>
  In a table, where all rows have the same number of cells, every column has one width, two more than
  its widest cell, and so every cell starts where the heading of its column starts.
\<close>

definition col_width :: "string list list \<Rightarrow> nat \<Rightarrow> nat" where
  "col_width rows c = fold (\<lambda>l w. max w (RuneCount (l ! c) + padding)) rows 0"

lemma tab_format_done: "\<forall>l \<in> set rows. length l \<le> Suc (length ws) \<Longrightarrow> tab_format ws rows = map (write_line ws) rows"
proof (induction rows)
  case (Cons l rows)
  then have "\<not> has_cell (length ws) l" by (auto simp: has_cell_def)
  then show ?case using Cons by (simp add: tab_format.simps(2) Let_def)
qed simp

lemma tab_format_table:
  assumes "\<forall>l \<in> set rows. length l = Suc n" "c \<le> n" "rows \<noteq> []"
  shows "tab_format (map (col_width rows) [0..<c]) rows = map (write_line (map (col_width rows) [0..<n])) rows"
  using assms(2)
proof (induction "n - c" arbitrary: c)
  case 0
  then have "c = n" by simp
  then show ?case using assms(1) by (simp add: tab_format_done)
next
  case (Suc m)
  then have c: "c < n" by simp
  have all: "\<forall>l \<in> set rows. has_cell c l" using assms(1) c by (auto simp: has_cell_def)
  obtain l rs where rows: "rows = l # rs" using assms(3) by (cases rows) auto
  have block: "has_cell c l" "takeWhile (has_cell c) rs = rs" "dropWhile (has_cell c) rs = []"
    using all by (auto simp: rows takeWhile_eq_all_conv)
  have "tab_format (map (col_width rows) [0..<c]) rows = tab_format (map (col_width rows) [0..<c] @ [col_width rows c]) rows"
    unfolding rows by (subst tab_format.simps(2)) (simp add: Let_def col_width_def block)
  also have "\<dots> = tab_format (map (col_width rows) [0..<Suc c]) rows" by simp
  also have "\<dots> = map (write_line (map (col_width rows) [0..<n])) rows" by (rule Suc(1)) (use Suc(2) c in simp_all)
  finally show ?case .
qed

lemma col_width_bound:
  assumes "l \<in> set rows"
  shows "RuneCount (l ! c) + padding \<le> col_width rows c"
proof -
  let ?f = "\<lambda>l w. max w (RuneCount (l ! c) + padding)"
  have mono: "w \<le> fold ?f rows w" for rows w
  proof (induction rows arbitrary: w)
    case (Cons a rows)
    show ?case using Cons [of "?f a w"] by simp
  qed simp
  have "RuneCount (l ! c) + padding \<le> fold ?f rows w" for w
    using assms
  proof (induction rows arbitrary: w)
    case (Cons a rows)
    show ?case
    proof (cases "l = a")
      case True
      then show ?thesis using mono [of "?f a w" rows] by simp
    qed (use Cons in simp)
  qed simp
  then show ?thesis by (simp add: col_width_def)
qed

text \<open>Rows as \<open>Fprintf\<close> writes them, cells without tabs or line ends.\<close>

definition row_text :: "string list \<Rightarrow> string" where
  "row_text r = Join r [CHR 0x09] @ [CHR 0x0A]"

definition plain_cell :: "string \<Rightarrow> bool" where
  "plain_cell c \<longleftrightarrow> set c \<inter> {CHR 0x09, CHR 0x0A, CHR 0x0B, CHR 0x0C} = {}"

lemma set_Join: "set (Join xs sep) \<subseteq> \<Union> (set ` set xs) \<union> set sep"
  by (induction xs sep rule: Join.induct) auto

lemma cells_of_row:
  assumes "r \<noteq> []" "\<forall>c \<in> set r. plain_cell c"
  shows "cells_of (Join r [CHR 0x09]) = r"
proof -
  have "CHR 0x0B \<notin> set (Join r [CHR 0x09])" using set_Join [of r "[CHR 0x09]"] assms(2) by (fastforce simp: plain_cell_def)
  then have "map (\<lambda>c. if c = CHR 0x0B then CHR 0x09 else c) (Join r [CHR 0x09]) = Join r [CHR 0x09]"
    by (intro map_idI) auto
  then show ?thesis using assms by (auto simp: cells_of_def plain_cell_def intro!: Split_Join)
qed

lemma Split_rows:
  assumes "\<forall>r \<in> set rows. CHR 0x0A \<notin> set (Join r [CHR 0x09])"
  shows "Split (concat (map row_text rows)) (CHR 0x0A) = map (\<lambda>r. Join r [CHR 0x09]) rows @ [[]]"
  using assms by (induction rows) (auto simp: row_text_def Split_append)

lemma Join_snoc_Nil: "Join (xs @ [[]]) [c] = concat (map (\<lambda>x. x @ [c]) xs)"
proof (induction xs)
  case (Cons x xs)
  then show ?case by (cases "xs @ [[]]") auto
qed simp

text \<open>The table comes out with every row on its own line and every cell padded to the width of its column.\<close>

lemma tabwriter_table:
  assumes len: "\<forall>r \<in> set rows. length r = Suc n" and plain: "\<forall>r \<in> set rows. \<forall>c \<in> set r. plain_cell c" and ne: "rows \<noteq> []"
  shows "tabwriter (concat (map row_text rows)) = concat (map (\<lambda>r. write_line (map (col_width rows) [0..<n]) r @ [CHR 0x0A]) rows)"
proof -
  have chars: "CHR 0x0A \<notin> set (Join r [CHR 0x09]) \<and> CHR 0x0C \<notin> set (Join r [CHR 0x09])" if "r \<in> set rows" for r
    using set_Join [of r "[CHR 0x09]"] plain that by (fastforce simp: plain_cell_def)
  then have "Split (concat (map row_text rows)) (CHR 0x0C) = [concat (map row_text rows)]"
    by (intro Split_single) (auto simp: row_text_def)
  moreover have "map cells_of (map (\<lambda>r. Join r [CHR 0x09]) rows) = rows"
    unfolding map_map comp_def by (rule map_idI) (rule cells_of_row, use len plain in auto)
  moreover have "Split (concat (map row_text rows)) (CHR 0x0A) = map (\<lambda>r. Join r [CHR 0x09]) rows @ [[]]"
    using chars by (intro Split_rows) blast
  moreover have "cells_of [] = [[]]" by (simp add: cells_of_def)
  ultimately have "tabwriter (concat (map row_text rows)) = Join (tab_format [] (rows @ [[[]]])) [CHR 0x0A]"
    by (simp add: tabwriter_def)
  also have "tab_format [] (rows @ [[[]]]) = map (write_line (map (col_width rows) [0..<n])) rows @ [[]]"
  proof (cases n)
    case 0
    then show ?thesis using len by (simp add: tab_format_done write_line_def)
  next
    case (Suc m)
    obtain l rs where rows: "rows = l # rs" using ne by (cases rows) auto
    have block: "has_cell 0 l" "takeWhile (has_cell 0) (rs @ [[[]]]) = rs" "dropWhile (has_cell 0) (rs @ [[[]]]) = [[[]]]"
      using len Suc by (auto simp: rows has_cell_def takeWhile_append dropWhile_append)
    have "tab_format [] (rows @ [[[]]]) = tab_format [col_width rows 0] rows @ tab_format [] [[[]]]"
      unfolding rows append_Cons by (subst tab_format.simps(2)) (simp add: Let_def col_width_def block)
    also have "tab_format [col_width rows 0] rows = map (write_line (map (col_width rows) [0..<n])) rows"
      using tab_format_table [OF len _ ne, of 1] Suc by simp
    finally show ?thesis by (simp add: tab_format_done write_line_def)
  qed
  finally show ?thesis by (simp add: Join_snoc_Nil comp_def)
qed

end
