(* ===== verification/Cli.thy ===== *)
theory Cli
  imports Ctl Agent Server_State Go_Flags Go_Tabwriter
begin

text \<open>
  The command-line tools (\<open>cmd/schedulerctl\<close>, \<open>cmd/scheduler\<close>, \<open>cmd/worker\<close>) and the log level of
  \<open>internal/logging\<close>, from the arguments of the process on. A command answers what it prints to the
  standard output, or its error.
\<close>

section \<open>Names of states\<close>

fun JobState_String :: "JobState \<Rightarrow> string" where
  "JobState_String JOB_STATE_UNSPECIFIED = ''JOB_STATE_UNSPECIFIED''"
| "JobState_String JOB_STATE_PENDING = ''JOB_STATE_PENDING''"
| "JobState_String JOB_STATE_QUEUED = ''JOB_STATE_QUEUED''"
| "JobState_String JOB_STATE_RUNNING = ''JOB_STATE_RUNNING''"
| "JobState_String JOB_STATE_SUCCEEDED = ''JOB_STATE_SUCCEEDED''"
| "JobState_String JOB_STATE_FAILED = ''JOB_STATE_FAILED''"
| "JobState_String JOB_STATE_CANCELED = ''JOB_STATE_CANCELED''"
| "JobState_String (JOB_STATE_unnamed n) = FormatInt n"

fun WorkerState_String :: "WorkerState \<Rightarrow> string" where
  "WorkerState_String WORKER_STATE_UNSPECIFIED = ''WORKER_STATE_UNSPECIFIED''"
| "WorkerState_String WORKER_STATE_ALIVE = ''WORKER_STATE_ALIVE''"
| "WorkerState_String WORKER_STATE_SUSPECT = ''WORKER_STATE_SUSPECT''"
| "WorkerState_String WORKER_STATE_DEAD = ''WORKER_STATE_DEAD''"
| "WorkerState_String (WORKER_STATE_unnamed n) = FormatInt n"

fun SchedulerRole_String :: "SchedulerRole \<Rightarrow> string" where
  "SchedulerRole_String SCHEDULER_ROLE_UNSPECIFIED = ''SCHEDULER_ROLE_UNSPECIFIED''"
| "SchedulerRole_String SCHEDULER_ROLE_LEADER = ''SCHEDULER_ROLE_LEADER''"
| "SchedulerRole_String SCHEDULER_ROLE_FOLLOWER = ''SCHEDULER_ROLE_FOLLOWER''"
| "SchedulerRole_String (SCHEDULER_ROLE_unnamed n) = FormatInt n"

definition shortState :: "JobState \<Rightarrow> string" where
  "shortState s = TrimPrefix (JobState_String s) ''JOB_STATE_''"

definition shortRole :: "SchedulerRole \<Rightarrow> string" where
  "shortRole r = TrimPrefix (SchedulerRole_String r) ''SCHEDULER_ROLE_''"

definition shortWorkerState :: "WorkerState \<Rightarrow> string" where
  "shortWorkerState s = TrimPrefix (WorkerState_String s) ''WORKER_STATE_''"

definition parseState :: "string \<Rightarrow> JobState" where
  "parseState s =
     (let s = ToLower (TrimSpace s) in
      if s = ''pending'' then JOB_STATE_PENDING
      else if s = ''queued'' then JOB_STATE_QUEUED
      else if s = ''running'' then JOB_STATE_RUNNING
      else if s = ''succeeded'' then JOB_STATE_SUCCEEDED
      else if s = ''failed'' then JOB_STATE_FAILED
      else if s = ''canceled'' then JOB_STATE_CANCELED
      else JOB_STATE_UNSPECIFIED)"

section \<open>Commands of schedulerctl\<close>

text \<open>The loops over comma-separated flags: the seed list, and the dependencies of \<open>submit\<close>.\<close>

definition ctl_seeds :: "string \<Rightarrow> string list" where
  "ctl_seeds addr = filter (\<lambda>s. s \<noteq> '''') (map TrimSpace (Split addr (CHR '','')))"

definition submit_deps :: "string \<Rightarrow> string list" where
  "submit_deps dependsOn = filter (\<lambda>d. d \<noteq> '''') (map TrimSpace (Split dependsOn (CHR '','')))"

text \<open>Errors of the commands; \<open>Cli_Flag\<close> is an exit from within \<open>Parse\<close>.\<close>

datatype cli_error = Cli_Usage string | Cli_CommandRequired | Cli_Ctl ctl_error | Cli_Flag flag_error

text \<open>The flags of \<open>submit\<close>; \<open>--priority\<close> and \<open>--max-attempts\<close> are machine integers of 64 bits.\<close>

record submit_flags =
  sf_id :: string
  sf_name :: string
  sf_command :: string
  sf_args :: "string list"
  sf_priority :: int
  sf_dependsOn :: string
  sf_cron :: string
  sf_after :: duration
  sf_maxAttempts :: int

text \<open>A flag that may be repeated; \<open>String\<close> prints its default in the help.\<close>

definition stringSlice_Set :: "string \<Rightarrow> string list \<Rightarrow> string list" where
  "stringSlice_Set v s = s @ [v]"

definition stringSlice_String :: "string list \<Rightarrow> string" where
  "stringSlice_String s = Join s '',''"

definition submit_formal :: "submit_flags formal" where
  "submit_formal =
     [flag_String ''id'' sf_id_update, flag_String ''name'' sf_name_update, flag_String ''command'' sf_command_update,
      flag_Var ''arg'' (\<lambda>v. sf_args_update (stringSlice_Set v)), flag_Int ''priority'' sf_priority_update,
      flag_String ''depends-on'' sf_dependsOn_update, flag_String ''cron'' sf_cron_update,
      flag_Duration ''after'' sf_after_update, flag_Int ''max-attempts'' sf_maxAttempts_update]"

definition submit_defaults :: submit_flags where
  "submit_defaults =
     \<lparr>sf_id = '''', sf_name = '''', sf_command = '''', sf_args = [], sf_priority = 0, sf_dependsOn = '''', sf_cron = '''',
      sf_after = 0, sf_maxAttempts = 0\<rparr>"

definition submit_params :: "submit_flags \<Rightarrow> SubmitParams" where
  "submit_params f =
     \<lparr>sp_ID = sf_id f, sp_Name = sf_name f, sp_Command = sf_command f, sp_Args = sf_args f,
      sp_Priority = i32 (sf_priority f), sp_DependsOn = submit_deps (sf_dependsOn f), sp_Cron = sf_cron f,
      sp_After = sf_after f, sp_MaxAttempts = i32 (sf_maxAttempts f)\<rparr>"

definition cmdSubmit :: "('w, 'z) host_scheme \<Rightarrow> string list \<Rightarrow> string list \<Rightarrow> 'w \<Rightarrow> (cli_error + string) \<times> 'w" where
  "cmdSubmit H seeds argv w =
     (case Parse submit_formal argv submit_defaults of
        Inl e \<Rightarrow> (Inl (Cli_Flag e), w)
      | Inr (f, _) \<Rightarrow>
          if sf_command f = '''' then (Inl Cli_CommandRequired, w)
          else case ctl_Submit H seeds (submit_params f) w of
                 (Inl e, w) \<Rightarrow> (Inl (Cli_Ctl e), w)
               | (Inr jobID, w) \<Rightarrow> (Inr (jobID @ [CHR 0x0A]), w))"

definition out_line :: "string \<Rightarrow> string \<Rightarrow> string" where
  "out_line label v = label @ v @ [CHR 0x0A]"

definition printJobDetail :: "Job \<Rightarrow> string" where
  "printJobDetail j =
     out_line ''id:        '' (j_Id j) @
     out_line ''name:      '' (j_Name j) @
     out_line ''state:     '' (shortState (j_State j)) @
     out_line ''priority:  '' (FormatInt (j_Priority j)) @
     out_line ''attempt:   '' (FormatInt (j_Attempt j)) @
     out_line ''command:   '' (TaskSpec_GetCommand (j_Spec j) @ '' '' @ Join (TaskSpec_GetArgs (j_Spec j)) '' '') @
     (if j_DependsOn j \<noteq> [] then out_line ''dependsOn: '' (Join (j_DependsOn j) '', '') else '''') @
     (if Schedule_GetCronExpr (j_Schedule j) \<noteq> '''' then out_line ''cron:      '' (Schedule_GetCronExpr (j_Schedule j)) else '''') @
     (if j_LastError j \<noteq> '''' then out_line ''lastError: '' (j_LastError j) else '''')"

definition cmdGet :: "('w, 'z) net_scheme \<Rightarrow> string list \<Rightarrow> string list \<Rightarrow> 'w \<Rightarrow> (cli_error + string) \<times> 'w" where
  "cmdGet H seeds argv w =
     (case argv of
        [k] \<Rightarrow> (case ctl_Get H seeds k w of
                  (Inl e, w) \<Rightarrow> (Inl (Cli_Ctl e), w)
                | (Inr job, w) \<Rightarrow> (Inr (printJobDetail job), w))
      | _ \<Rightarrow> (Inl (Cli_Usage ''get <job-id>''), w))"

definition list_row :: "Job \<Rightarrow> string list" where
  "list_row j =
     [j_Id j, j_Name j, FormatInt (j_Priority j), shortState (j_State j), FormatInt (j_Attempt j),
      FormatInt (int (length (j_DependsOn j)))]"

definition list_header :: "string list" where
  "list_header = [''ID'', ''NAME'', ''PRIORITY'', ''STATE'', ''ATTEMPT'', ''DEPS'']"

definition list_formal :: "string formal" where
  "list_formal = [flag_String ''state'' (\<lambda>f. f)]"

definition cmdList :: "('w, 'z) net_scheme \<Rightarrow> string list \<Rightarrow> string list \<Rightarrow> 'w \<Rightarrow> (cli_error + string) \<times> 'w" where
  "cmdList H seeds argv w =
     (case Parse list_formal argv '''' of
        Inl e \<Rightarrow> (Inl (Cli_Flag e), w)
      | Inr (st, _) \<Rightarrow>
          (case ctl_List H seeds (parseState st) w of
             (Inl e, w) \<Rightarrow> (Inl (Cli_Ctl e), w)
           | (Inr js, w) \<Rightarrow> (Inr (tabwriter (concat (map row_text (list_header # map list_row js)))), w)))"

definition cmdCancel :: "('w, 'z) net_scheme \<Rightarrow> string list \<Rightarrow> string list \<Rightarrow> 'w \<Rightarrow> (cli_error + string) \<times> 'w" where
  "cmdCancel H seeds argv w =
     (case argv of
        [k] \<Rightarrow> (case ctl_Cancel H seeds k w of
                  (Inl e, w) \<Rightarrow> (Inl (Cli_Ctl e), w)
                | (Inr job, w) \<Rightarrow> (Inr (j_Id job @ '' -> '' @ shortState (j_State job) @ [CHR 0x0A]), w))
      | _ \<Rightarrow> (Inl (Cli_Usage ''cancel <job-id>''), w))"

definition scheduler_rows :: "SchedulerNode list \<Rightarrow> string list list" where
  "scheduler_rows ns = [''SCHEDULER'', ''ADDRESS'', ''ROLE''] # map (\<lambda>n. [sn_Id n, sn_Address n, shortRole (sn_Role n)]) ns"

definition worker_rows :: "WorkerInfo list \<Rightarrow> string list list" where
  "worker_rows ks =
     [''WORKER'', ''ADDRESS'', ''STATE'', ''RUNNING''] #
     map (\<lambda>k. [w_Id k, w_Address k, shortWorkerState (w_State k), FormatInt (w_RunningTasks k)]) ks"

definition cmdStatus :: "('w, 'z) net_scheme \<Rightarrow> string list \<Rightarrow> 'w \<Rightarrow> (cli_error + string) \<times> 'w" where
  "cmdStatus H seeds w =
     (case ctl_Status H seeds w of
        (Inl e, w) \<Rightarrow> (Inl (Cli_Ctl e), w)
      | (Inr st, w) \<Rightarrow>
          let holder = LeaseInfo_GetHolderId (cs_Lease st);
              holder = (if holder = '''' then ''(none)'' else holder)
          in (Inr (out_line ''leader: '' holder @ out_line ''term:   '' (FormatInt (LeaseInfo_GetTerm (cs_Lease st))) @ [CHR 0x0A] @
                   tabwriter (concat (map row_text (scheduler_rows (cs_Schedulers st)))) @ [CHR 0x0A] @
                   tabwriter (concat (map row_text (worker_rows (cs_Workers st))))), w))"

text \<open>\<open>internal/buildinfo\<close>: two variables that the linker may set.\<close>

record buildinfo =
  Version :: string
  Commit :: string

definition local_build :: buildinfo where
  "local_build = \<lparr>Version = ''dev'', Commit = ''none''\<rparr>"

definition version_line :: "string \<Rightarrow> buildinfo \<Rightarrow> string" where
  "version_line program B = program @ '' '' @ Version B @ '' ('' @ Commit B @ '')'' @ [CHR 0x0A]"

text \<open>The usage; the dash in its first line is U+2014.\<close>

definition usage :: string where
  "usage = concat (map (\<lambda>l. l @ [CHR 0x0A])
     [''schedulerctl '' @ [CHR 0xE2, CHR 0x80, CHR 0x94] @ '' distsched operator CLI'',
      '''',
      ''Usage:'',
      ''  schedulerctl [--addr a,b,c] <command> [flags]'',
      '''',
      ''Commands:'',
      ''  submit   submit a job'',
      ''  get      show a job by ID'',
      ''  list     list jobs (optionally --state)'',
      ''  cancel   cancel a job by ID'',
      ''  status   show cluster leader, term, and workers'',
      ''  version  print version''])"

text \<open>
  How \<open>schedulerctl\<close> ends: with what it printed and status 0, or with another status and a diagnosis on
  the standard error: the usage, an error of a flag (with the help of its flag set), or \<open>error:\<close> and
  the error. A call for help ends with status 0 and the help.
\<close>

datatype cli_diag = Diag_Usage string | Diag_Flag flag_error | Diag_Error cli_error

datatype cli_end = Printed string | Exited nat cli_diag

definition ctl_end :: "(cli_error + string) \<times> 'w \<Rightarrow> cli_end \<times> 'w" where
  "ctl_end r =
     (case r of
        (Inr out, w) \<Rightarrow> (Printed out, w)
      | (Inl (Cli_Flag e), w) \<Rightarrow> (Exited (flag_exit e) (Diag_Flag e), w)
      | (Inl e, w) \<Rightarrow> (Exited 1 (Diag_Error e), w))"

definition ctl_formal :: "string formal" where
  "ctl_formal = [flag_String ''addr'' (\<lambda>f. f)]"

definition ctl_main :: "buildinfo \<Rightarrow> ('w, 'z) host_scheme \<Rightarrow> string list \<Rightarrow> 'w \<Rightarrow> cli_end \<times> 'w" where
  "ctl_main B H argv w =
     (case Parse ctl_formal argv ''localhost:7070'' of
        Inl e \<Rightarrow> (Exited (flag_exit e) (Diag_Flag e), w)
      | Inr (addr, []) \<Rightarrow> (Exited 2 (Diag_Usage usage), w)
      | Inr (addr, c # args) \<Rightarrow>
          let seeds = ctl_seeds addr in
          if c = ''submit'' then ctl_end (cmdSubmit H seeds args w)
          else if c = ''get'' then ctl_end (cmdGet H seeds args w)
          else if c = ''list'' then ctl_end (cmdList H seeds args w)
          else if c = ''cancel'' then ctl_end (cmdCancel H seeds args w)
          else if c = ''status'' then ctl_end (cmdStatus H seeds w)
          else if c = ''version'' then (Printed (version_line ''schedulerctl'' B), w)
          else (Exited 2 (Diag_Usage usage), w))"

section \<open>Flags of the daemons\<close>

datatype Level = DebugLevel | InfoLevel | WarnLevel | ErrorLevel

definition log_level :: "string \<Rightarrow> Level" where
  "log_level level =
     (let l = ToLower level in
      if l = ''debug'' then DebugLevel else if l = ''warn'' then WarnLevel
      else if l = ''error'' then ErrorLevel else InfoLevel)"

definition worker_seeds :: "string \<Rightarrow> string list" where
  "worker_seeds schedulers = filter (\<lambda>s. s \<noteq> '''') (map TrimSpace (Split schedulers (CHR '','')))"

text \<open>
  \<open>--capacity\<close> is a machine integer of 64 bits, cut to 32 bits.
\<close>

definition worker_config :: "string \<Rightarrow> string \<Rightarrow> int \<Rightarrow> duration \<Rightarrow> duration \<Rightarrow> agent_config" where
  "worker_config schedulers advertise capacity hbInterval pollInterval =
     \<lparr>ac_Schedulers = worker_seeds schedulers, ac_Advertise = advertise, ac_Capacity = i32 capacity, ac_Labels = [],
      ac_HeartbeatInterval = hbInterval, ac_PollInterval = pollInterval\<rparr>"

text \<open>The error of \<open>parseMembers\<close> quotes the offending part.\<close>

fun parse_parts :: "string list \<Rightarrow> Member list \<Rightarrow> string + Member list" where
  "parse_parts [] members = Inr members"
| "parse_parts (part # parts) members =
     (let part = TrimSpace part in
      if part = [] then parse_parts parts members
      else let (k, addr, ok) = Cut part (CHR ''='')
           in if \<not> ok \<or> k = [] \<or> addr = [] then Inl part
              else parse_parts parts (members @ [\<lparr>m_ID = TrimSpace k, m_Address = TrimSpace addr\<rparr>]))"

definition parseMembers :: "string \<Rightarrow> string + Member list" where
  "parseMembers s = (let s = TrimSpace s in if s = [] then Inr [] else parse_parts (Split s (CHR '','')) [])"

definition scheduler_config :: "string \<Rightarrow> string \<Rightarrow> string \<Rightarrow> string \<Rightarrow> duration \<Rightarrow> string \<Rightarrow> string + Config" where
  "scheduler_config nodeID listen dataDir peerList hbTimeout metricsAddr =
     map_sum id
       (\<lambda>members. \<lparr>cfg_NodeID = nodeID, cfg_ListenAddr = listen, cfg_DataDir = dataDir, cfg_Members = members,
          cfg_HeartbeatTimeout = hbTimeout, cfg_LeaseTTL = 0, cfg_HeartbeatInterval = 0, cfg_ElectionTimeoutMin = 0,
          cfg_ElectionTimeoutMax = 0, cfg_ReaperInterval = 0, cfg_MetricsAddr = metricsAddr\<rparr>)
       (parseMembers peerList)"

section \<open>Round trips\<close>

text \<open>A member as it may stand in \<open>--peers\<close>, and the flag that lists given members.\<close>

definition member_ok :: "Member \<Rightarrow> bool" where
  "member_ok m \<longleftrightarrow>
     m_ID m \<noteq> [] \<and> m_Address m \<noteq> [] \<and> trimmed (m_ID m) \<and> trimmed (m_Address m) \<and>
     CHR ''='' \<notin> set (m_ID m) \<and> CHR '','' \<notin> set (m_ID m) \<and> CHR '','' \<notin> set (m_Address m)"

definition member_flag :: "Member \<Rightarrow> string" where
  "member_flag m = m_ID m @ CHR ''='' # m_Address m"

lemma member_flag_not_Nil [simp]: "member_flag m \<noteq> []" "[] \<noteq> member_flag m"
  by (simp_all add: member_flag_def)

lemma trimmed_member: "member_ok m \<Longrightarrow> trimmed (member_flag m)"
  by (simp add: member_ok_def member_flag_def trimmed_pair)

lemma parse_member_flags: "list_all member_ok ms \<Longrightarrow> parse_parts (map member_flag ms) acc = Inr (acc @ ms)"
proof (induction ms arbitrary: acc)
  case (Cons m ms)
  then have m: "member_ok m" "TrimSpace (member_flag m) = member_flag m" by (simp_all add: trimmed_member TrimSpace_trimmed)
  then have "Cut (member_flag m) (CHR ''='') = (m_ID m, m_Address m, True)"
    by (simp add: member_flag_def member_ok_def Cut_append)
  moreover have "TrimSpace (m_ID m) = m_ID m" "TrimSpace (m_Address m) = m_Address m"
    using m by (simp_all add: member_ok_def TrimSpace_trimmed)
  ultimately show ?case using Cons m by (simp add: member_ok_def Let_def)
qed simp

lemma parse_parts_ok:
  assumes "parse_parts parts acc = Inr ms" "list_all member_ok acc" "\<forall>p \<in> set parts. CHR '','' \<notin> set p"
  shows "list_all member_ok ms"
  using assms
proof (induction parts arbitrary: acc)
  case (Cons part parts)
  obtain k addr ok where cut: "Cut (TrimSpace part) (CHR ''='') = (k, addr, ok)" by (metis prod_cases3)
  show ?case
  proof (cases "TrimSpace part = []")
    case False
    have kept: "ok" "k \<noteq> []" "addr \<noteq> []" using Cons.prems(1) False cut by (auto simp: Let_def split: if_splits)
    let ?m = "\<lparr>m_ID = TrimSpace k, m_Address = TrimSpace addr\<rparr>"
    have part: "TrimSpace part = k @ CHR ''='' # addr" and k: "CHR ''='' \<notin> set k"
      using Cut_found [of "TrimSpace part" "CHR ''=''" k addr] cut kept(1) by simp_all
    have "trimmed (k @ CHR ''='' # addr)" using trimmed_TrimSpace [of part] part by simp
    then have "lead space_runes k = 0" "lead (map rev space_runes) (rev addr) = 0"
      using lead_of_prefix [OF space_runes_facts(1)] lead_of_prefix [OF space_runes_facts(2), of "rev addr"]
      by (auto simp: trimmed_def)
    then have "TrimSpace k \<noteq> []" "TrimSpace addr \<noteq> []" using kept TrimSpace_not_Nil by blast+
    moreover have "CHR '','' \<notin> set k" "CHR '','' \<notin> set addr"
      using Cons.prems(3) set_TrimSpace [of part] part by (auto simp: subset_iff)
    ultimately have "member_ok ?m"
      using k set_TrimSpace [of k] set_TrimSpace [of addr] by (auto simp: member_ok_def trimmed_TrimSpace)
    moreover have "parse_parts parts (acc @ [?m]) = Inr ms"
      using Cons.prems(1) False cut kept by (simp add: Let_def)
    ultimately show ?thesis using Cons by auto
  qed (use Cons in auto)
qed simp

text \<open>
  The flag \<open>--peers\<close> that lists some members is parsed back to exactly these members, in their
  order: IDs and addresses must not be empty, have no white space at their ends and no comma, and an
  ID no equals sign.
\<close>

lemma members_round_trip:
  assumes "list_all member_ok ms"
  shows "parseMembers (Join (map member_flag ms) '','') = Inr ms"
proof (cases "ms = []")
  case False
  have "trimmed (Join (map member_flag ms) '','')"
    by (rule trimmed_Join) (use assms in \<open>auto simp: list_all_iff trimmed_member\<close>)
  moreover have "Split (Join (map member_flag ms) '','') (CHR '','') = map member_flag ms"
    by (rule Split_Join) (use False assms in \<open>auto simp: list_all_iff member_ok_def member_flag_def\<close>)
  ultimately show ?thesis using assms by (auto simp: parseMembers_def Let_def TrimSpace_trimmed parse_member_flags)
qed (simp add: parseMembers_def TrimSpace_trimmed)

lemma members_round_trip_example:
  "parseMembers ''n1=h1:7070,n2=h2:7070'' =
     Inr [\<lparr>m_ID = ''n1'', m_Address = ''h1:7070''\<rparr>, \<lparr>m_ID = ''n2'', m_Address = ''h2:7070''\<rparr>]"
proof -
  have "list_all member_ok [\<lparr>m_ID = ''n1'', m_Address = ''h1:7070''\<rparr>, \<lparr>m_ID = ''n2'', m_Address = ''h2:7070''\<rparr>]"
    by code_simp
  from members_round_trip [OF this] show ?thesis by (simp add: member_flag_def)
qed

text \<open>
  C39. Whatever \<open>parseMembers\<close> accepts is a membership: no member has an empty ID or address, or white
  space at their ends. In particular a part like \<open>n1=\<close> or \<open>=addr\<close> padded with blanks is refused.
\<close>

theorem parsed_members_well_formed:
  assumes "parseMembers s = Inr ms"
  shows "list_all member_ok ms"
proof (cases "TrimSpace s = []")
  case False
  then have "parse_parts (Split (TrimSpace s) (CHR '','')) [] = Inr ms" using assms by (simp add: parseMembers_def Let_def)
  then show ?thesis by (rule parse_parts_ok) (auto dest: Split_no_sep)
qed (use assms in \<open>simp add: parseMembers_def\<close>)

theorem parsed_members_well_formed_witness:
  "list_all member_ok [\<lparr>m_ID = ''n1'', m_Address = ''h1''\<rparr>, \<lparr>m_ID = ''n2'', m_Address = ''h2''\<rparr>]"
  by (rule parsed_members_well_formed [of "'' n1 = h1,, n2=h2 ''"]) code_simp

text \<open>
  The seed list, the dependencies of \<open>submit\<close> and the schedulers of a worker are read back as they
  were joined by commas, when none is empty, has white space at its ends or contains a comma.
\<close>

definition comma_item :: "string \<Rightarrow> bool" where
  "comma_item x \<longleftrightarrow> x \<noteq> [] \<and> trimmed x \<and> CHR '','' \<notin> set x"

lemma comma_lists:
  assumes "list_all comma_item xs"
  shows "ctl_seeds (Join xs '','') = xs" "submit_deps (Join xs '','') = xs" "worker_seeds (Join xs '','') = xs"
proof -
  have "filter (\<lambda>s. s \<noteq> []) (map TrimSpace (Split (Join xs '','') (CHR '',''))) = xs"
  proof (cases "xs = []")
    case False
    have "Split (Join xs '','') (CHR '','') = xs"
      by (rule Split_Join) (use False assms in \<open>auto simp: list_all_iff comma_item_def\<close>)
    moreover have "map TrimSpace xs = xs" "filter (\<lambda>s. s \<noteq> []) xs = xs"
      using assms by (auto simp: list_all_iff comma_item_def TrimSpace_trimmed intro: map_idI)
    ultimately show ?thesis by simp
  qed (simp add: TrimSpace_trimmed)
  then show "ctl_seeds (Join xs '','') = xs" "submit_deps (Join xs '','') = xs" "worker_seeds (Join xs '','') = xs"
    by (simp_all add: ctl_seeds_def submit_deps_def worker_seeds_def)
qed

text \<open>The state filter of \<open>list\<close> accepts every name of a state that the tables print.\<close>

lemma state_round_trip:
  assumes "\<And>n. st \<noteq> JOB_STATE_unnamed n"
  shows "parseState (shortState st) = st"
proof (cases st)
  case (JOB_STATE_unnamed n)
  then show ?thesis using assms by blast
qed (simp; code_simp)+


section \<open>Whole command lines\<close>

text \<open>A command line that spells out the parameters of a submission.\<close>

definition submit_argv :: "SubmitParams \<Rightarrow> string list" where
  "submit_argv p =
     [''--id'', sp_ID p, ''--name'', sp_Name p, ''--command'', sp_Command p] @
     concat (map (\<lambda>a. [''--arg'', a]) (sp_Args p)) @
     [''--priority='' @ FormatInt (sp_Priority p), ''--depends-on'', Join (sp_DependsOn p) '','', ''--cron'', sp_Cron p,
      ''--after='' @ FormatInt (sp_After p) @ ''ns'', ''--max-attempts='' @ FormatInt (sp_MaxAttempts p)]"

definition params_ok :: "SubmitParams \<Rightarrow> bool" where
  "params_ok p \<longleftrightarrow>
     sp_Command p \<noteq> [] \<and> list_all comma_item (sp_DependsOn p) \<and> min_int64 \<le> sp_After p \<and> sp_After p \<le> max_int64 \<and>
     - (2 ^ 31) \<le> sp_Priority p \<and> sp_Priority p < 2 ^ 31 \<and> - (2 ^ 31) \<le> sp_MaxAttempts p \<and> sp_MaxAttempts p < 2 ^ 31"

lemmas flag_defs = flag_String_def flag_Int_def flag_Duration_def flag_Bool_def flag_Var_def

lemma submit_formal_flags:
  "map_of submit_formal ''id'' = Some (False, \<lambda>v r. Some (r\<lparr>sf_id := v\<rparr>))"
  "map_of submit_formal ''name'' = Some (False, \<lambda>v r. Some (r\<lparr>sf_name := v\<rparr>))"
  "map_of submit_formal ''command'' = Some (False, \<lambda>v r. Some (r\<lparr>sf_command := v\<rparr>))"
  "map_of submit_formal ''arg'' = Some (False, \<lambda>v r. Some (r\<lparr>sf_args := sf_args r @ [v]\<rparr>))"
  "map_of submit_formal ''priority'' = Some (False, \<lambda>v r. map_option (\<lambda>n. r\<lparr>sf_priority := n\<rparr>) (ParseInt v))"
  "map_of submit_formal ''depends-on'' = Some (False, \<lambda>v r. Some (r\<lparr>sf_dependsOn := v\<rparr>))"
  "map_of submit_formal ''cron'' = Some (False, \<lambda>v r. Some (r\<lparr>sf_cron := v\<rparr>))"
  "map_of submit_formal ''after'' = Some (False, \<lambda>v r. map_option (\<lambda>n. r\<lparr>sf_after := n\<rparr>) (ParseDuration v))"
  "map_of submit_formal ''max-attempts'' = Some (False, \<lambda>v r. map_option (\<lambda>n. r\<lparr>sf_maxAttempts := n\<rparr>) (ParseInt v))"
  by (simp_all add: submit_formal_def flag_defs stringSlice_Set_def fun_eq_iff)

lemma Parse_submit:
  "Parse submit_formal (''--id'' # v # args) r = Parse submit_formal args (r\<lparr>sf_id := v\<rparr>)"
  "Parse submit_formal (''--name'' # v # args) r = Parse submit_formal args (r\<lparr>sf_name := v\<rparr>)"
  "Parse submit_formal (''--command'' # v # args) r = Parse submit_formal args (r\<lparr>sf_command := v\<rparr>)"
  "Parse submit_formal (''--arg'' # v # args) r = Parse submit_formal args (r\<lparr>sf_args := sf_args r @ [v]\<rparr>)"
  "ParseInt v = Some n \<Longrightarrow> Parse submit_formal ((''--priority='' @ v) # args) r = Parse submit_formal args (r\<lparr>sf_priority := n\<rparr>)"
  "Parse submit_formal (''--depends-on'' # v # args) r = Parse submit_formal args (r\<lparr>sf_dependsOn := v\<rparr>)"
  "Parse submit_formal (''--cron'' # v # args) r = Parse submit_formal args (r\<lparr>sf_cron := v\<rparr>)"
  "ParseDuration v = Some n \<Longrightarrow> Parse submit_formal ((''--after='' @ v) # args) r = Parse submit_formal args (r\<lparr>sf_after := n\<rparr>)"
  "ParseInt v = Some n \<Longrightarrow>
     Parse submit_formal ((''--max-attempts='' @ v) # args) r = Parse submit_formal args (r\<lparr>sf_maxAttempts := n\<rparr>)"
  using Parse_flag [of "''id''" submit_formal _ v r _ args] Parse_flag [of "''name''" submit_formal _ v r _ args]
    Parse_flag [of "''command''" submit_formal _ v r _ args] Parse_flag [of "''arg''" submit_formal _ v r _ args]
    Parse_flag [of "''priority''" submit_formal _ v r _ args] Parse_flag [of "''depends-on''" submit_formal _ v r _ args]
    Parse_flag [of "''cron''" submit_formal _ v r _ args] Parse_flag [of "''after''" submit_formal _ v r _ args]
    Parse_flag [of "''max-attempts''" submit_formal _ v r _ args]
  by (simp_all add: submit_formal_flags flag_name_def)


lemma Parse_submit_args:
  "Parse submit_formal (concat (map (\<lambda>a. [''--arg'', a]) as) @ args) r = Parse submit_formal args (r\<lparr>sf_args := sf_args r @ as\<rparr>)"
  by (induction as arbitrary: r) (simp_all add: Parse_submit)

lemma Parse_submit_argv:
  assumes "params_ok p"
  obtains f where "Parse submit_formal (submit_argv p) submit_defaults = Inr (f, [])" "submit_params f = p"
proof -
  have ints: "ParseInt (FormatInt (sp_Priority p)) = Some (sp_Priority p)"
    "ParseInt (FormatInt (sp_MaxAttempts p)) = Some (sp_MaxAttempts p)"
    "ParseDuration (FormatInt (sp_After p) @ ''ns'') = Some (sp_After p)"
    using assms by (auto simp: params_ok_def min_int64_def max_int64_def intro!: ParseInt_FormatInt ParseDuration_ns)
  show thesis
  proof (rule that)
    show "Parse submit_formal (submit_argv p) submit_defaults = Inr (\<lparr>sf_id = sp_ID p, sf_name = sp_Name p, sf_command = sp_Command p,
      sf_args = sp_Args p, sf_priority = sp_Priority p, sf_dependsOn = Join (sp_DependsOn p) '','', sf_cron = sp_Cron p,
      sf_after = sp_After p, sf_maxAttempts = sp_MaxAttempts p\<rparr>, [])"
      unfolding submit_argv_def
      by (simp add: Parse_submit(1-4,6,7) Parse_submit_args Parse_submit(5) [OF ints(1), unfolded append.simps]
          Parse_submit(9) [OF ints(2), unfolded append.simps] Parse_submit(8) [OF ints(3), unfolded append.simps]
          Parse_end submit_defaults_def)
  qed (use assms in \<open>simp add: submit_params_def comma_lists params_ok_def i32_id\<close>)
qed

text \<open>
  C38. What the operator writes is what is submitted: a command line that names the schedulers and spells
  out the parameters of a job, whatever characters its texts contain and with any number of arguments,
  makes exactly one submission of these parameters through these schedulers; it prints the ID of the
  job, or ends with status 1 and the error.
\<close>

theorem submit_command_line:
  assumes "list_all comma_item seeds" "params_ok p"
  shows "ctl_main B H ([''--addr'', Join seeds '','', ''submit''] @ submit_argv p) w =
    (case ctl_Submit H seeds p w of
       (Inr k, w') \<Rightarrow> (Printed (k @ [CHR 0x0A]), w')
     | (Inl e, w') \<Rightarrow> (Exited 1 (Diag_Error (Cli_Ctl e)), w'))"
proof -
  have "Parse ctl_formal (''--addr'' # Join seeds '','' # ''submit'' # submit_argv p) ''localhost:7070'' = Inr (Join seeds '','', ''submit'' # submit_argv p)"
    using Parse_flag(1) [of "''addr''" ctl_formal _ "Join seeds '',''" "''localhost:7070''"]
    by (simp add: ctl_formal_def flag_defs flag_name_def Parse_end)
  moreover obtain f where f: "Parse submit_formal (submit_argv p) submit_defaults = Inr (f, [])" "submit_params f = p"
    by (rule Parse_submit_argv [OF assms(2)])
  moreover have "sf_command f \<noteq> []" using f(2) assms(2) by (auto simp: submit_params_def params_ok_def)
  ultimately show ?thesis
    using comma_lists(1) [OF assms(1)] by (auto simp: ctl_main_def cmdSubmit_def ctl_end_def split: prod.splits sum.splits)
qed


definition sample_params :: SubmitParams where
  "sample_params =
     \<lparr>sp_ID = ''a'', sp_Name = ''--name'', sp_Command = ''echo'', sp_Args = [''-n'', ''x=y''], sp_Priority = - 7,
      sp_DependsOn = [''b'', ''c''], sp_Cron = '''', sp_After = 1500, sp_MaxAttempts = 3\<rparr>"

theorem submit_command_line_witness:
  "\<forall>H w. ctl_main local_build H
     [''--addr'', ''h1:7070,h2:7070'', ''submit'', ''--id'', ''a'', ''--name'', ''--name'', ''--command'', ''echo'', ''--arg'', ''-n'',
      ''--arg'', ''x=y'', ''--priority=-7'', ''--depends-on'', ''b,c'', ''--cron'', '''', ''--after=1500ns'', ''--max-attempts=3''] w =
     (case ctl_Submit H [''h1:7070'', ''h2:7070''] sample_params w of
        (Inr k, w') \<Rightarrow> (Printed (k @ [CHR 0x0A]), w')
      | (Inl e, w') \<Rightarrow> (Exited 1 (Diag_Error (Cli_Ctl e)), w'))"
proof (intro allI)
  fix H :: "('w, 'z) host_scheme" and w :: 'w
  have ok: "list_all comma_item [''h1:7070'', ''h2:7070'']" "params_ok sample_params" by code_simp+
  have "submit_argv sample_params = [''--id'', ''a'', ''--name'', ''--name'', ''--command'', ''echo'', ''--arg'', ''-n'',
      ''--arg'', ''x=y'', ''--priority=-7'', ''--depends-on'', ''b,c'', ''--cron'', '''', ''--after=1500ns'', ''--max-attempts=3'']"
    by code_simp
  then show "ctl_main local_build H
     [''--addr'', ''h1:7070,h2:7070'', ''submit'', ''--id'', ''a'', ''--name'', ''--name'', ''--command'', ''echo'', ''--arg'', ''-n'',
      ''--arg'', ''x=y'', ''--priority=-7'', ''--depends-on'', ''b,c'', ''--cron'', '''', ''--after=1500ns'', ''--max-attempts=3''] w =
     (case ctl_Submit H [''h1:7070'', ''h2:7070''] sample_params w of
        (Inr k, w') \<Rightarrow> (Printed (k @ [CHR 0x0A]), w')
      | (Inl e, w') \<Rightarrow> (Exited 1 (Diag_Error (Cli_Ctl e)), w'))"
    using submit_command_line [OF ok, of local_build H w] by simp
qed

end
