(* ===== verification/Daemons.thy ===== *)
theory Daemons
  imports Exclusive Cli
begin

text \<open>
  The two daemons (\<open>cmd/scheduler/main.go\<close>, \<open>cmd/worker/main.go\<close>) from their arguments to their exit
  code. Creating the data directory and what happens while the scheduler serves are parameters. A
  scheduler on its own is the leader as soon as it has started and has recovered the jobs a crash left
  behind.
\<close>

section \<open>The scheduler daemon\<close>

record scheduler_flags =
  sf_version :: bool
  sf_nodeID :: string
  sf_listen :: string
  sf_dataDir :: string
  sf_peers :: string
  sf_hbTimeout :: duration
  sf_metricsAddr :: string
  sf_logLevel :: string

definition scheduler_flag_defaults :: scheduler_flags where
  "scheduler_flag_defaults =
     \<lparr>sf_version = False, sf_nodeID = ''scheduler-1'', sf_listen = '':7070'', sf_dataDir = ''./data'', sf_peers = '''',
      sf_hbTimeout = 15 * second, sf_metricsAddr = '':9090'', sf_logLevel = ''info''\<rparr>"

definition scheduler_formal :: "scheduler_flags formal" where
  "scheduler_formal =
     [flag_Bool ''version'' sf_version_update, flag_String ''node-id'' sf_nodeID_update, flag_String ''listen'' sf_listen_update,
      flag_String ''data-dir'' sf_dataDir_update, flag_String ''peers'' sf_peers_update,
      flag_Duration ''heartbeat-timeout'' sf_hbTimeout_update, flag_String ''metrics-addr'' sf_metricsAddr_update,
      flag_String ''log-level'' sf_logLevel_update]"

text \<open>
  What ends the wait of \<open>main\<close>: a signal, or \<open>Serve\<close> returning. The parameter \<open>serve\<close> is the life of the
  server until then. The answer is the exit code, what was printed to the standard output and the server
  that is left; \<^const>\<open>None\<close> is the panic of \<open>Server_New\<close>.
\<close>

datatype daemon_stop = Signal_Received | Serve_Returned "goerr option"

definition scheduler_run ::
  "'db env \<Rightarrow> nat \<Rightarrow> (string \<Rightarrow> goerr option) \<Rightarrow> ('db server \<Rightarrow> daemon_stop \<times> 'db server) \<Rightarrow> scheduler_flags \<Rightarrow>
   (nat \<times> 'db server option) option" where
  "scheduler_run E tick mkdirAll serve f =
     (case scheduler_config (sf_nodeID f) (sf_listen f) (sf_dataDir f) (sf_peers f) (sf_hbTimeout f) (sf_metricsAddr f) of
        Inl _ \<Rightarrow> Some (1, None)
      | Inr cfg \<Rightarrow>
          if mkdirAll (sf_dataDir f) \<noteq> None then Some (1, None)
          else case Server_New E tick cfg of
            None \<Rightarrow> None
          | Some (Inl _) \<Rightarrow> Some (1, None)
          | Some (Inr srv) \<Rightarrow>
              if env_listen E (sf_listen f) \<noteq> None then Some (1, Some srv)
              else case serve srv of
                (Signal_Received, srv) \<Rightarrow> Some (0, Some (Shutdown srv))
              | (Serve_Returned None, srv) \<Rightarrow> Some (0, Some srv)
              | (Serve_Returned (Some _), srv) \<Rightarrow> Some (1, Some (Shutdown srv)))"

definition scheduler_main ::
  "buildinfo \<Rightarrow> 'db env \<Rightarrow> nat \<Rightarrow> (string \<Rightarrow> goerr option) \<Rightarrow> ('db server \<Rightarrow> daemon_stop \<times> 'db server) \<Rightarrow> string list \<Rightarrow>
   (nat \<times> string \<times> 'db server option) option" where
  "scheduler_main B E tick mkdirAll serve argv =
     (case Parse scheduler_formal argv scheduler_flag_defaults of
        Inl e \<Rightarrow> Some (flag_exit e, '''', None)
      | Inr (f, _) \<Rightarrow>
          if sf_version f then Some (0, version_line ''scheduler'' B, None)
          else map_option (\<lambda>(code, srv). (code, '''', srv)) (scheduler_run E tick mkdirAll serve f))"

section \<open>The worker daemon\<close>

record worker_flags =
  wf_version :: bool
  wf_schedulers :: string
  wf_advertise :: string
  wf_capacity :: int
  wf_hbInterval :: duration
  wf_pollInterval :: duration
  wf_logLevel :: string

definition worker_flag_defaults :: worker_flags where
  "worker_flag_defaults =
     \<lparr>wf_version = False, wf_schedulers = ''localhost:7070'', wf_advertise = '''', wf_capacity = 4,
      wf_hbInterval = 5 * second, wf_pollInterval = second, wf_logLevel = ''info''\<rparr>"

definition worker_formal :: "worker_flags formal" where
  "worker_formal =
     [flag_Bool ''version'' wf_version_update, flag_String ''schedulers'' wf_schedulers_update,
      flag_String ''advertise'' wf_advertise_update, flag_Int ''capacity'' wf_capacity_update,
      flag_Duration ''heartbeat-interval'' wf_hbInterval_update, flag_Duration ''poll-interval'' wf_pollInterval_update,
      flag_String ''log-level'' wf_logLevel_update]"

definition worker_main ::
  "buildinfo \<Rightarrow> ('w, 'z) host_scheme \<Rightarrow> 'w agent_event list \<Rightarrow> 'w agent_event list \<Rightarrow> string list \<Rightarrow> 'w \<Rightarrow>
   (nat \<times> string \<times> 'w) option" where
  "worker_main B H events drainEvents argv w =
     (case Parse worker_formal argv worker_flag_defaults of
        Inl e \<Rightarrow> Some (flag_exit e, '''', w)
      | Inr (f, _) \<Rightarrow>
          if wf_version f then Some (0, version_line ''worker'' B, w)
          else map_option (\<lambda>(ok, clean, a, w). (if ok then 0 else 1, '''', w))
            (agent_Run H events drainEvents
               (agent_New (worker_config (wf_schedulers f) (wf_advertise f) (wf_capacity f) (wf_hbInterval f) (wf_pollInterval f))) w))"

text \<open>Both daemons print their version and end when they are asked to, without touching store or network.\<close>

lemma version_flag:
  "scheduler_main B E tick mkdirAll serve [''--version''] = Some (0, version_line ''scheduler'' B, None)"
  "worker_main B H events drainEvents [''-version''] w = Some (0, version_line ''worker'' B, w)"
proof -
  have "Parse scheduler_formal [''--version''] scheduler_flag_defaults = Inr (scheduler_flag_defaults\<lparr>sf_version := True\<rparr>, [])"
    "Parse worker_formal [''-version''] worker_flag_defaults = Inr (worker_flag_defaults\<lparr>wf_version := True\<rparr>, [])"
    by (subst Parse.simps, simp add: parseOne_def split_flag_def Cut_def parse_flag_def scheduler_formal_def worker_formal_def
        flag_defs flag_set_def ParseBool_def Parse_end)+
  then show "scheduler_main B E tick mkdirAll serve [''--version''] = Some (0, version_line ''scheduler'' B, None)"
    "worker_main B H events drainEvents [''-version''] w = Some (0, version_line ''worker'' B, w)"
    by (simp_all add: scheduler_main_def worker_main_def)
qed

section \<open>A scheduler on its own\<close>

lemma machine_steps_dom: "machine_steps M M' \<Longrightarrow> dom (mc_jobs M') = dom (mc_jobs M)"
proof (induction rule: rtranclp_induct)
  case (step M1 M2)
  from step(2) have "dom (mc_jobs M2) = dom (mc_jobs M1)" by (auto elim!: machine_stepE split: if_splits)
  then show ?case using step(3) by simp
qed simp

lemma single_members:
  assumes "cfg_Members c = []"
  shows "cfg_Members (Config_withDefaults c) =
    [\<lparr>m_ID = cfg_NodeID (Config_withDefaults c), m_Address = cfg_ListenAddr (Config_withDefaults c)\<rparr>]"
  using assms by (simp add: Config_withDefaults_def Let_def)

text \<open>A cluster of one wins its election at the start.\<close>

lemma Node_Start_single:
  assumes "nc_Members (n_cfg n) = [k]" "ss_LoadState ss d \<noteq> None"
  obtains t n' d' where "Node_Start ss dr n d = Some ([OnLeader t], n', d')" "Node_IsLeader n'" "n_cfg n' = n_cfg n"
proof -
  obtain r where r: "ss_LoadState ss d = Some r" using assms(2) by blast
  show thesis
    by (cases r; cases "projr r") (use assms(1) r that in \<open>auto simp: Node_Start_def majority_def Node_IsLeader_def Let_def\<close>)
qed

lemma boot_single:
  assumes E: "steady E" and db: "store_wf E db" "Store_LoadElectionState E db \<noteq> None"
    and cfg: "cfg_Members cfg = [\<lparr>m_ID = cfg_NodeID cfg, m_Address = addr\<rparr>]"
      "cfg_MetricsAddr cfg = '''' \<or> env_listen E (cfg_MetricsAddr cfg) = None"
  obtains s where "Server_boot E tick cfg db = Some (Inr s)" "placed E {} {} s" "leaderAddr s = addr"
proof -
  note laws = steadyD(1) [OF E]
  obtain ws where ws: "Store_ListWorkers E db = Inr ws" using wrks.list_spec [OF laws db(1)] by auto
  obtain s where rec: "recover E (new_server tick cfg db) = (None, s)" and s: "s_db s = db" "s_queue s = PQ_New"
      "s_node s = s_node (new_server tick cfg db)" "\<not> s_closed s" "s_members s = [(cfg_NodeID cfg, addr)]"
    using ws cfg(1) by (auto simp: recover_def new_server_def Let_def)
  have n: "nc_Members (n_cfg (s_node s)) = [cfg_NodeID cfg]" "nc_NodeID (n_cfg (s_node s)) = cfg_NodeID cfg"
    using cfg(1) s(3) by (simp_all add: new_server_def Node_New_def node_withDefaults_def Let_def)
  have "ss_LoadState (electionStore E) db \<noteq> None" using db(2) by (simp add: electionStore_def)
  then obtain t n' db' where start: "Node_Start (electionStore E) (draw_of E s) (s_node s) (s_db s) = Some ([OnLeader t], n', db')"
    "Node_IsLeader n'" "n_cfg n' = n_cfg (s_node s)"
    using Node_Start_single [OF n(1)] s(1) by metis
  let ?s = "(asked s)\<lparr>s_node := n', s_db := db'\<rparr>"
  have sane: "sane E ?s"
    using same_tables_election(6) [OF laws start(1)] db(1) s by (auto simp: same_tables_def sane_def pq_inv_New)
  have boot: "Server_boot E tick cfg db = Some (Inr (onBecomeLeader E t ?s))"
    using rec cfg(2) start(1) by (auto simp: Server_boot_def startMetricsHTTP_def run_callback_def)
  have placed: "placed E {} {} (onBecomeLeader E t ?s)"
    by (rule placed_onBecomeLeader [OF E sane]) (use start(2) s(4) in simp_all)
  have "s_members (onBecomeLeader E t ?s) = [(cfg_NodeID cfg, addr)]"
    using refines_rebuildSchedulingState [OF laws, of ?s] sane s(5)
    by (auto simp: onBecomeLeader_def seedReplication_def refines_def Let_def)
  then have "leaderAddr (onBecomeLeader E t ?s) = addr"
    using onBecomeLeader_frame(3) [OF laws sane, of t] start(2,3) n(2)
    by (simp add: leaderAddr_def Node_LeaderID_def Node_IsLeader_def)
  then show thesis using boot placed that by blast
qed

text \<open>
  C14. A scheduler without peers recovers by itself, whatever a crash left in its store: when it has
  started it leads and names its own address as the leader's, it still has exactly the jobs of the
  store, none of them is RUNNING any more, every QUEUED one is in the ready queue or has a timer, and
  every PENDING one has a dependency that has not succeeded.
\<close>

theorem lone_scheduler_recovers:
  assumes E: "steady E" and db: "Store_Open E (db_path (Config_withDefaults cfg)) = Inr db" "store_wf E db"
      "Store_LoadElectionState E db \<noteq> None"
    and cfg: "cfg_Members cfg = []" "cfg_MetricsAddr cfg = '''' \<or> env_listen E (cfg_MetricsAddr cfg) = None"
  shows "\<exists>s. Server_New E tick cfg = Some (Inr s) \<and> requireLeader s = None \<and> leaderAddr s = cfg_ListenAddr (Config_withDefaults cfg) \<and>
    dom (jobs_of E (s_db s)) = dom (jobs_of E db) \<and>
    (\<forall>k j. jobs_of E (s_db s) k = Some j \<longrightarrow> j_State j \<noteq> JOB_STATE_RUNNING \<and>
       (j_State j = JOB_STATE_QUEUED \<longrightarrow> PQ_Contains k (s_queue s) \<or> k \<in> fst ` set (s_retryTimers s)) \<and>
       (j_State j = JOB_STATE_PENDING \<longrightarrow>
          (\<exists>d \<in> set (j_DependsOn j). \<forall>dj. jobs_of E (s_db s) d = Some dj \<longrightarrow> j_State dj \<noteq> JOB_STATE_SUCCEEDED)))"
proof -
  let ?cfg = "Config_withDefaults cfg"
  have "cfg_MetricsAddr ?cfg = cfg_MetricsAddr cfg" by (simp add: Config_withDefaults_def Let_def)
  then obtain s where boot: "Server_boot E tick ?cfg db = Some (Inr s)" and s: "placed E {} {} s" "leaderAddr s = cfg_ListenAddr ?cfg"
    using boot_single [OF E db(2,3) single_members [OF cfg(1)], of tick] cfg(2) by metis
  have not_leased: "\<not> leased s k" for k using boot_leases [OF boot] by (simp add: leased_def getLease_def)
  have "dom (jobs_of E (s_db s)) = dom (jobs_of E db)"
    using Server_boot_view [OF steadyD(1) [OF E] db(2) boot] machine_steps_dom by (fastforce simp: view_def)
  moreover have "requireLeader s = None" using placedD(2) [OF s(1)] by (simp add: requireLeader_def)

  moreover have "Server_New E tick cfg = Some (Inr s)" using db(1) boot by (simp add: Server_New_def)
  moreover have "j_State j \<noteq> JOB_STATE_RUNNING \<and>
       (j_State j = JOB_STATE_QUEUED \<longrightarrow> PQ_Contains k (s_queue s) \<or> k \<in> fst ` set (s_retryTimers s)) \<and>
       (j_State j = JOB_STATE_PENDING \<longrightarrow>
          (\<exists>d \<in> set (j_DependsOn j). \<forall>dj. jobs_of E (s_db s) d = Some dj \<longrightarrow> j_State dj \<noteq> JOB_STATE_SUCCEEDED))"
    if "jobs_of E (s_db s) k = Some j" for k j
    using placedD(7,8) [OF s(1), of k] that not_leased [of k]
    by (auto simp: located_def waiting_def deps_met_def pq_abs_def PQ_Contains_def)
  ultimately show ?thesis using s(2) by blast
qed

text \<open>A store with a job that was RUNNING when its scheduler crashed.\<close>

definition crashed_env :: "mem env" where
  "crashed_env = sample_env\<lparr>bolt_Open := (\<lambda>_. Inr (mem_of [(sample_job ''a'')\<lparr>j_State := JOB_STATE_RUNNING, j_Attempt := 1\<rparr>] []))\<rparr>"

lemma crashed_env_store:
  "store_laws crashed_env = store_laws sample_env" "no_faults crashed_env = no_faults sample_env"
  "store_wf crashed_env = store_wf sample_env" "jobs_of crashed_env = jobs_of sample_env"
  "env_uuid crashed_env = env_uuid sample_env"
proof -
  have r: "reads crashed_env = reads sample_env" by (intro ext) (simp add: reads_def crashed_env_def)
  show "store_laws crashed_env = store_laws sample_env"
    by (simp add: store_laws_def bolt_laws_def codec_laws_def r) (simp add: crashed_env_def)
  show "no_faults crashed_env = no_faults sample_env" by (simp add: no_faults_def crashed_env_def)
  show "store_wf crashed_env = store_wf sample_env" by (intro ext) (simp add: store_wf_def r, simp add: crashed_env_def)
  show "jobs_of crashed_env = jobs_of sample_env" by (intro ext) (simp add: jobs_of_def bucket_abs_def crashed_env_def)
  show "env_uuid crashed_env = env_uuid sample_env" by (simp add: crashed_env_def)
qed

theorem lone_scheduler_recovers_witness:
  "\<exists>s j. Server_New crashed_env 0 (sample_cfg\<lparr>cfg_Members := []\<rparr>) = Some (Inr s) \<and> requireLeader s = None \<and>
     jobs_of crashed_env (s_db s) ''a'' = Some j \<and> j_State j \<noteq> JOB_STATE_RUNNING"
proof -
  let ?db = "mem_of [(sample_job ''a'')\<lparr>j_State := JOB_STATE_RUNNING, j_Attempt := 1\<rparr>] []" and ?cfg = "sample_cfg\<lparr>cfg_Members := []\<rparr>"
  have E: "steady crashed_env" using steady_sample by (simp add: steady_def crashed_env_store)
  have o: "Store_Open crashed_env (db_path (Config_withDefaults ?cfg)) = Inr ?db" by (simp add: Store_Open_def crashed_env_def)
  have wf: "store_wf crashed_env ?db" using sane_sample [of Leader _ "[]"] by (simp add: crashed_env_store sane_def)
  have el: "Store_LoadElectionState crashed_env ?db \<noteq> None"
    by (simp add: Store_LoadElectionState_def crashed_env_def mem_of_def bucketMeta_def bucketJobs_def bucketWorkers_def)
  have a: "''a'' \<in> dom (jobs_of crashed_env ?db)" by (simp add: crashed_env_store domIff)
  have cfg: "cfg_Members ?cfg = []" "cfg_MetricsAddr ?cfg = '''' \<or> env_listen crashed_env (cfg_MetricsAddr ?cfg) = None"
    by (simp_all add: sample_cfg_def)
  from lone_scheduler_recovers [OF E o wf el cfg, of 0] a show ?thesis by fastforce
qed

end
