(* ===== verification/Metrics.thy ===== *)
theory Metrics
  imports Server_State
begin

text \<open>
  The Prometheus instrumentation of a node (\<open>internal/metrics/metrics.go\<close>). A server keeps the
  events its counters counted, in \<open>s_counters\<close>; the live collector samples the server when it is
  scraped. The registry, the text format and the HTTP handler are Prometheus's own.
\<close>

section \<open>Counters\<close>

fun counter_name :: "counter \<Rightarrow> string" where
  "counter_name JobsSubmitted = ''distsched_jobs_submitted_total''"
| "counter_name JobsSucceeded = ''distsched_jobs_succeeded_total''"
| "counter_name JobsDeadLettered = ''distsched_jobs_dead_lettered_total''"
| "counter_name JobsCanceled = ''distsched_jobs_canceled_total''"
| "counter_name TasksDispatched = ''distsched_tasks_dispatched_total''"
| "counter_name TasksRetried = ''distsched_tasks_retried_total''"
| "counter_name TasksRequeued = ''distsched_tasks_requeued_total''"

definition counter_value :: "'db server \<Rightarrow> counter \<Rightarrow> nat" where
  "counter_value s c = count_list (s_counters s) c"

section \<open>Live collector\<close>

datatype live_desc = queueDepthDesc | inFlightDesc | deadLetterDesc | leaderDesc | termDesc | workersDesc

fun live_name :: "live_desc \<Rightarrow> string" where
  "live_name queueDepthDesc = ''distsched_queue_depth''"
| "live_name inFlightDesc = ''distsched_inflight_tasks''"
| "live_name deadLetterDesc = ''distsched_dead_letter_size''"
| "live_name leaderDesc = ''distsched_is_leader''"
| "live_name termDesc = ''distsched_election_term''"
| "live_name workersDesc = ''distsched_workers''"

fun live_labels :: "live_desc \<Rightarrow> string list" where
  "live_labels workersDesc = [''state'']"
| "live_labels _ = []"

record LiveSources =
  ls_QueueDepth :: f64
  ls_InFlight :: f64
  ls_DeadLetterTotal :: f64
  ls_IsLeader :: f64
  ls_Term :: f64
  ls_WorkersByState :: "(string \<times> f64) list"

text \<open>The closures \<open>New\<close> hands to the metrics, sampled on a server.\<close>

definition live_sources :: "'db env \<Rightarrow> 'db server \<Rightarrow> LiveSources" where
  "live_sources E s =
     \<lparr>ls_QueueDepth = f_of_int (int (QueueDepth s)), ls_InFlight = f_of_int (int (InFlight s)),
      ls_DeadLetterTotal = f_of_int (int (DeadLetterCount E s)), ls_IsLeader = boolToFloat (Node_IsLeader (s_node s)),
      ls_Term = f_of_int (Node_Term (s_node s)),
      ls_WorkersByState = map (\<lambda>(l, n). (l, f_of_int n)) (workersByState s)\<rparr>"

text \<open>
  What the collector sends: a description, a value, and the values of the labels. The order in which
  Go iterates over the map of workers does not matter to the registry, which sorts what it gathers.
\<close>

definition Describe :: "live_desc list" where
  "Describe = [queueDepthDesc, inFlightDesc, deadLetterDesc, leaderDesc, termDesc, workersDesc]"

definition Collect_live :: "LiveSources \<Rightarrow> (live_desc \<times> f64 \<times> string list) list" where
  "Collect_live src =
     [(queueDepthDesc, ls_QueueDepth src, []), (inFlightDesc, ls_InFlight src, []),
      (deadLetterDesc, ls_DeadLetterTotal src, []), (leaderDesc, ls_IsLeader src, []), (termDesc, ls_Term src, [])] @
     map (\<lambda>(state, n). (workersDesc, n, [state])) (ls_WorkersByState src)"

text \<open>The names on the registry of a node, in the order \<open>New\<close> registers them.\<close>

definition registered_names :: "string list" where
  "registered_names =
     map counter_name [JobsSubmitted, JobsSucceeded, JobsDeadLettered, JobsCanceled, TasksDispatched, TasksRetried, TasksRequeued] @
     map live_name Describe"

section \<open>What a scrape answers\<close>

definition in_state :: "WorkerState \<Rightarrow> 'db server \<Rightarrow> nat" where
  "in_state st s = length (filter (\<lambda>(_, w). w_State w = st) (s_workers s))"

lemma count_workers:
  "fold (\<lambda>(_, w) out. case state_label (w_State w) of None \<Rightarrow> out | Some l \<Rightarrow> AList.update l (the (map_of out l) + 1) out)
     ws [(''alive'', a), (''suspect'', b), (''dead'', c)] =
   [(''alive'', a + int (length (filter (\<lambda>(_, w). w_State w = WORKER_STATE_ALIVE) ws))),
    (''suspect'', b + int (length (filter (\<lambda>(_, w). w_State w = WORKER_STATE_SUSPECT) ws))),
    (''dead'', c + int (length (filter (\<lambda>(_, w). w_State w = WORKER_STATE_DEAD) ws)))]"
proof (induction ws arbitrary: a b c)
  case (Cons x ws)
  obtain k w where x: "x = (k, w)" by (cases x)
  then show ?case by (cases "w_State w") (simp_all add: Cons)
qed simp


text \<open>
  The gauge \<open>distsched_workers\<close> reports, for each liveness state, how many registered workers are
  in it.
\<close>

lemma workers_gauge_counts:
  "filter (\<lambda>(d, v, ls). d = workersDesc) (Collect_live (live_sources E s)) =
     [(workersDesc, f_of_int (int (in_state WORKER_STATE_ALIVE s)), [''alive'']),
      (workersDesc, f_of_int (int (in_state WORKER_STATE_SUSPECT s)), [''suspect'']),
      (workersDesc, f_of_int (int (in_state WORKER_STATE_DEAD s)), [''dead''])]"
  by (simp add: Collect_live_def live_sources_def workersByState_def count_workers in_state_def)

end
