(* ===== verification/Background.thy ===== *)
theory Background
  imports Server_Run Metrics
begin

text \<open>
  What a scheduler node does on its own: the reaper loop (\<open>recovery.go\<close>) and the replication loop
  (\<open>cluster.go\<close>), and the HTTP endpoint for metrics and health (\<open>server.go\<close>). A loop is a \<open>select\<close> over
  its context and its ticker; between two of its turns the rest of the node goes on.
\<close>

section \<open>Loops\<close>

datatype 'db loop_event = Ctx_Done | Ticker | Meanwhile "'db server \<Rightarrow> 'db server"

text \<open>The server after the events, and whether the loop has returned.\<close>

fun reaperLoop :: "'db env \<Rightarrow> 'db loop_event list \<Rightarrow> 'db server \<Rightarrow> bool \<times> 'db server" where
  "reaperLoop E [] s = (False, s)"
| "reaperLoop E (Ctx_Done # es) s = (True, s)"
| "reaperLoop E (Ticker # es) s = reaperLoop E es (if Node_IsLeader (s_node s) then reapOnce E s else s)"
| "reaperLoop E (Meanwhile f # es) s = reaperLoop E es (f s)"

fun replicationLoop ::
  "'db env \<Rightarrow> (string \<Rightarrow> int \<Rightarrow> string \<Rightarrow> ReplicationEntry list \<Rightarrow> goerr + ReplicateResponse) \<Rightarrow> 'db loop_event list \<Rightarrow>
   'db server \<Rightarrow> bool \<times> 'db server" where
  "replicationLoop E send [] s = (False, s)"
| "replicationLoop E send (Ctx_Done # es) s = (True, s)"
| "replicationLoop E send (Ticker # es) s =
     replicationLoop E send es (if Node_IsLeader (s_node s) then broadcastReplicate E send s else s)"
| "replicationLoop E send (Meanwhile f # es) s = replicationLoop E send es (f s)"

text \<open>
  With steps of a node in between, the loops make runs of the node, so that every property of runs
  holds while they turn.
\<close>

definition is_step :: "'db env \<Rightarrow> 'db loop_event \<Rightarrow> bool" where
  "is_step E e \<longleftrightarrow> (case e of Meanwhile f \<Rightarrow> (\<forall>s. \<exists>l. server_step E l s (f s)) | _ \<Rightarrow> True)"

lemma server_run_step: "server_step E l s t \<Longrightarrow> server_run E ls t u \<Longrightarrow> server_run E (l # ls) s u"
proof (rotate_tac, induction rule: server_run.induct)
  case (start t)
  then show ?case using server_run.more [OF server_run.start] by fastforce
next
  case (more ls t u l' v)
  then have "server_run E ((l # ls) @ [l']) s v" by (intro server_run.more) auto
  then show ?case by simp
qed

lemma loop_turn: "server_step E l s t \<Longrightarrow> \<exists>ls. server_run E ls t u \<Longrightarrow> \<exists>ls. server_run E ls s u"
  using server_run_step by blast

lemma reaperLoop_run: "list_all (is_step E) es \<Longrightarrow> \<exists>ls. server_run E ls s (snd (reaperLoop E es s))"
proof (induction E es s rule: reaperLoop.induct)
  case (3 E es s)
  have "server_step E None s (if Node_IsLeader (s_node s) then reapOnce E s else s)"
    using server_step.work [OF work_step.reaper, of E s] by (simp add: reaperTick_def)
  from loop_turn [OF this 3(1)] show ?case using 3(2) by simp
next
  case (4 E f es s)
  then obtain l where "server_step E l s (f s)" by (auto simp: is_step_def)
  from loop_turn [OF this 4(1)] show ?case using 4(2) by simp
qed (auto intro: server_run.start)

lemma replicationLoop_run: "list_all (is_step E) es \<Longrightarrow> \<exists>ls. server_run E ls s (snd (replicationLoop E send es s))"
proof (induction E send es s rule: replicationLoop.induct)
  case (3 E send es s)
  have "server_step E None s (if Node_IsLeader (s_node s) then broadcastReplicate E send s else s)"
    using server_step.broadcast [of E s send] by (simp add: replicationTick_def)
  from loop_turn [OF this 3(1)] show ?case using 3(2) by simp
next
  case (4 E send f es s)
  then obtain l where "server_step E l s (f s)" by (auto simp: is_step_def)
  from loop_turn [OF this 4(1)] show ?case using 4(2) by simp
qed (auto intro: server_run.start)

section \<open>Metrics and health\<close>

text \<open>
  The two handlers on the metrics address; every other path is answered 404 by the standard
  library. The text format of a scrape belongs to the Prometheus library.
\<close>

datatype http_body = Http_Text string | Http_Scrape "(counter \<times> nat) list" "(live_desc \<times> f64 \<times> string list) list"

definition healthz :: "nat \<times> http_body" where
  "healthz = (200, Http_Text (''ok'' @ [CHR 0x0A]))"

definition metrics_mux :: "'db env \<Rightarrow> 'db server \<Rightarrow> string \<Rightarrow> nat \<times> http_body" where
  "metrics_mux E s path =
     (if path = ''/metrics''
      then (200, Http_Scrape (map (\<lambda>c. (c, counter_value s c))
              [JobsSubmitted, JobsSucceeded, JobsDeadLettered, JobsCanceled, TasksDispatched, TasksRetried, TasksRequeued])
            (Collect_live (live_sources E s)))
      else if path = ''/healthz'' then healthz
      else (404, Http_Text (''404 page not found'' @ [CHR 0x0A])))"

end
