(* ===== verification/Backoff_Bounds.thy ===== *)
theory Backoff_Bounds
  imports Retry
begin

text \<open>
  Bounds of the retry delay before the jitter, for every policy a client may send: the cap holds from
  the second attempt on, and the first delay is the initial one.
\<close>

lemma half_even_nonneg: "0 \<le> m \<Longrightarrow> 0 \<le> half_even m"
  by (auto simp: half_even_def Let_def)

lemma round_pos_nonneg: "0 \<le> x \<Longrightarrow> 0 \<le> round_pos x"
proof -
  have "0 < pow2 k" for k by (simp add: pow2_def)
  then show "0 \<le> x \<Longrightarrow> 0 \<le> round_pos x"
    by (auto simp: round_pos_def Let_def less_imp_le intro!: mult_nonneg_nonneg half_even_nonneg divide_nonneg_pos)
qed

text \<open>A float that is neither negative nor a NaN.\<close>

fun nonneg :: "f64 \<Rightarrow> bool" where
  "nonneg (Fin a) = (0 \<le> a)"
| "nonneg PosInf = True"
| "nonneg _ = False"

lemma nonneg_fl: "0 \<le> x \<Longrightarrow> nonneg (fl x)"
  using round_pos_nonneg [of x] by (auto simp: fl_def Let_def)

lemma capped_le: "nonneg x \<Longrightarrow> nonneg cap \<Longrightarrow> \<not> f_le cap x \<Longrightarrow> f_le x cap"
  by (cases x; cases cap) auto

lemma nonneg_mul: "nonneg x \<Longrightarrow> 0 < m \<Longrightarrow> nonneg (f_mul x (Fin m))"
  by (cases x) (auto intro!: nonneg_fl)

lemma backoff_loop_capped:
  assumes "0 < m" "nonneg cap"
  shows "nonneg base \<Longrightarrow> f_le base cap \<or> 0 < n \<Longrightarrow> f_le (backoff_loop n (Fin m) cap base) cap"
proof (induction n arbitrary: base)
  case (Suc n)
  have "f_le cap cap" using assms(2) by (cases cap) auto
  then show ?case
    using Suc.IH [of "f_mul base (Fin m)"] nonneg_mul [OF Suc.prems(1) assms(1)] capped_le [OF _ assms(2)] by (auto simp: Let_def)
qed simp

lemma backoff_params:
  "0 < backoff_initial p" "0 < backoff_max p" "f_less (Fin 0) (backoff_mult p)"
  by (auto simp: backoff_initial_def backoff_max_def backoff_mult_def defaultInitial_def defaultMax_def defaultMultiplier_def
      Let_def split: option.splits)

text \<open>
  C36. Whatever the policy of a job says, the delay after its second and every later failed attempt,
  before the jitter, is at most the maximum the policy allows; the delay after the first failure is
  the initial delay of the policy. A multiplier that is not finite is left aside.
\<close>

theorem retry_delay_capped:
  assumes "backoff_mult p \<noteq> PosInf"
  shows "(1 < attempt \<longrightarrow> f_le (backoff_base p attempt) (f_of_int (backoff_max p))) \<and>
    (attempt \<le> 1 \<longrightarrow> backoff_base p attempt = f_of_int (backoff_initial p))"
proof -
  obtain m where m: "backoff_mult p = Fin m" "0 < m" using backoff_params(3) [of p] assms by (cases "backoff_mult p") auto
  have "nonneg (f_of_int (backoff_max p))" "nonneg (f_of_int (backoff_initial p))"
    using backoff_params(1,2) [of p] by (simp_all add: f_of_int_def nonneg_fl)
  then show ?thesis
    using backoff_loop_capped [OF m(2), of "f_of_int (backoff_max p)" "f_of_int (backoff_initial p)" "nat (attempt - 1)"]
    by (auto simp: backoff_base_def m(1) Let_def)
qed

theorem retry_delay_capped_witness: "f_le (backoff_base None 7) (f_of_int (30 * second))"
  using retry_delay_capped [of None 7] by (simp add: backoff_mult_def backoff_max_def defaultMultiplier_def defaultMax_def)

text \<open>
  The first delay is not capped: with an initial delay of 4 and a maximum of 2 nanoseconds the first
  retry waits 4, although the comment of \<open>Backoff\<close> has \<open>min(max_backoff, initial)\<close> for it.
\<close>

lemma first_delay_uncapped:
  "\<not> f_le (backoff_base (Some \<lparr>rp_MaxAttempts = 3, rp_InitialBackoff = Some 4, rp_MaxBackoff = Some 2,
       rp_BackoffMultiplier = Fin 2, rp_Jitter = Fin 0\<rparr>) 1) (f_of_int 2)"
proof -
  have "quotient_of 4 = (4, 1)" "quotient_of 2 = (2, 1)" by (simp_all add: quotient_of_number)
  moreover have "bits 4 = 3" "bits 2 = 2" "bits 1 = 1" by (simp_all add: bits.simps)
  ultimately have "expo 4 = 2" "expo 2 = 1" by (simp_all add: expo_def pow2_def)
  then have "fl 4 = Fin 4" "fl 2 = Fin 2" by (simp_all add: fl_def round_pos_def half_even_def pow2_def Let_def)
  then show ?thesis by (simp add: backoff_base_def backoff_initial_def AsDuration_def f_of_int_def)
qed

end
