(* ===== verification/Spec2Isabelle.thy ===== *)
theory Spec2Isabelle
  imports
    Sample Election_Safety Interleaved_Polls Cascade Handlers Agent_Cluster Peer_Transport Daemons Background
    Backoff_Bounds
begin

text \<open>
  A verification library for distsched, a distributed job scheduler written in Go (sources under
  \<open>src/\<close>).

  \<^bold>\<open>The program.\<close> A few scheduler nodes elect a leader (\<open>internal/cluster\<close>) over gRPC connections
  (\<open>internal/scheduler/cluster.go\<close>). The leader takes submissions (\<open>job.go\<close>), keeps jobs and workers in
  a BoltDB file (\<open>internal/store\<close>), orders ready jobs in a priority queue (\<open>internal/queue\<close>), holds back
  jobs with unmet dependencies or a future fire time (\<open>deps.go\<close>), leases tasks to workers that poll and
  takes their reports (\<open>dispatch.go\<close>, \<open>worker.go\<close>), retries failures with a growing delay
  (\<open>internal/retry\<close>), takes back the tasks of lost workers (\<open>recovery.go\<close>) and ships its tables to the
  followers (\<open>server.go\<close>, \<open>cluster.go\<close>). Worker daemons run the agent of \<open>internal/worker\<close>; users run
  \<open>schedulerctl\<close> over the client library \<open>internal/ctl\<close>. \<open>internal/metrics\<close> reports to Prometheus.

  \<^bold>\<open>Conventions.\<close> A Go function is a HOL function of the same name where the name is free, with the
  state it changes as argument and result; an error is the left side of a sum or \<open>Some\<close> error. Integers
  are \<open>int\<close> with \<open>i32\<close> and \<open>i64\<close> written where the width matters, \<open>float64\<close> is modelled with its rounding
  (\<open>Float64\<close>), strings are byte lists, a Go map is an association list, and ranging over it goes through
  a permutation that the environment chooses. Code that is not part of the repository is a parameter:
  BoltDB and the protobuf codec (record \<open>bolt\<close>, laws \<open>store_laws\<close>), clock, random numbers, UUIDs, cron
  parser and map order (record \<open>env\<close>), gRPC, waiting and processes as a client sees them (records
  \<open>net\<close> and \<open>host\<close>). \<open>no_faults\<close> says that the store takes every write; \<open>steady\<close> adds that UUIDs do not repeat.
  \<open>Mem_Store\<close> and \<open>Sample\<close> instantiate the parameters, so that the hypotheses are shown to be
  satisfiable.

  \<^bold>\<open>Theories and sources.\<close>

  \<^item> \<open>Prelude\<close>, \<open>Float64\<close>, \<open>Go_Strings\<close>: Go's integers, time, maps, floating point and the string
    functions the program uses. \<open>Go_Flags\<close>: the packages \<open>flag\<close> and \<open>strconv\<close> and \<open>time.ParseDuration\<close>,
    with round trips of their parsers. \<open>Go_Tabwriter\<close>: the columns of \<open>text/tabwriter\<close>. \<open>Messages\<close>: the
    protobuf messages (\<open>gen/go/distsched/v1\<close>).
  \<^item> \<open>Heap_List\<close>, \<open>Ready_Queue\<close>: \<open>container/heap\<close> and \<open>internal/queue/queue.go\<close>. The heap with its
    index refines a finite map with a least element (locale \<open>ready_queue\<close>).
  \<^item> \<open>Bolt_Store\<close>, \<open>Mem_Store\<close>: \<open>internal/store/store.go\<close> (locales \<open>listed_store\<close>, \<open>keyed_store\<close>,
    interpreted for jobs, workers and dead letters) and the in-memory instance of BoltDB.
  \<^item> \<open>Retry\<close>, \<open>Backoff_Bounds\<close>: \<open>internal/retry/retry.go\<close> and the bound on its delays.
  \<^item> \<open>Election\<close>, \<open>Election_System\<close>, \<open>Election_Safety\<close>: \<open>internal/cluster/cluster.go\<close>, the members and
    their network as a transition system, and election safety (locales \<open>durable_state\<close>,
    \<open>quorum_system\<close>).
  \<^item> \<open>Server_State\<close>, \<open>Cycle_Check\<close>, \<open>Deps\<close>, \<open>Dispatch\<close>, \<open>Services\<close>, \<open>Leadership\<close>: the state of a node and
    the handlers of \<open>internal/scheduler\<close> (\<open>server.go\<close>, \<open>deps.go\<close>, \<open>dispatch.go\<close>, \<open>recovery.go\<close>, \<open>job.go\<close>,
    \<open>worker.go\<close>, \<open>cluster.go\<close>). A handler is one atomic step. \<open>Background\<close>: the loops of the reaper and of
    replication, whose turns make runs of the node, and the routes of the metrics address.
  \<^item> \<open>Job_Machine\<close>, \<open>Replication\<close>, \<open>Server_Refines\<close>, \<open>Rebuild\<close>, \<open>Server_Run\<close>: the abstract job machine,
    the meaning of the replication log, and the proof that every step of a node (\<open>server_step\<close>, runs
    \<open>server_run\<close>; \<open>work_run\<close> between changes of leadership) only takes steps of the machine.
  \<^item> \<open>Placement\<close>, \<open>Poll_Batch\<close>, \<open>Exclusive\<close>, \<open>Cascade\<close>, \<open>Handlers\<close>: where a live job waits, what a poll
    hands out, one lease per job, canceling everything that waits on a job, and properties of single
    handlers.
  \<^item> \<open>Poll_Threads\<close>, \<open>Poll_Race\<close>, \<open>Interleaved\<close>, \<open>Interleaved_Polls\<close>: \<open>PollTask\<close> as a thread that makes one
    lock-protected access per step. Alone it is the atomic handler; several interleaved polls hand out
    different jobs; interleaved with all other steps of a leader (\<open>node_step\<close>, \<open>node_run\<close>) they lease no
    job twice. \<open>Poll_Race\<close> shows what the missing lock over a poll costs: a cancellation that comes in
    between is overwritten, or is in the store but not in the log.
  \<^item> \<open>Rpc_Net\<close>, \<open>Agent\<close>, \<open>Agent_Run\<close>: the outside of a client process, \<open>internal/worker/agent.go\<close> and
    \<open>executor.go\<close>, and the runs of an agent in a world that may do anything between its steps.
  \<^item> \<open>Ctl\<close>, \<open>Cli\<close>: \<open>internal/ctl/ctl.go\<close>, \<open>cmd/schedulerctl\<close> from the command line to the printed text and
    the exit code, \<open>internal/buildinfo\<close>, and the configuration of the daemons. \<open>Daemons\<close>: \<open>cmd/scheduler\<close>
    and \<open>cmd/worker\<close> from the command line to the exit code, and the recovery of a scheduler on its own.
  \<^item> \<open>Discovery\<close>: what clients and agents need of a scheduler to find the leader (locale
    \<open>status_service\<close>, interpreted on the modelled servers in \<open>Cluster_Net\<close>).
  \<^item> \<open>Cluster_Net\<close>, \<open>Agent_Cluster\<close>, \<open>Peer_Transport\<close>: clients, agents and peers connected to modelled
    servers: the calls of one side are the handlers of the other.
  \<^item> \<open>Metrics\<close>: \<open>internal/metrics/metrics.go\<close>.
  \<^item> This theory: properties of whole runs of a node, and of replication.

  \<^bold>\<open>What is shown.\<close> The store, the queue and the election keep their contracts. In every run of a node the
  jobs follow the job machine, so that dependencies stay acyclic and are met before a job is
  released, attempts stay within the policy, finished jobs stay as they are, failed jobs are
  dead-lettered and no two leases cover one job, even when polls are interrupted at every access. On a
  leader no job is forgotten, ready jobs are
  handed out in their order and, under polling, all of them; cancellation reaches all that waits; the
  replication log describes the tables and brings a follower to them. An agent stays within its
  capacity, finds the leader when it can be found, starts what it leases, and its report completes the
  job. A command line is read back as the submission it spells out; members, states and jobs survive
  their round trips.

  \<^bold>\<open>Loops.\<close> Loops over data are recursive functions with termination proofs: the depth-first search by
  the nodes not yet visited, the cascade by the indexed jobs not yet visited, polling by the length of
  the queue. No fuel is used. The search for a leader may run forever and is a
  \<open>partial_function\<close>: \<open>None\<close> means that it does not return, and it is shown exactly when it returns.

  \<^bold>\<open>Not modelled.\<close> Interleavings inside handlers other than \<open>PollTask\<close>: these are atomic, though the code
  holds several locks one after the other. The interleaved runs lie within one leadership; in the runs
  \<open>server_run\<close>, which cross changes of leadership, polls are atomic too. The goroutines that deliver the
  election callbacks are steps of their own and may come late, but each callback is atomic. Listening
  sockets, signals and the HTTP server are operating-system plumbing around third-party code, as are the
  Prometheus text format and the encoder of the log; of \<open>Shutdown\<close> the closing of connections and of
  the database file is left out. Of the flag package the help text is left out. Generated gRPC stubs are
  represented by applying the handler, and generated reflection code has no behaviour of its own. Log
  output is left out.
\<close>

section \<open>Jobs\<close>






text \<open>
  C10. Attempts stay within the retry policy, whatever the node does: the attempt counter of every job
  lies between 0 and the policy's maximum, a RUNNING job is in its first to last attempt, a waiting
  job has an attempt left, and no increment of the 32-bit counter wraps.
\<close>

theorem attempts_within_policy:
  assumes "store_laws E" "sane E s" "server_run E ls s s'"
    and "\<And>k j. jobs_of E (s_db s) k = Some j \<Longrightarrow> attempts_ok j"
    and "jobs_of E (s_db s') k = Some j"
  shows "0 \<le> j_Attempt j \<and> j_Attempt j \<le> MaxAttempts (j_RetryPolicy j) \<and> MaxAttempts (j_RetryPolicy j) < 2 ^ 31 \<and>
    (j_State j = JOB_STATE_RUNNING \<longrightarrow> 1 \<le> j_Attempt j) \<and>
    (j_State j = JOB_STATE_PENDING \<or> j_State j = JOB_STATE_QUEUED \<longrightarrow>
       j_Attempt j < MaxAttempts (j_RetryPolicy j) \<and> i32 (j_Attempt j + 1) = j_Attempt j + 1)"
proof -
  have "attempts_inv (view E s')"
  proof (rule run_keeps [OF assms(1,3,2), where P = attempts_inv])
    show "attempts_inv (view E s)" using assms(4) by (simp add: attempts_inv_def)
  qed (rule attempts_inv_step attempts_inv_submit; assumption)+
  then have "attempts_ok j" using assms(5) by (simp add: attempts_inv_def)
  then show ?thesis using i32_id [of "j_Attempt j + 1"] by (auto simp: attempts_ok_def)
qed

theorem attempts_within_policy_witness:
  "\<exists>s' j. server_run sample_env [Some ''b''] (sample_server Leader [] []) s' \<and>
     jobs_of sample_env (s_db s') ''b'' = Some j \<and> j_Attempt j \<le> MaxAttempts (j_RetryPolicy j)"
proof -
  let ?s' = "snd (SubmitJob sample_env (Some (sample_job ''b'')) (sample_server Leader [] []))"
  have run: "server_run sample_env [Some ''b''] (sample_server Leader [] []) ?s'"
    by (rule work_run_server [OF sample_work]) simp
  have "jobs_of sample_env (s_db ?s') ''b'' \<noteq> None" by (rule sample_submit_stored) simp
  then obtain j where j: "jobs_of sample_env (s_db ?s') ''b'' = Some j" by blast
  from attempts_within_policy [OF store_laws_sample sane_sample run _ j] run j show ?thesis by auto
qed








text \<open>
  C4. No job is forgotten by a leader: from taking over on, through any sequence of RPCs, timers and
  sweeps, and if the store takes every write and UUIDs do not repeat, every QUEUED job is in the ready
  queue or has a timer armed, every RUNNING job is covered by a lease, and every PENDING job is indexed
  under each of its dependencies and one of them has not succeeded.
\<close>

theorem no_job_is_forgotten:
  assumes "store_laws E" "no_faults E" "inj (env_uuid E)" "sane E s" "Node_IsLeader (s_node s)" "\<not> s_closed s"
    and "work_run E ls (onBecomeLeader E t s) s'" "jobs_of E (s_db s') k = Some j"
  shows "(j_State j = JOB_STATE_QUEUED \<longrightarrow> PQ_Contains k (s_queue s') \<or> k \<in> fst ` set (s_retryTimers s')) \<and>
    (j_State j = JOB_STATE_RUNNING \<longrightarrow> (\<exists>task l. getLease task s' = Some l \<and> ls_jobID l = k)) \<and>
    (j_State j = JOB_STATE_PENDING \<longrightarrow>
       (\<forall>d \<in> set (j_DependsOn j). k \<in> fst ` set (index_of d s')) \<and>
       (\<exists>d \<in> set (j_DependsOn j). \<forall>dj. jobs_of E (s_db s') d = Some dj \<longrightarrow> j_State dj \<noteq> JOB_STATE_SUCCEEDED))"
proof -
  have E: "steady E" using assms(1-3) by (simp add: steady_def)
  have "placed E {} {} s'" by (rule placed_work_run [OF assms(7) E placed_onBecomeLeader [OF E assms(4-6)]])
  then have "located E s' k" "waiting (jobs_of E (s_db s')) k" by (simp_all add: placed_def)
  then show ?thesis
    using assms(8) by (auto simp: located_def waiting_def leased_def deps_met_def pq_abs_def PQ_Contains_def)
qed

theorem no_job_is_forgotten_witness:
  "jobs_of sample_env (s_db (onBecomeLeader sample_env 1 (sample_server Leader [sample_job ''a''] []))) ''a'' = Some (sample_job ''a'') \<and>
   (PQ_Contains ''a'' (s_queue (onBecomeLeader sample_env 1 (sample_server Leader [sample_job ''a''] []))) \<or>
    ''a'' \<in> fst ` set (s_retryTimers (onBecomeLeader sample_env 1 (sample_server Leader [sample_job ''a''] []))))"
proof -
  have pre: "inj (env_uuid sample_env)" "Node_IsLeader (s_node (sample_server Leader [sample_job ''a''] []))"
    "\<not> s_closed (sample_server Leader [sample_job ''a''] [])"
    using steady_sample by (simp_all add: steady_def Node_IsLeader_def)
  from no_job_is_forgotten [OF store_laws_sample no_faults_sample pre(1) sane_sample pre(2,3) work_run.start sample_takeover]
  show ?thesis by (simp add: sample_takeover)
qed

section \<open>Replication\<close>

text \<open>
  C20. The replication log of a leader describes its tables: from taking over leadership on, through
  any sequence of RPCs, timers and sweeps, replaying the log over empty tables gives exactly the jobs
  and the workers of the leader's store, and the entries are numbered 1, 2, 3 and so on (as long as
  there are fewer than \<open>2 ^ 63\<close>).
\<close>

theorem leader_log_describes_tables:
  assumes "store_laws E" "sane E s" "Node_IsLeader (s_node s)" "work_run E ls (onBecomeLeader E t s) s'"
  shows "replay (s_replLog s') Map.empty = jobs_of E (s_db s') \<and>
    replay_workers (s_replLog s') Map.empty = workers_of E (s_db s') \<and>
    (length (s_replLog s') < 2 ^ 63 \<longrightarrow>
       map re_Seq (s_replLog s') = map int [1..<Suc (length (s_replLog s'))] \<and> s_replSeq s' = int (length (s_replLog s')))"
  using work_run_frame [OF assms(1,4)] onBecomeLeader_frame [OF assms(1,2), of t] assms(3)
  by (simp add: log_ok_def numbered_def del: upt_Suc)

theorem leader_log_describes_tables_witness:
  "\<exists>s'. work_run sample_env [None] (onBecomeLeader sample_env 1 (sample_server Leader [sample_job ''a''] [])) s' \<and>
     replay (s_replLog s') Map.empty = jobs_of sample_env (s_db s')"
proof -
  let ?s = "onBecomeLeader sample_env 1 (sample_server Leader [sample_job ''a''] [])"
  have run: "work_run sample_env [None] ?s (reaperTick sample_env ?s)"
    using work_run.more [OF work_run.start work_step.reaper] by (simp only: append_Nil)
  have leader: "Node_IsLeader (s_node (sample_server Leader [sample_job ''a''] []))" by (simp add: Node_IsLeader_def)
  from leader_log_describes_tables [OF store_laws_sample sane_sample leader run] run show ?thesis by blast
qed

text \<open>
  C3. Replication converges under at-least-once delivery: let the leader's log describe its tables and
  let a follower, whose tables were \<open>J\<close> before this leadership, have applied the first \<open>j\<close> entries,
  at least those it acknowledged. A round that ships what is not acknowledged and is accepted leaves
  the follower with exactly the leader's jobs over \<open>J\<close>, however much of the log it had already
  applied, and once the round is acknowledged there is nothing left to ship.
\<close>

theorem replication_converges:
  assumes "store_laws E" "no_faults E" "store_wf E (s_db f)" "log_ok E s" "length (s_replLog s) < 2 ^ 63"
    and "jobs_of E (s_db f) = replay (take j (s_replLog s)) J" "0 \<le> acked p s" "nat (acked p s) \<le> j"
    and "Replicate E term leader (entriesForPeer p s) f = (r, f')" "rr_Ok r"
  shows "jobs_of E (s_db f') = J ++ jobs_of E (s_db s) \<and>
    entriesForPeer p (ackPeer p (rr_AppliedThrough r) s) = []"
proof -
  let ?es = "entriesForPeer p s" and ?a = "nat (acked p s)" and ?log = "s_replLog s"
  have log: "replay ?log Map.empty = jobs_of E (s_db s)" "upserts_only ?log" "numbered ?log (s_replSeq s)"
    using assms(4) by (auto simp: log_ok_def)
  have es: "?es = drop ?a ?log" by (rule entriesForPeer_drop [OF log(3) assms(5)])
  obtain f1 n where f1: "same_tables E (s_db f) (s_db f1)" and app: "applyEntries E ?es f1 = (n, f')"
    and n: "rr_AppliedThrough r = n"
    by (rule Replicate_accepted [OF assms(1,9,10)])
  have wf: "store_wf E (s_db f1)" "jobs_of E (s_db f1) = jobs_of E (s_db f)"
    using f1 assms(3) by (simp_all add: same_tables_def)
  note A = applyEntries_replay [OF assms(1,2) wf(1) app]
  have "jobs_of E (s_db f') = replay ?log J"
    using A wf(2) assms(6) replay_overlap [OF assms(8), of ?log J] by (simp add: es)
  moreover have "entriesForPeer p (ackPeer p n s) = []"
  proof (cases "?a < length ?log")
    case True
    then have "n = int (length ?log)" using A fold_max_drop [OF log(3) assms(5) True] by (simp add: es)
    then have "acked p (ackPeer p n s) = n" using True by (auto simp: ackPeer_def acked_def split: option.splits)
    moreover have "s_replLog (ackPeer p n s) = ?log" "s_replSeq (ackPeer p n s) = s_replSeq s" by (simp_all add: ackPeer_def)
    ultimately show ?thesis
      using entriesForPeer_drop [of "ackPeer p n s" p] log(3) assms(5) \<open>n = int (length ?log)\<close> by simp
  next
    case False
    then show ?thesis using A es by (simp add: ackPeer_def)
  qed
  ultimately show ?thesis using replay_upserts [OF log(2), of J] log(1) n by simp
qed


theorem replication_converges_witness:
  "\<exists>r f'. Replicate sample_env 1 ''n2'' (entriesForPeer ''n1'' (seedReplication sample_env (sample_server Leader [sample_job ''a''] [])))
       (sample_server Follower [sample_job ''b''] []) = (r, f') \<and>
     jobs_of sample_env (s_db f') = jobs_of sample_env (mem_of [sample_job ''b''] []) ++ jobs_of sample_env (mem_of [sample_job ''a''] [])"
proof -
  let ?s = "seedReplication sample_env (sample_server Leader [sample_job ''a''] [])"
  let ?f = "sample_server Follower [sample_job ''b''] []"
  obtain r f' where rep: "Replicate sample_env 1 ''n2'' (entriesForPeer ''n1'' ?s) ?f = (r, f')" by force
  have "rr_Ok r"
    using rep by (auto simp: Replicate_def ObserveLeader_def sample_node_def Let_def split: prod.splits)
  moreover have "length (s_replLog ?s) < 2 ^ 63"
    by (simp add: seedReplication_def Store_ListJobs_def Store_ListWorkers_def list_values_def mem_of_def mem_entries_def Let_def)
  moreover have "acked ''n1'' ?s = 0" by (simp add: acked_def seedReplication_def Let_def)
  ultimately have "jobs_of sample_env (s_db f') = jobs_of sample_env (s_db ?f) ++ jobs_of sample_env (s_db ?s)"
    using replication_converges [OF store_laws_sample no_faults_sample _ seedReplication_log [OF store_laws_sample sane_sample],
        of ?f Leader "[sample_job ''a'']" "[]" 0 "jobs_of sample_env (s_db ?f)" "''n1''" 1 "''n2''" r f']
      rep sane_sample [of Follower "[sample_job ''b'']" "[]"] by (simp add: sane_def)
  then show ?thesis using rep by auto
qed

end
